(* ===== verification/Prelude.thy ===== *)
theory Prelude
  imports Main "HOL-Library.Sublist" "HOL-Library.List_Lexorder" "HOL-Library.Char_ord"
    "HOL-Library.Multiset"
begin

text \<open>
  Shared ground of the development: the lemma collections, Go's error values and results,
  and the operations of the packages \<^verbatim>\<open>strings\<close>, \<^verbatim>\<open>strconv\<close> and \<^verbatim>\<open>sort\<close> that the
  program calls, with the laws the component theories use.

  Go strings are byte sequences and are modelled as \<open>string\<close> (a list of 8-bit characters).
  Where the Go library works on code points (\<^verbatim>\<open>ToLower\<close>, \<^verbatim>\<open>EqualFold\<close>, \<^verbatim>\<open>TrimSpace\<close>) the
  model is exact on ASCII text.
\<close>

named_theorems go_str "rewrite rules for the string operations"
named_theorems go_err "rewrite rules for errors and results"

section \<open>Errors and results\<close>

text \<open>
  Go errors. The sentinels of the program are constructors (they are compared by identity);
  \<open>AuthFailed\<close> is the wrapper type of \<^verbatim>\<open>api/authn.go\<close>; \<open>Errorf m es\<close> is an error made by
  \<^verbatim>\<open>errors.New\<close> or \<^verbatim>\<open>fmt.Errorf\<close> with message stem \<open>m\<close> and the errors \<open>es\<close> it wraps with
  \<^verbatim>\<open>%w\<close> (an error formatted with \<^verbatim>\<open>%s\<close> is not wrapped and not listed).
\<close>

datatype go_error =
    NoMatch
  | AuthFailed "go_error option"
  | TokenNotAuthenticated
  | RulesInitError
  | Errorf string "go_error list"

text \<open>A call either returns an error or panics when it does not return a value.\<close>

datatype go_stop = Err go_error | Panic string

type_synonym 'a go = "go_stop + 'a"

definition nil_deref :: string where
  "nil_deref = ''invalid memory address or nil pointer dereference''"

text \<open>\<^verbatim>\<open>errors.Is\<close>: the error itself or one it wraps, depth first.\<close>

fun errors_is :: "go_error \<Rightarrow> go_error \<Rightarrow> bool" where
  "errors_is (AuthFailed (Some e)) t = (AuthFailed (Some e) = t \<or> errors_is e t)"
| "errors_is (Errorf m es) t = (Errorf m es = t \<or> list_ex (\<lambda>e. errors_is e t) es)"
| "errors_is e t = (e = t)"

text \<open>
  \<^verbatim>\<open>errors.As\<close> with a target of type \<^verbatim>\<open>*api.AuthFailed\<close>: the first such error in the chain.
\<close>

fun as_auth_failed :: "go_error \<Rightarrow> go_error option"
  and as_auth_failed_list :: "go_error list \<Rightarrow> go_error option" where
  "as_auth_failed (AuthFailed c) = Some (AuthFailed c)"
| "as_auth_failed (Errorf m es) = as_auth_failed_list es"
| "as_auth_failed e = None"
| "as_auth_failed_list [] = None"
| "as_auth_failed_list (e # es) =
     (case as_auth_failed e of Some a \<Rightarrow> Some a | None \<Rightarrow> as_auth_failed_list es)"

lemma errors_is_refl [simp]: "errors_is e e"
  by (cases "(e, e)" rule: errors_is.cases) auto

lemma errors_is_wrap [go_err]: "errors_is (Errorf m [e]) NoMatch = errors_is e NoMatch"
  by simp

definition is_no_match :: "go_stop \<Rightarrow> bool" where
  "is_no_match st = (case st of Err e \<Rightarrow> errors_is e NoMatch | Panic _ \<Rightarrow> False)"

lemma is_no_match_simps [simp]:
  "is_no_match (Err e) = errors_is e NoMatch" "is_no_match (Panic m) = False"
  by (simp_all add: is_no_match_def)

text \<open>Going on with the value of a call, or returning its error.\<close>

abbreviation go_then :: "'a go \<Rightarrow> ('a \<Rightarrow> 'b go) \<Rightarrow> 'b go" where
  "go_then r f \<equiv> case r of Inl st \<Rightarrow> Inl st | Inr x \<Rightarrow> f x"

lemma go_then_Inr [go_err]: "go_then r f = Inr y \<longleftrightarrow> (\<exists>x. r = Inr x \<and> f x = Inr y)"
  by (cases r) auto

lemma go_then_Inl [go_err]: "go_then r f = Inl st \<longleftrightarrow> r = Inl st \<or> (\<exists>x. r = Inr x \<and> f x = Inl st)"
  by (cases r) auto

text \<open>A loop that stops at the first element whose step fails.\<close>

fun go_map :: "('a \<Rightarrow> 'b go) \<Rightarrow> 'a list \<Rightarrow> 'b list go" where
  "go_map f [] = Inr []"
| "go_map f (x # xs) =
     (case f x of
        Inl st \<Rightarrow> Inl st
      | Inr y \<Rightarrow> (case go_map f xs of Inl st \<Rightarrow> Inl st | Inr ys \<Rightarrow> Inr (y # ys)))"

lemma go_map_Inr: "go_map f xs = Inr ys \<longleftrightarrow> list_all2 (\<lambda>x y. f x = Inr y) xs ys"
proof (induction xs arbitrary: ys)
  case (Cons x xs)
  show ?case
    by (cases "f x"; cases "go_map f xs") (auto simp: list_all2_Cons1 Cons.IH [symmetric])
qed auto

lemma go_map_Inl: "go_map f xs = Inl st \<Longrightarrow> \<exists>x \<in> set xs. f x = Inl st"
  by (induction xs) (auto split: sum.splits)

section \<open>Characters\<close>

abbreviation code :: "char \<Rightarrow> nat" where
  "code \<equiv> of_char"

definition is_digit :: "char \<Rightarrow> bool" where
  "is_digit c = (48 \<le> code c \<and> code c \<le> 57)"

definition is_lower :: "char \<Rightarrow> bool" where
  "is_lower c = (97 \<le> code c \<and> code c \<le> 122)"

definition is_upper :: "char \<Rightarrow> bool" where
  "is_upper c = (65 \<le> code c \<and> code c \<le> 90)"

definition is_space :: "char \<Rightarrow> bool" where
  "is_space c = (code c = 32 \<or> (9 \<le> code c \<and> code c \<le> 13))"

definition lower_char :: "char \<Rightarrow> char" where
  "lower_char c = (if is_upper c then char_of (code c + 32) else c)"

definition upper_char :: "char \<Rightarrow> char" where
  "upper_char c = (if is_lower c then char_of (code c - 32) else c)"

lemma lower_char_idem [simp]: "lower_char (lower_char c) = lower_char c"
  by (auto simp: lower_char_def is_upper_def)

section \<open>Splitting and joining\<close>

text \<open>\<^verbatim>\<open>strings.Split\<close> with a one-character separator: never empty, keeps empty fields.\<close>

fun split_on :: "char \<Rightarrow> string \<Rightarrow> string list" where
  "split_on c [] = [[]]"
| "split_on c (x # xs) =
     (if x = c then [] # split_on c xs
      else case split_on c xs of [] \<Rightarrow> [[x]] | y # ys \<Rightarrow> (x # y) # ys)"

text \<open>\<^verbatim>\<open>strings.Join\<close> with a one-character separator.\<close>

fun join_with :: "char \<Rightarrow> string list \<Rightarrow> string" where
  "join_with c [] = []"
| "join_with c [s] = s"
| "join_with c (s # t # ss) = s @ c # join_with c (t # ss)"

lemma split_on_nonempty [simp]: "split_on c s \<noteq> []"
  by (induction s) (auto split: list.splits)

lemma length_split_on [go_str]: "length (split_on c s) = Suc (count_list s c)"
  by (induction s) (auto split: list.splits)

lemma join_split [simp]: "join_with c (split_on c s) = s"
proof (induction s)
  case (Cons x s)
  then show ?case
    by (cases "split_on c s"; cases "tl (split_on c s)") auto
qed simp

lemma split_on_field: "f \<in> set (split_on c s) \<Longrightarrow> c \<notin> set f"
  by (induction s arbitrary: f) (auto split: if_splits list.splits)

lemma split_on_no_sep [simp]: "c \<notin> set s \<Longrightarrow> split_on c s = [s]"
  by (induction s) auto

lemma split_on_append_sep [go_str]:
  "c \<notin> set s \<Longrightarrow> split_on c (s @ c # t) = s # split_on c t"
  by (induction s) auto

lemma split_join:
  "ss \<noteq> [] \<Longrightarrow> (\<forall>s \<in> set ss. c \<notin> set s) \<Longrightarrow> split_on c (join_with c ss) = ss"
  by (induction c ss rule: join_with.induct) (auto simp: go_str)

text \<open>\<^verbatim>\<open>strings.Cut\<close> at the first separator (\<^verbatim>\<open>strings.SplitN\<close> with limit 2 gives the same parts).\<close>

fun cut_at :: "char \<Rightarrow> string \<Rightarrow> (string \<times> string) option" where
  "cut_at c [] = None"
| "cut_at c (x # xs) =
     (if x = c then Some ([], xs) else map_option (\<lambda>(a, b). (x # a, b)) (cut_at c xs))"

lemma cut_at_None [simp]: "cut_at c s = None \<longleftrightarrow> c \<notin> set s"
  by (induction s) auto

lemma cut_at_Some: "cut_at c s = Some (a, b) \<longleftrightarrow> s = a @ c # b \<and> c \<notin> set a"
proof (induction s arbitrary: a)
  case (Cons x s)
  then show ?case by (cases a) auto
qed simp

lemma cut_unique: "c \<notin> set a \<Longrightarrow> c \<notin> set b \<Longrightarrow> a @ c # s = b @ c # t \<longleftrightarrow> a = b \<and> s = t"
proof (induction a arbitrary: b)
  case Nil
  then show ?case by (cases b) auto
next
  case (Cons x a)
  then show ?case by (cases b) auto
qed

section \<open>Searching, trimming, case\<close>

text \<open>\<^verbatim>\<open>strings.Contains\<close>.\<close>

fun str_contains :: "string \<Rightarrow> string \<Rightarrow> bool" where
  "str_contains [] sub = (sub = [])"
| "str_contains (c # cs) sub = (prefix sub (c # cs) \<or> str_contains cs sub)"

lemma str_contains_iff: "str_contains s sub \<longleftrightarrow> (\<exists>a b. s = a @ sub @ b)"
proof (induction s)
  case (Cons c cs)
  show ?case
  proof
    assume "str_contains (c # cs) sub"
    then consider "prefix sub (c # cs)" | "str_contains cs sub" by auto
    then show "\<exists>a b. c # cs = a @ sub @ b"
    proof cases
      case 1
      then show ?thesis by (metis append_Nil prefixE)
    next
      case 2
      then show ?thesis using Cons by (metis append_Cons)
    qed
  next
    assume "\<exists>a b. c # cs = a @ sub @ b"
    then obtain a b where ab: "c # cs = a @ sub @ b" by blast
    show "str_contains (c # cs) sub"
    proof (cases a)
      case Nil
      then have "prefix sub (c # cs)" unfolding ab by simp
      then show ?thesis by simp
    next
      case (Cons d a')
      then show ?thesis using ab Cons.IH by auto
    qed
  qed
qed auto

text \<open>\<^verbatim>\<open>strings.TrimSpace\<close>, \<^verbatim>\<open>strings.TrimRight\<close> with a one-character cutset.\<close>

definition trim_right :: "(char \<Rightarrow> bool) \<Rightarrow> string \<Rightarrow> string" where
  "trim_right P s = rev (dropWhile P (rev s))"

definition trim_space :: "string \<Rightarrow> string" where
  "trim_space s = trim_right is_space (dropWhile is_space s)"

text \<open>\<^verbatim>\<open>strings.ToLower\<close> and \<^verbatim>\<open>strings.EqualFold\<close> (ASCII).\<close>

definition to_lower :: "string \<Rightarrow> string" where
  "to_lower s = map lower_char s"

definition equal_fold :: "string \<Rightarrow> string \<Rightarrow> bool" where
  "equal_fold s t = (to_lower s = to_lower t)"

lemma to_lower_idem [simp]: "to_lower (to_lower s) = to_lower s"
  by (simp add: to_lower_def)

lemma to_lower_eq_Nil [simp]: "to_lower s = [] \<longleftrightarrow> s = []"
  by (simp add: to_lower_def)

lemma equal_fold_equiv: "equal_fold s s" "equal_fold s t = equal_fold t s"
  "equal_fold s t \<Longrightarrow> equal_fold t u \<Longrightarrow> equal_fold s u"
  by (auto simp: equal_fold_def)

section \<open>Replacers\<close>

text \<open>
  \<^verbatim>\<open>strings.NewReplacer(oldnew...).Replace\<close>: the target is scanned from left to right without
  overlaps; at each position the pairs are tried in argument order and the first whose old
  string starts there is replaced. Old strings of this program all start with a dollar
  sign, so the library's special treatment of empty old strings does not arise.
\<close>

fun first_pair :: "(string \<times> string) list \<Rightarrow> string \<Rightarrow> (string \<times> string) option" where
  "first_pair [] s = None"
| "first_pair ((old, new) # ps) s =
     (if old \<noteq> [] \<and> prefix old s then Some (old, new) else first_pair ps s)"

fun replace_all :: "(string \<times> string) list \<Rightarrow> string \<Rightarrow> string" where
  "replace_all ps [] = []"
| "replace_all ps (c # cs) =
     (case first_pair ps (c # cs) of
        Some (old, new) \<Rightarrow> new @ replace_all ps (drop (length old - 1) cs)
      | None \<Rightarrow> c # replace_all ps cs)"

lemma first_pair_Some:
  "first_pair ps s = Some (old, new) \<Longrightarrow> (old, new) \<in> set ps \<and> old \<noteq> [] \<and> prefix old s"
  by (induction ps s rule: first_pair.induct) (auto split: if_splits)

lemma first_pair_None:
  "first_pair ps s = None \<longleftrightarrow> (\<forall>(old, new) \<in> set ps. old = [] \<or> \<not> prefix old s)"
  by (induction ps s rule: first_pair.induct) auto

lemma replace_all_step [go_str]:
  "first_pair ps (old @ t) = Some (old, new) \<Longrightarrow>
   replace_all ps (old @ t) = new @ replace_all ps t"
  using first_pair_Some [of ps "old @ t" old new] by (cases old) auto

text \<open>Text in which no old string can start is copied.\<close>

lemma replace_all_copy [go_str]:
  assumes "\<forall>(old, new) \<in> set ps. \<exists>k. old = CHR ''$'' # k" and "CHR ''$'' \<notin> set s"
  shows "replace_all ps (s @ t) = s @ replace_all ps t"
  using assms(2)
proof (induction s)
  case (Cons c s)
  then have "first_pair ps (c # s @ t) = None"
    using assms(1) by (fastforce simp: first_pair_None)
  then show ?case using Cons by simp
qed simp

section \<open>The first element with a property\<close>

definition first_split :: "('a \<Rightarrow> bool) \<Rightarrow> ('a \<Rightarrow> bool) \<Rightarrow> 'a list \<Rightarrow> bool" where
  "first_split P Q xs = (\<exists>pre e post. xs = pre @ e # post \<and> (\<forall>x \<in> set pre. P x) \<and> Q e)"

lemma first_split_Nil [simp]: "\<not> first_split P Q []"
  by (simp add: first_split_def)

lemma first_split_Cons [simp]: "first_split P Q (x # xs) \<longleftrightarrow> Q x \<or> (P x \<and> first_split P Q xs)"
proof
  assume "first_split P Q (x # xs)"
  then obtain pre e post where s: "x # xs = pre @ e # post" "\<forall>y \<in> set pre. P y" "Q e"
    unfolding first_split_def by blast
  show "Q x \<or> (P x \<and> first_split P Q xs)"
  proof (cases pre)
    case (Cons y ys)
    then have "xs = ys @ e # post" "P x" "\<forall>y \<in> set ys. P y" using s by auto
    then show ?thesis using s(3) unfolding first_split_def by blast
  qed (use s in auto)
next
  assume r: "Q x \<or> (P x \<and> first_split P Q xs)"
  show "first_split P Q (x # xs)"
  proof (cases "Q x")
    case True
    have "x # xs = [] @ x # xs \<and> (\<forall>y \<in> set []. P y) \<and> Q x" using True by simp
    then show ?thesis unfolding first_split_def by blast
  next
    case False
    then obtain pre e post where "xs = pre @ e # post" "\<forall>y \<in> set pre. P y" "Q e" "P x"
      using r unfolding first_split_def by blast
    then have "x # xs = (x # pre) @ e # post \<and> (\<forall>y \<in> set (x # pre). P y) \<and> Q e" by simp
    then show ?thesis unfolding first_split_def by blast
  qed
qed

section \<open>Numbers\<close>

text \<open>Decimal digits, most significant first; \<^verbatim>\<open>strconv.Atoi\<close> on a digit string saturates at the maximal int.\<close>

fun dec_value :: "int \<Rightarrow> string \<Rightarrow> int" where
  "dec_value acc [] = acc"
| "dec_value acc (c # cs) = dec_value (10 * acc + (int (code c) - 48)) cs"

definition atoi_digits :: "string \<Rightarrow> int" where
  "atoi_digits s = min (dec_value 0 s) (2 ^ 63 - 1)"

definition hex_digit :: "char \<Rightarrow> nat option" where
  "hex_digit c =
     (if is_digit c then Some (code c - 48)
      else if 97 \<le> code c \<and> code c \<le> 102 then Some (code c - 87)
      else if 65 \<le> code c \<and> code c \<le> 70 then Some (code c - 55)
      else None)"

section \<open>Lists used as Go maps\<close>

text \<open>
  A Go map is an association list with distinct keys; its order is the order in which
  \<^verbatim>\<open>range\<close> visits the entries, which Go leaves open. Lookups are \<open>map_of\<close>.
\<close>

definition map_wf :: "('k \<times> 'v) list \<Rightarrow> bool" where
  "map_wf m = distinct (map fst m)"

lemma map_wf_perm: "map_wf m \<Longrightarrow> mset m = mset m' \<Longrightarrow> map_wf m'"
  unfolding map_wf_def by (metis mset_eq_imp_distinct_iff mset_map)

lemma map_of_perm: "map_wf m \<Longrightarrow> mset m = mset m' \<Longrightarrow> map_of m = map_of m'"
  unfolding map_wf_def by (metis map_of_inject_set map_wf_def map_wf_perm mset_eq_setD)

definition map_get :: "(string \<times> 'v list) list \<Rightarrow> string \<Rightarrow> 'v list" where
  "map_get m k = (case map_of m k of Some v \<Rightarrow> v | None \<Rightarrow> [])"

end
