(* ===== verification/Go_Regexp.thy ===== *)
theory Go_Regexp
  imports Prelude
begin

text \<open>
  Go's package \<^verbatim>\<open>regexp\<close>, as far as the program uses it: \<^verbatim>\<open>Compile\<close>, \<^verbatim>\<open>Match\<close>,
  \<^verbatim>\<open>FindStringSubmatch\<close>, \<^verbatim>\<open>FindAllStringSubmatch\<close> and \<^verbatim>\<open>QuoteMeta\<close>. A pattern is parsed by
  \<open>regexp_compile\<close> into the syntax tree \<open>rx\<close>, whose matches \<open>rx_runs\<close> enumerates in the
  order of preference of the leftmost-first semantics; the first one is the match.

  Text and patterns are matched byte by byte, which is exact for ASCII text. The syntax is
  that of \<^verbatim>\<open>regexp/syntax\<close> with the Perl flags, without Unicode classes (\<^verbatim>\<open>\pN\<close>), which the
  parser rejects.
\<close>

section \<open>Syntax trees\<close>

text \<open>A character class: case folding, negation, inclusive ranges of codes.\<close>

datatype cls = Cls bool bool "(nat \<times> nat) list"

datatype rx =
    REps
  | RSet cls
  | RBeg | REnd | RBol | REol | RWordB | RNoWordB
  | RCat rx rx
  | RAlt rx rx
  | RStar bool rx
  | RPlus bool rx
  | ROpt bool rx
  | RGroup nat rx

fun in_ranges :: "(nat \<times> nat) list \<Rightarrow> nat \<Rightarrow> bool" where
  "in_ranges [] n = False"
| "in_ranges ((lo, hi) # rs) n = ((lo \<le> n \<and> n \<le> hi) \<or> in_ranges rs n)"

fun cls_mem :: "cls \<Rightarrow> char \<Rightarrow> bool" where
  "cls_mem (Cls fld neg rs) c =
     ((in_ranges rs (code c) \<or>
       fld \<and> (in_ranges rs (code (lower_char c)) \<or> in_ranges rs (code (upper_char c)))) \<noteq> neg)"

definition lit_cls :: "bool \<Rightarrow> nat \<Rightarrow> cls" where
  "lit_cls fld n = Cls fld False [(n, n)]"

section \<open>Matching\<close>

text \<open>
  A matcher state is the position in the text and the capture groups set so far (group,
  start, end), latest first.
\<close>

type_synonym mstate = "nat \<times> (nat \<times> nat \<times> nat) list"

definition is_word :: "char \<Rightarrow> bool" where
  "is_word c = (is_digit c \<or> is_lower c \<or> is_upper c \<or> c = CHR ''_'')"

definition word_at :: "string \<Rightarrow> nat \<Rightarrow> bool" where
  "word_at s i = (i < length s \<and> is_word (s ! i))"

definition word_boundary :: "string \<Rightarrow> nat \<Rightarrow> bool" where
  "word_boundary s p = ((0 < p \<and> word_at s (p - 1)) \<noteq> word_at s p)"

text \<open>
  The iterations of a loop after the first one: an iteration that consumes nothing cannot
  reach the loop again, so only iterations that move forward are repeated. The first
  argument bounds the number of iterations; the text's length is enough, since each moves
  forward (\<open>loop_iter_enough\<close>).
\<close>

fun loop_iter :: "nat \<Rightarrow> bool \<Rightarrow> (mstate \<Rightarrow> mstate list) \<Rightarrow> mstate \<Rightarrow> mstate list" where
  "loop_iter 0 greedy m st = [st]"
| "loop_iter (Suc n) greedy m st =
     (let again = concat (map (loop_iter n greedy m) (filter (\<lambda>st'. fst st < fst st') (m st)))
      in if greedy then again @ [st] else st # again)"

definition loop_plus :: "nat \<Rightarrow> bool \<Rightarrow> (mstate \<Rightarrow> mstate list) \<Rightarrow> mstate \<Rightarrow> mstate list" where
  "loop_plus n greedy m st =
     concat (map (\<lambda>st'. if fst st < fst st' then loop_iter n greedy m st' else [st']) (m st))"

primrec rx_runs :: "rx \<Rightarrow> string \<Rightarrow> mstate \<Rightarrow> mstate list" where
  "rx_runs REps s st = [st]"
| "rx_runs (RSet k) s st =
     (if fst st < length s \<and> cls_mem k (s ! fst st) then [(Suc (fst st), snd st)] else [])"
| "rx_runs RBeg s st = (if fst st = 0 then [st] else [])"
| "rx_runs REnd s st = (if fst st = length s then [st] else [])"
| "rx_runs RBol s st = (if fst st = 0 \<or> s ! (fst st - 1) = CHR 0x0A then [st] else [])"
| "rx_runs REol s st = (if fst st = length s \<or> s ! fst st = CHR 0x0A then [st] else [])"
| "rx_runs RWordB s st = (if word_boundary s (fst st) then [st] else [])"
| "rx_runs RNoWordB s st = (if word_boundary s (fst st) then [] else [st])"
| "rx_runs (RCat a b) s st = concat (map (rx_runs b s) (rx_runs a s st))"
| "rx_runs (RAlt a b) s st = rx_runs a s st @ rx_runs b s st"
| "rx_runs (RStar greedy a) s st =
     (let more = loop_plus (length s) greedy (rx_runs a s) st
      in if greedy then more @ [st] else st # more)"
| "rx_runs (RPlus greedy a) s st = loop_plus (length s) greedy (rx_runs a s) st"
| "rx_runs (ROpt greedy a) s st =
     (if greedy then rx_runs a s st @ [st] else st # rx_runs a s st)"
| "rx_runs (RGroup g a) s st =
     map (\<lambda>(q, cs). (q, (g, fst st, q) # cs)) (rx_runs a s st)"

text \<open>The leftmost match at or after a position: where it starts, ends, and its groups.\<close>

fun rx_search :: "rx \<Rightarrow> string \<Rightarrow> nat list \<Rightarrow> (nat \<times> mstate) option" where
  "rx_search r s [] = None"
| "rx_search r s (p # ps) =
     (case rx_runs r s (p, []) of st # _ \<Rightarrow> Some (p, st) | [] \<Rightarrow> rx_search r s ps)"

definition rx_find_from :: "rx \<Rightarrow> string \<Rightarrow> nat \<Rightarrow> (nat \<times> mstate) option" where
  "rx_find_from r s p = rx_search r s [p..<Suc (length s)]"

definition rx_matches :: "rx \<Rightarrow> string \<Rightarrow> bool" where
  "rx_matches r s = (rx_find_from r s 0 \<noteq> None)"

definition substr :: "string \<Rightarrow> nat \<Rightarrow> nat \<Rightarrow> string" where
  "substr s a b = take (b - a) (drop a s)"

text \<open>The list that \<^verbatim>\<open>FindStringSubmatch\<close> returns: the match, then the groups, empty when unset.\<close>

definition submatches :: "nat \<Rightarrow> string \<Rightarrow> nat \<times> mstate \<Rightarrow> string list" where
  "submatches ngroups s m =
     (case m of (start, q, caps) \<Rightarrow>
        substr s start q #
        map (\<lambda>g. case map_of caps g of Some (a, b) \<Rightarrow> substr s a b | None \<Rightarrow> [])
          [1..<Suc ngroups])"

text \<open>\<^verbatim>\<open>FindAll\<close>: successive matches; an empty match adjacent to the previous one is skipped.\<close>

fun rx_all :: "nat \<Rightarrow> rx \<Rightarrow> string \<Rightarrow> nat \<Rightarrow> nat option \<Rightarrow> (nat \<times> mstate) list" where
  "rx_all 0 r s p prev = []"
| "rx_all (Suc n) r s p prev =
     (case rx_find_from r s p of
        None \<Rightarrow> []
      | Some (b, e, caps) \<Rightarrow>
          (if e = p
           then (if prev = Some b then [] else [(b, e, caps)]) @ rx_all n r s (Suc p) (Some e)
           else (b, e, caps) # rx_all n r s e (Some e)))"

section \<open>Parsing\<close>

record rxflags =
  fl_fold :: bool
  fl_multi :: bool
  fl_dotnl :: bool
  fl_swap :: bool

record pstate =
  p_flags :: rxflags
  p_ncap :: nat
  p_names :: "string list"
  p_cat :: "rx list"
  p_alts :: "rx list"
  p_stack :: "(nat option \<times> rxflags \<times> rx list \<times> rx list) list"
  p_rep :: bool

definition perl_flags :: rxflags where
  "perl_flags = \<lparr>fl_fold = False, fl_multi = False, fl_dotnl = False, fl_swap = False\<rparr>"

definition init_pstate :: pstate where
  "init_pstate = \<lparr>p_flags = perl_flags, p_ncap = 0, p_names = [], p_cat = [], p_alts = [],
     p_stack = [], p_rep = False\<rparr>"

fun mk_cat :: "rx list \<Rightarrow> rx" where
  "mk_cat [] = REps"
| "mk_cat [r] = r"
| "mk_cat (r # rs) = RCat r (mk_cat rs)"

fun mk_alt :: "rx list \<Rightarrow> rx" where
  "mk_alt [] = REps"
| "mk_alt [r] = r"
| "mk_alt (r # rs) = RAlt r (mk_alt rs)"

definition close_alt :: "pstate \<Rightarrow> rx" where
  "close_alt st = mk_alt (rev (mk_cat (rev (p_cat st)) # p_alts st))"

definition push_item :: "rx \<Rightarrow> pstate \<Rightarrow> pstate" where
  "push_item r st = st\<lparr>p_cat := r # p_cat st, p_rep := False\<rparr>"

definition push_lit :: "nat \<Rightarrow> pstate \<Rightarrow> pstate" where
  "push_lit n st = push_item (RSet (lit_cls (fl_fold (p_flags st)) n)) st"

subsection \<open>Escapes\<close>

definition is_octal :: "char \<Rightarrow> bool" where
  "is_octal c = (48 \<le> code c \<and> code c \<le> 55)"

fun octal_more :: "nat \<Rightarrow> nat \<Rightarrow> string \<Rightarrow> nat \<times> string" where
  "octal_more (Suc n) v (c # t) =
     (if is_octal c then octal_more n (8 * v + (code c - 48)) t else (v, c # t))"
| "octal_more n v t = (v, t)"

fun hex_braced :: "nat \<Rightarrow> bool \<Rightarrow> string \<Rightarrow> (nat \<times> string) option" where
  "hex_braced v some [] = None"
| "hex_braced v some (c # t) =
     (if c = CHR ''}'' then (if some then Some (v, t) else None)
      else case hex_digit c of
          None \<Rightarrow> None
        | Some d \<Rightarrow> (if 16 * v + d \<le> 0x10FFFF then hex_braced (16 * v + d) True t else None))"

definition is_alnum :: "char \<Rightarrow> bool" where
  "is_alnum c = (is_digit c \<or> is_lower c \<or> is_upper c)"

text \<open>The character of an escape sequence; the argument starts after the backslash.\<close>

fun parse_escape :: "string \<Rightarrow> (nat \<times> string) option" where
  "parse_escape [] = None"
| "parse_escape (c # t) =
     (if code c < 128 \<and> \<not> is_alnum c then Some (code c, t)
      else if c = CHR ''0'' then Some (octal_more 2 0 t)
      else if 49 \<le> code c \<and> code c \<le> 55 then
        (case t of d # _ \<Rightarrow> (if is_octal d then Some (octal_more 2 (code c - 48) t) else None)
         | [] \<Rightarrow> None)
      else if c = CHR ''x'' then
        (case t of
           d # t' \<Rightarrow>
             (if d = CHR ''{'' then hex_braced 0 False t'
              else case (hex_digit d, t') of
                  (Some v, e # t'') \<Rightarrow> map_option (\<lambda>w. (16 * v + w, t'')) (hex_digit e)
                | _ \<Rightarrow> None)
         | [] \<Rightarrow> None)
      else if c = CHR ''a'' then Some (7, t)
      else if c = CHR ''f'' then Some (12, t)
      else if c = CHR ''n'' then Some (10, t)
      else if c = CHR ''r'' then Some (13, t)
      else if c = CHR ''t'' then Some (9, t)
      else if c = CHR ''v'' then Some (11, t)
      else None)"

text \<open>The largest code of a character (text is matched by bytes).\<close>

definition max_code :: nat where
  "max_code = 255"

text \<open>Perl classes and, inside brackets, the POSIX classes.\<close>

definition perl_class :: "char \<Rightarrow> (nat \<times> nat) list option" where
  "perl_class c =
     (if c = CHR ''d'' then Some [(48, 57)]
      else if c = CHR ''D'' then Some [(0, 47), (58, max_code)]
      else if c = CHR ''s'' then Some [(9, 10), (12, 13), (32, 32)]
      else if c = CHR ''S'' then Some [(0, 8), (11, 11), (14, 31), (33, max_code)]
      else if c = CHR ''w'' then Some [(48, 57), (65, 90), (95, 95), (97, 122)]
      else if c = CHR ''W'' then Some [(0, 47), (58, 64), (91, 94), (96, 96), (123, max_code)]
      else None)"

definition posix_classes :: "(string \<times> (nat \<times> nat) list) list" where
  "posix_classes =
     [(''alnum'', [(48, 57), (65, 90), (97, 122)]), (''^alnum'', [(0, 47), (58, 64), (91, 96), (123, max_code)]),
      (''alpha'', [(65, 90), (97, 122)]), (''^alpha'', [(0, 64), (91, 96), (123, max_code)]),
      (''ascii'', [(0, 127)]), (''^ascii'', [(128, max_code)]),
      (''blank'', [(9, 9), (32, 32)]), (''^blank'', [(0, 8), (10, 31), (33, max_code)]),
      (''cntrl'', [(0, 31), (127, 127)]), (''^cntrl'', [(32, 126), (128, max_code)]),
      (''digit'', [(48, 57)]), (''^digit'', [(0, 47), (58, max_code)]),
      (''graph'', [(33, 126)]), (''^graph'', [(0, 32), (127, max_code)]),
      (''lower'', [(97, 122)]), (''^lower'', [(0, 96), (123, max_code)]),
      (''print'', [(32, 126)]), (''^print'', [(0, 31), (127, max_code)]),
      (''punct'', [(33, 47), (58, 64), (91, 96), (123, 126)]),
      (''^punct'', [(0, 32), (48, 57), (65, 90), (97, 122), (127, max_code)]),
      (''space'', [(9, 13), (32, 32)]), (''^space'', [(0, 8), (14, 31), (33, max_code)]),
      (''upper'', [(65, 90)]), (''^upper'', [(0, 64), (91, max_code)]),
      (''word'', [(48, 57), (65, 90), (95, 95), (97, 122)]),
      (''^word'', [(0, 47), (58, 64), (91, 94), (96, 96), (123, max_code)]),
      (''xdigit'', [(48, 57), (65, 70), (97, 102)]),
      (''^xdigit'', [(0, 47), (58, 64), (71, 96), (103, max_code)])]"


subsection \<open>Bracket classes\<close>

text \<open>Every piece of the parser consumes text; these lemmas are collected for termination.\<close>

named_theorems shorter "a parser leaves a shorter rest"

lemma octal_more_length: "length (snd (octal_more n v t)) \<le> length t"
  by (induction n v t rule: octal_more.induct) auto

lemma hex_braced_shorter [shorter]: "hex_braced v b t = Some (n, r) \<Longrightarrow> length r < length t"
  by (induction v b t rule: hex_braced.induct) (auto split: if_splits option.splits)

lemma parse_escape_shorter [shorter]: "parse_escape s = Some (n, r) \<Longrightarrow> length r < length s"
proof (cases s)
  case (Cons c t)
  assume "parse_escape s = Some (n, r)"
  then show ?thesis
    using Cons octal_more_length [of 2 0 t] octal_more_length [of 2 "code c - 48" t]
    by (auto split: if_splits list.splits option.splits dest!: hex_braced_shorter)
qed simp

fun class_char :: "string \<Rightarrow> (nat \<times> string) option" where
  "class_char [] = None"
| "class_char (c # t) = (if c = CHR 0x5C then parse_escape t else Some (code c, t))"

lemma class_char_shorter [shorter]: "class_char s = Some (n, r) \<Longrightarrow> length r < length s"
  by (cases s) (auto split: if_splits dest: parse_escape_shorter)

text \<open>The name of a \<^verbatim>\<open>[:name:]\<close> class and the text after it.\<close>

fun until_close :: "string \<Rightarrow> (string \<times> string) option" where
  "until_close (c # d # t) =
     (if c = CHR '':'' \<and> d = CHR '']'' then Some ([], t)
      else map_option (\<lambda>(n, r). (c # n, r)) (until_close (d # t)))"
| "until_close _ = None"

lemma until_close_shorter [shorter]: "until_close s = Some (n, r) \<Longrightarrow> length r < length s"
  by (induction s arbitrary: n rule: until_close.induct)
    (auto split: if_splits simp: less_Suc_eq)

text \<open>One character or range.\<close>

definition class_range :: "string \<Rightarrow> ((nat \<times> nat) list \<times> string) option" where
  "class_range s =
     (case class_char s of
        None \<Rightarrow> None
      | Some (lo, t) \<Rightarrow>
          (case t of
             d # e # t' \<Rightarrow>
               (if d = CHR ''-'' \<and> e \<noteq> CHR '']''
                then case class_char (e # t') of
                    None \<Rightarrow> None
                  | Some (hi, u) \<Rightarrow> (if hi < lo then None else Some ([(lo, hi)], u))
                else Some ([(lo, lo)], t))
           | _ \<Rightarrow> Some ([(lo, lo)], t)))"

lemma class_range_shorter [shorter]:
  assumes "class_range s = Some (rs, r)"
  shows "length r < length s"
proof -
  from assms obtain lo t where "class_char s = Some (lo, t)"
    by (auto simp: class_range_def split: option.splits)
  moreover from this assms have "length r \<le> length t"
    by (auto simp: class_range_def simp del: class_char.simps
        split: option.splits list.splits if_splits dest!: class_char_shorter)
  ultimately show ?thesis using class_char_shorter by fastforce
qed

definition class_item :: "string \<Rightarrow> ((nat \<times> nat) list \<times> string) option" where
  "class_item s =
     (case s of
        c # d # t \<Rightarrow>
          (if c = CHR ''['' \<and> d = CHR '':'' \<and> t \<noteq> [] \<and> until_close t \<noteq> None
           then case until_close t of
               Some (name, r) \<Rightarrow> map_option (\<lambda>rs. (rs, r)) (map_of posix_classes name)
             | None \<Rightarrow> None
           else if c = CHR 0x5C \<and> perl_class d \<noteq> None
           then map_option (\<lambda>rs. (rs, t)) (perl_class d)
           else class_range s)
      | _ \<Rightarrow> class_range s)"

lemma class_item_shorter [shorter]: "class_item s = Some (rs, r) \<Longrightarrow> length r < length s"
  by (fastforce simp: class_item_def split: option.splits list.splits if_splits
      dest!: class_range_shorter until_close_shorter)

function class_items :: "bool \<Rightarrow> (nat \<times> nat) list \<Rightarrow> string \<Rightarrow> ((nat \<times> nat) list \<times> string) option" where
  "class_items first acc [] = None"
| "class_items first acc (c # t) =
     (if c = CHR '']'' \<and> \<not> first then Some (acc, t)
      else case class_item (c # t) of
          None \<Rightarrow> None
        | Some (rs, r) \<Rightarrow> class_items False (acc @ rs) r)"
  by pat_completeness auto
termination
  by (relation "measure (\<lambda>(first, acc, s). length s)") (auto dest: class_item_shorter)

lemma class_items_shorter [shorter]:
  "class_items first acc s = Some (rs, r) \<Longrightarrow> length r < length s"
proof (induction first acc s rule: class_items.induct)
  case (2 first acc c t)
  then show ?case
    by (fastforce split: if_splits option.splits dest: class_item_shorter)
qed simp

definition parse_class :: "bool \<Rightarrow> string \<Rightarrow> (cls \<times> string) option" where
  "parse_class fld t =
     (let (neg, u) = (case t of c # t' \<Rightarrow> (if c = CHR ''^'' then (True, t') else (False, t))
                      | [] \<Rightarrow> (False, t))
      in map_option (\<lambda>(rs, r). (Cls fld neg rs, r)) (class_items True [] u))"

lemma parse_class_shorter [shorter]: "parse_class b t = Some (k, r) \<Longrightarrow> length r < length t"
  by (auto simp: parse_class_def simp del: class_items.simps split: list.splits if_splits
      dest!: class_items_shorter)

subsection \<open>Repetition\<close>

text \<open>An integer of a \<^verbatim>\<open>{n,m}\<close> operator: no leading zero, at most 1000.\<close>

definition repeat_int :: "string \<Rightarrow> (nat \<times> string) option" where
  "repeat_int s =
     (let ds = takeWhile is_digit s in
      if ds = [] \<or> (length ds \<ge> 2 \<and> hd ds = CHR ''0'') then None
      else Some (if length ds \<ge> 8 then 1001 else nat (dec_value 0 ds), dropWhile is_digit s))"

text \<open>After the opening brace: minimum, maximum (\<open>None\<close> for unbounded), rest; or not a repeat.\<close>

definition repeat_bounds :: "string \<Rightarrow> (nat \<times> nat option \<times> string) option" where
  "repeat_bounds s =
     (case repeat_int s of
        None \<Rightarrow> None
      | Some (lo, t) \<Rightarrow>
          (case t of
             [] \<Rightarrow> None
           | c # t' \<Rightarrow>
               (if c = CHR ''}'' then Some (lo, Some lo, t')
                else if c \<noteq> CHR '','' then None
                else case t' of
                    [] \<Rightarrow> None
                  | d # u \<Rightarrow>
                      (if d = CHR ''}'' then Some (lo, None, u)
                       else case repeat_int t' of
                           Some (hi, e # v) \<Rightarrow> (if e = CHR ''}'' then Some (lo, Some hi, v) else None)
                         | _ \<Rightarrow> None))))"

lemma repeat_int_length: "repeat_int s = Some (n, r) \<Longrightarrow> length r \<le> length s"
  by (auto simp: repeat_int_def Let_def length_dropWhile_le split: if_splits)

lemma repeat_bounds_shorter [shorter]:
  "repeat_bounds s = Some (lo, hi, r) \<Longrightarrow> length r < length s"
  unfolding repeat_bounds_def
  by (fastforce split: option.splits list.splits if_splits dest!: repeat_int_length)

fun rep_opt :: "bool \<Rightarrow> rx \<Rightarrow> nat \<Rightarrow> rx" where
  "rep_opt g r 0 = REps"
| "rep_opt g r (Suc 0) = ROpt g r"
| "rep_opt g r (Suc n) = ROpt g (RCat r (rep_opt g r n))"

definition rep_range :: "nat \<Rightarrow> nat option \<Rightarrow> bool \<Rightarrow> rx \<Rightarrow> rx" where
  "rep_range lo hi g r =
     (case hi of
        None \<Rightarrow>
          (if lo = 0 then RStar g r else mk_cat (replicate (lo - 1) r @ [RPlus g r]))
      | Some h \<Rightarrow>
          (if h = lo then mk_cat (replicate lo r)
           else mk_cat (replicate lo r @ [rep_opt g r (h - lo)])))"

text \<open>
  A repetition operator applies to the last item; it needs one, and it cannot follow another
  repetition operator. A question mark after it flips its greediness.
\<close>

definition apply_rep :: "(bool \<Rightarrow> rx \<Rightarrow> rx) \<Rightarrow> pstate \<Rightarrow> string \<Rightarrow> (pstate \<times> string) option" where
  "apply_rep f st t =
     (let (lazy, u) = (case t of c # t' \<Rightarrow> (if c = CHR ''?'' then (True, t') else (False, t))
                       | [] \<Rightarrow> (False, t))
      in case p_cat st of
          [] \<Rightarrow> None
        | r # rs \<Rightarrow>
            (if p_rep st then None
             else Some (st\<lparr>p_cat := f (lazy = fl_swap (p_flags st)) r # rs, p_rep := True\<rparr>, u)))"

lemma apply_rep_length: "apply_rep f st t = Some (st', r) \<Longrightarrow> length r \<le> length t"
  by (auto simp: apply_rep_def split: list.splits if_splits)

subsection \<open>Groups and flags\<close>

definition open_group :: "nat option \<Rightarrow> pstate \<Rightarrow> pstate" where
  "open_group k st =
     st\<lparr>p_stack := (k, p_flags st, p_cat st, p_alts st) # p_stack st,
        p_cat := [], p_alts := [], p_rep := False,
        p_ncap := (case k of Some n \<Rightarrow> n | None \<Rightarrow> p_ncap st)\<rparr>"

definition close_group :: "pstate \<Rightarrow> pstate option" where
  "close_group st =
     (case p_stack st of
        [] \<Rightarrow> None
      | (k, fl, cat, alts) # stk \<Rightarrow>
          (let r = close_alt st; item = (case k of Some n \<Rightarrow> RGroup n r | None \<Rightarrow> r)
           in Some (st\<lparr>p_flags := fl, p_cat := item # cat, p_alts := alts, p_stack := stk,
                       p_rep := False\<rparr>)))"

definition set_flag :: "char \<Rightarrow> bool \<Rightarrow> rxflags \<Rightarrow> rxflags option" where
  "set_flag c b fl =
     (if c = CHR ''i'' then Some (fl\<lparr>fl_fold := b\<rparr>)
      else if c = CHR ''m'' then Some (fl\<lparr>fl_multi := b\<rparr>)
      else if c = CHR ''s'' then Some (fl\<lparr>fl_dotnl := b\<rparr>)
      else if c = CHR ''U'' then Some (fl\<lparr>fl_swap := b\<rparr>)
      else None)"

text \<open>The flags of \<^verbatim>\<open>(?flags)\<close> and \<^verbatim>\<open>(?flags:re)\<close>, after the question mark.\<close>

fun parse_flags :: "bool \<Rightarrow> bool \<Rightarrow> rxflags \<Rightarrow> pstate \<Rightarrow> string \<Rightarrow> (pstate \<times> string) option" where
  "parse_flags neg some fl st [] = None"
| "parse_flags neg some fl st (c # t) =
     (if c = CHR ''-'' then (if neg then None else parse_flags True False fl st t)
      else if c = CHR '':'' \<or> c = CHR '')'' then
        (if neg \<and> \<not> some then None
         else if c = CHR '':'' then Some ((open_group None st)\<lparr>p_flags := fl\<rparr>, t)
         else Some (st\<lparr>p_flags := fl, p_rep := False\<rparr>, t))
      else case set_flag c (\<not> neg) fl of
          None \<Rightarrow> None
        | Some fl' \<Rightarrow> parse_flags neg True fl' st t)"

lemma parse_flags_shorter [shorter]:
  "parse_flags neg some fl st t = Some (st', r) \<Longrightarrow> length r < length t"
  by (induction neg some fl st t rule: parse_flags.induct)
    (auto split: if_splits option.splits)

definition open_named :: "pstate \<Rightarrow> string \<Rightarrow> (pstate \<times> string) option" where
  "open_named st u =
     (case cut_at CHR ''>'' u of
        None \<Rightarrow> None
      | Some (name, r) \<Rightarrow>
          (if name = [] \<or> \<not> list_all is_word name \<or> name \<in> set (p_names st) then None
           else Some ((open_group (Some (Suc (p_ncap st))) st)\<lparr>p_names := name # p_names st\<rparr>, r)))"

lemma open_named_shorter [shorter]: "open_named st u = Some (st', r) \<Longrightarrow> length r < length u"
  by (auto simp: open_named_def cut_at_Some split: option.splits if_splits)

definition parse_group :: "pstate \<Rightarrow> string \<Rightarrow> (pstate \<times> string) option" where
  "parse_group st t =
     (if prefix ''?P<'' t then open_named st (drop 3 t)
      else if prefix ''?<'' t then open_named st (drop 2 t)
      else if prefix ''?'' t then parse_flags False False (p_flags st) st (drop 1 t)
      else Some (open_group (Some (Suc (p_ncap st))) st, t))"

lemma parse_group_length: "parse_group st t = Some (st', r) \<Longrightarrow> length r \<le> length t"
  by (fastforce simp: parse_group_def split: if_splits
      dest: open_named_shorter parse_flags_shorter)

subsection \<open>Quoted text\<close>

text \<open>The literal part of \<^verbatim>\<open>\Q...\E\<close> and the text after it.\<close>

fun quoted_text :: "string \<Rightarrow> string" where
  "quoted_text [] = []"
| "quoted_text (c # t) = (if prefix [CHR 0x5C, CHR ''E''] (c # t) then [] else c # quoted_text t)"

definition quoted_rest :: "string \<Rightarrow> string" where
  "quoted_rest s = drop (length (quoted_text s) + 2) s"

subsection \<open>The parser\<close>

text \<open>
  One step of \<^verbatim>\<open>parse\<close>: the first character decides; the result holds the parser state and
  the text still to be read.
\<close>

definition parse_step :: "pstate \<Rightarrow> char \<Rightarrow> string \<Rightarrow> (pstate \<times> string) option" where
  "parse_step st c t =
     (if c = CHR ''('' then parse_group st t
      else if c = CHR ''|'' then
        Some (st\<lparr>p_alts := mk_cat (rev (p_cat st)) # p_alts st, p_cat := [], p_rep := False\<rparr>, t)
      else if c = CHR '')'' then map_option (\<lambda>st'. (st', t)) (close_group st)
      else if c = CHR ''^'' then
        Some (push_item (if fl_multi (p_flags st) then RBol else RBeg) st, t)
      else if c = CHR ''$'' then
        Some (push_item (if fl_multi (p_flags st) then REol else REnd) st, t)
      else if c = CHR ''.'' then
        Some (push_item (RSet (if fl_dotnl (p_flags st) then Cls False False [(0, max_code)]
                               else Cls False False [(0, 9), (11, max_code)])) st, t)
      else if c = CHR ''['' then
        map_option (\<lambda>(k, r). (push_item (RSet k) st, r)) (parse_class (fl_fold (p_flags st)) t)
      else if c = CHR ''*'' then apply_rep RStar st t
      else if c = CHR ''+'' then apply_rep RPlus st t
      else if c = CHR ''?'' then apply_rep ROpt st t
      else if c = CHR ''{'' then
        (case repeat_bounds t of
           None \<Rightarrow> Some (push_lit (code c) st, t)
         | Some (lo, hi, r) \<Rightarrow>
             (if lo > 1000 \<or> (\<exists>h \<in> set_option hi. h > 1000 \<or> h < lo) then None
              else apply_rep (rep_range lo hi) st r))
      else if c = CHR 0x5C then
        (case t of
           [] \<Rightarrow> None
         | d # u \<Rightarrow>
             (if d = CHR ''A'' then Some (push_item RBeg st, u)
              else if d = CHR ''z'' then Some (push_item REnd st, u)
              else if d = CHR ''b'' then Some (push_item RWordB st, u)
              else if d = CHR ''B'' then Some (push_item RNoWordB st, u)
              else if d = CHR ''Q'' then
                Some (fold (\<lambda>x. push_lit (code x)) (quoted_text u) st, quoted_rest u)
              else case perl_class d of
                  Some rs \<Rightarrow> Some (push_item (RSet (Cls False False rs)) st, u)
                | None \<Rightarrow> map_option (\<lambda>(n, r). (push_lit n st, r)) (parse_escape t)))
      else Some (push_lit (code c) st, t))"


lemma parse_step_length: "parse_step st c t = Some (st', r) \<Longrightarrow> length r \<le> length t"
  unfolding parse_step_def
  by (auto simp: quoted_rest_def simp del: parse_escape.simps
      split: if_splits list.splits option.splits dest!: parse_group_length apply_rep_length parse_class_shorter parse_escape_shorter
        repeat_bounds_shorter)

function parse_all :: "pstate \<Rightarrow> string \<Rightarrow> pstate option" where
  "parse_all st [] = Some st"
| "parse_all st (c # t) =
     (case parse_step st c t of None \<Rightarrow> None | Some (st', r) \<Rightarrow> parse_all st' r)"
  by pat_completeness auto
termination
  by (relation "measure (\<lambda>(st, s). length s)") (auto dest: parse_step_length)

text \<open>A compiled expression: the tree and the number of capture groups.\<close>

definition regexp_compile :: "string \<Rightarrow> (rx \<times> nat) option" where
  "regexp_compile p =
     (case parse_all init_pstate p of
        None \<Rightarrow> None
      | Some st \<Rightarrow> (if p_stack st = [] then Some (close_alt st, p_ncap st) else None))"

text \<open>\<^verbatim>\<open>regexp.Match\<close>: \<open>None\<close> is the error of a pattern that does not compile.\<close>

definition regexp_match :: "string \<Rightarrow> string \<Rightarrow> bool option" where
  "regexp_match p s = map_option (\<lambda>(r, _). rx_matches r s) (regexp_compile p)"

definition find_string_submatch :: "rx \<times> nat \<Rightarrow> string \<Rightarrow> string list option" where
  "find_string_submatch re s =
     map_option (submatches (snd re) s) (rx_find_from (fst re) s 0)"

definition find_all_string_submatch :: "rx \<times> nat \<Rightarrow> string \<Rightarrow> string list list" where
  "find_all_string_submatch re s =
     map (submatches (snd re) s) (rx_all (length s + 2) (fst re) s 0 None)"

text \<open>\<^verbatim>\<open>regexp.QuoteMeta\<close>.\<close>

definition regexp_specials :: string where
  "regexp_specials = CHR 0x5C # ''.+*?()|[]{}^$''"

fun quote_meta :: "string \<Rightarrow> string" where
  "quote_meta [] = []"
| "quote_meta (c # cs) =
     (if c \<in> set regexp_specials then [CHR 0x5C, c] else [c]) @ quote_meta cs"


text \<open>\<^verbatim>\<open>MustCompile\<close>; the constant patterns of the program are shown to compile.\<close>

definition must_compile :: "string \<Rightarrow> rx \<times> nat" where
  "must_compile p = (case regexp_compile p of Some re \<Rightarrow> re | None \<Rightarrow> (REps, 0))"

section \<open>Laws of the matcher\<close>

text \<open>Matching moves forward and stays within the text.\<close>

definition moves :: "nat \<Rightarrow> mstate \<Rightarrow> mstate \<Rightarrow> bool" where
  "moves N st st' \<longleftrightarrow> (fst st \<le> N \<longrightarrow> fst st \<le> fst st' \<and> fst st' \<le> N)"

lemma moves_refl [simp, intro]: "moves N st st"
  by (simp add: moves_def)

lemma moves_trans [trans]: "moves N st st1 \<Longrightarrow> moves N st1 st2 \<Longrightarrow> moves N st st2"
  unfolding moves_def by (meson le_trans)

lemma loop_iter_moves:
  assumes m: "\<And>st st'. st' \<in> set (m st) \<Longrightarrow> moves N st st'"
  shows "st' \<in> set (loop_iter n g m st) \<Longrightarrow> moves N st st'"
proof (induction n arbitrary: st)
  case (Suc n)
  have "st' = st \<or> (\<exists>st1 \<in> set (m st). st' \<in> set (loop_iter n g m st1))"
    using Suc.prems by (auto simp: Let_def split: if_splits)
  then show ?case
  proof
    assume "\<exists>st1 \<in> set (m st). st' \<in> set (loop_iter n g m st1)"
    then obtain st1 where "st1 \<in> set (m st)" and "st' \<in> set (loop_iter n g m st1)" by blast
    then show ?thesis using m Suc.IH moves_trans by blast
  qed simp
qed simp

lemma loop_plus_moves:
  assumes m: "\<And>st st'. st' \<in> set (m st) \<Longrightarrow> moves N st st'"
    and "st' \<in> set (loop_plus n g m st)"
  shows "moves N st st'"
proof -
  have "\<exists>st1 \<in> set (m st). st' \<in> set (if fst st < fst st1 then loop_iter n g m st1 else [st1])"
    using assms(2) by (simp add: loop_plus_def) blast
  then obtain st1 where st1: "st1 \<in> set (m st)"
    and "st' \<in> set (if fst st < fst st1 then loop_iter n g m st1 else [st1])" by blast
  then have "st' \<in> set (loop_iter n g m st1) \<or> st' = st1" by (auto split: if_splits)
  then have "moves N st1 st'" using loop_iter_moves [of m N, OF m] by blast
  then show ?thesis using m [OF st1] moves_trans by blast
qed

lemma rx_runs_moves: "st' \<in> set (rx_runs r s st) \<Longrightarrow> moves (length s) st st'"
proof (induction r arbitrary: st st')
  case (RCat a b)
  then obtain st1 where "st1 \<in> set (rx_runs a s st)" and "st' \<in> set (rx_runs b s st1)"
    by (auto simp del: split_paired_Ex)
  then show ?case using RCat.IH moves_trans by blast
next
  case (RStar g a)
  then have "st' \<in> set (loop_plus (length s) g (rx_runs a s) st) \<or> st' = st"
    by (auto simp: Let_def split: if_splits)
  then show ?case using loop_plus_moves [of "rx_runs a s"] RStar.IH by blast
next
  case (RPlus g a)
  then have "st' \<in> set (loop_plus (length s) g (rx_runs a s) st)" by simp
  then show ?case using loop_plus_moves [of "rx_runs a s"] RPlus.IH by blast
next
  case (RAlt a b)
  then have "st' \<in> set (rx_runs a s st) \<or> st' \<in> set (rx_runs b s st)" by simp
  then show ?case using RAlt.IH by blast
next
  case (ROpt g a)
  then have "st' \<in> set (rx_runs a s st) \<or> st' = st" by (auto split: if_splits)
  then show ?case using ROpt.IH by blast
next
  case (RGroup g a)
  then obtain q cs where "(q, cs) \<in> set (rx_runs a s st)" and "fst st' = q" by auto
  then show ?case using RGroup.IH by (fastforce simp: moves_def)
qed (auto simp: moves_def split: if_splits)

text \<open>The bound on the iterations is never reached: more iterations change nothing.\<close>

lemma loop_iter_enough:
  assumes m: "\<And>st st'. st' \<in> set (m st) \<Longrightarrow> moves N st st'"
  shows "fst st \<le> N \<Longrightarrow> N - fst st \<le> n \<Longrightarrow> loop_iter (n + k) g m st = loop_iter n g m st"
proof (induction n arbitrary: st)
  case 0
  then have "filter (\<lambda>st'. fst st < fst st') (m st) = []"
    using m [of _ st] by (fastforce simp: filter_empty_conv moves_def)
  then show ?case by (cases k) (simp_all add: Let_def)
next
  case (Suc n)
  have "loop_iter (n + k) g m st' = loop_iter n g m st'"
    if "st' \<in> set (filter (\<lambda>st'. fst st < fst st') (m st))" for st'
  proof (rule Suc.IH)
    show "fst st' \<le> N" using that m [of st' st] Suc.prems(1) by (simp add: moves_def)
    show "N - fst st' \<le> n" using that Suc.prems(2) by simp linarith
  qed
  then have "map (loop_iter (n + k) g m) (filter (\<lambda>st'. fst st < fst st') (m st)) =
      map (loop_iter n g m) (filter (\<lambda>st'. fst st < fst st') (m st))"
    by (rule map_cong [OF refl])
  then show ?case by (simp only: add_Suc loop_iter.simps)
qed

lemma loop_plus_enough:
  assumes "fst st \<le> length s"
  shows "loop_plus (length s + k) g (rx_runs r s) st = loop_plus (length s) g (rx_runs r s) st"
proof -
  have "loop_iter (length s + k) g (rx_runs r s) st' = loop_iter (length s) g (rx_runs r s) st'"
    if "st' \<in> set (rx_runs r s st)" for st'
  proof (rule loop_iter_enough [where N = "length s"])
    show "fst st' \<le> length s" using rx_runs_moves [OF that] assms by (simp add: moves_def)
  qed (auto dest: rx_runs_moves)
  then show ?thesis
    unfolding loop_plus_def by (intro arg_cong [where f = concat] map_cong) auto
qed

section \<open>Literal text\<close>

definition lit_rx :: "char \<Rightarrow> rx" where
  "lit_rx c = RSet (lit_cls False (code c))"

lemma cls_mem_lit [simp]: "cls_mem (lit_cls False (code c)) d \<longleftrightarrow> d = c"
  by (auto simp: lit_cls_def)

lemma rx_runs_mk_cat_Cons [simp]:
  "rx_runs (mk_cat (r # rs)) s st = concat (map (rx_runs (mk_cat rs) s) (rx_runs r s st))"
proof (cases rs)
  case Nil
  have "rx_runs REps s = (\<lambda>st. [st])" by (simp add: fun_eq_iff)
  then show ?thesis using Nil by simp
qed simp

lemma rx_runs_text:
  "p \<le> length s \<Longrightarrow>
   rx_runs (mk_cat (map lit_rx q @ rs)) s (p, cs) =
     (if prefix q (drop p s) then rx_runs (mk_cat rs) s (p + length q, cs) else [])"
proof (induction q arbitrary: p)
  case (Cons c q)
  show ?case
  proof (cases "p < length s")
    case True
    then have "drop p s = s ! p # drop (Suc p) s" by (simp add: Cons_nth_drop_Suc)
    then show ?thesis using Cons.IH [of "Suc p"] True by (auto simp: lit_rx_def)
  qed (simp add: lit_rx_def)
qed simp

text \<open>Parsing quoted text pushes its characters as literals.\<close>

definition push_text :: "string \<Rightarrow> pstate \<Rightarrow> pstate" where
  "push_text q st = fold (\<lambda>c. push_lit (code c)) q st"

lemma parse_step_backslash:
  assumes "d \<notin> set ''AzbBQ''" and "perl_class d = None" and "code d < 128 \<and> \<not> is_alnum d"
  shows "parse_step st CHR 0x5C (d # u) = Some (push_lit (code d) st, u)"
  using assms by (simp add: parse_step_def)

lemma specials_props:
  "\<forall>d \<in> set regexp_specials. d \<notin> set ''AzbBQ'' \<and> perl_class d = None \<and> code d < 128 \<and> \<not> is_alnum d"
  by code_simp

lemma parse_step_special:
  "c \<in> set regexp_specials \<Longrightarrow> parse_step st CHR 0x5C (c # r) = Some (push_lit (code c) st, r)"
  using specials_props by (intro parse_step_backslash) auto

lemma parse_step_plain:
  "c \<notin> set regexp_specials \<Longrightarrow> parse_step st c r = Some (push_lit (code c) st, r)"
  by (auto simp: regexp_specials_def parse_step_def)

lemma parse_all_quote:
  "parse_all st (quote_meta q @ r) = parse_all (push_text q st) r"
  by (induction q arbitrary: st) (auto simp: push_text_def parse_step_special parse_step_plain)

lemma push_text_state:
  "\<not> fl_fold (p_flags st) \<Longrightarrow> q \<noteq> [] \<Longrightarrow>
   push_text q st = st\<lparr>p_cat := rev (map lit_rx q) @ p_cat st, p_rep := False\<rparr>"
proof (induction q arbitrary: st rule: rev_induct)
  case (snoc c q)
  then show ?case
    by (cases "q = []") (auto simp: push_text_def push_lit_def push_item_def lit_rx_def)
qed simp

lemma regexp_compile_quote: "regexp_compile (quote_meta q) = Some (mk_cat (map lit_rx q), 0)"
proof -
  have "parse_all init_pstate (quote_meta q) = Some (push_text q init_pstate)"
    using parse_all_quote [of init_pstate q "[]"] by simp
  moreover have "push_text q init_pstate = init_pstate\<lparr>p_cat := rev (map lit_rx q)\<rparr>"
    using push_text_state [of init_pstate q]
    by (cases "q = []") (auto simp: init_pstate_def perl_flags_def push_text_def)
  ultimately show ?thesis
    by (simp add: regexp_compile_def close_alt_def init_pstate_def rev_map)
qed

lemma regexp_compile_anchored_quote:
  "regexp_compile (''^'' @ quote_meta q @ ''$'') =
     Some (mk_cat (RBeg # map lit_rx q @ [REnd]), 0)"
proof -
  define st1 where "st1 = push_item RBeg init_pstate"
  have "parse_all init_pstate (''^'' @ quote_meta q @ ''$'') =
      Some (push_item REnd (push_text q st1))"
    using parse_all_quote [of st1 q "''$''"] push_text_state [of st1 q]
    by (cases "q = []") (auto simp: st1_def parse_step_def init_pstate_def perl_flags_def
        push_item_def push_text_def)
  moreover have "p_cat (push_text q st1) = rev (map lit_rx q) @ [RBeg]"
    "p_stack (push_text q st1) = []" "p_alts (push_text q st1) = []" "p_ncap (push_text q st1) = 0"
    using push_text_state [of st1 q]
    by (cases "q = []"; simp add: st1_def init_pstate_def perl_flags_def push_item_def push_text_def)+
  ultimately show ?thesis
    by (simp add: regexp_compile_def close_alt_def push_item_def rev_map)
qed

lemma rx_search_None: "rx_search r s ps = None \<longleftrightarrow> (\<forall>p \<in> set ps. rx_runs r s (p, []) = [])"
  by (induction ps) (auto split: list.split)

lemma rx_matches_iff: "rx_matches r s \<longleftrightarrow> (\<exists>p \<le> length s. rx_runs r s (p, []) \<noteq> [])"
proof -
  have "rx_matches r s \<longleftrightarrow> \<not> (\<forall>p \<in> set [0..<Suc (length s)]. rx_runs r s (p, []) = [])"
    unfolding rx_matches_def rx_find_from_def rx_search_None by simp
  then show ?thesis by (auto simp: less_Suc_eq_le simp del: upt_Suc)
qed

text \<open>A quoted pattern matches the texts that contain it; anchored, only the text itself.\<close>

theorem regexp_match_quote: "regexp_match (quote_meta q) s = Some (str_contains s q)"
proof -
  have "rx_runs (mk_cat (map lit_rx q)) s (p, []) \<noteq> [] \<longleftrightarrow> prefix q (drop p s)"
    if "p \<le> length s" for p
    using rx_runs_text [OF that, of q "[]"] by simp
  then have "rx_matches (mk_cat (map lit_rx q)) s \<longleftrightarrow> (\<exists>p \<le> length s. prefix q (drop p s))"
    by (auto simp: rx_matches_iff)
  also have "\<dots> \<longleftrightarrow> str_contains s q"
  proof
    assume "\<exists>p \<le> length s. prefix q (drop p s)"
    then obtain p b where "drop p s = q @ b" by (auto simp: prefix_def)
    then have "s = take p s @ q @ b" by (metis append_take_drop_id)
    then show "str_contains s q" unfolding str_contains_iff by blast
  next
    assume "str_contains s q"
    then obtain a b where "s = a @ q @ b" unfolding str_contains_iff by blast
    then show "\<exists>p \<le> length s. prefix q (drop p s)"
      by (intro exI [of _ "length a"]) simp
  qed
  finally show ?thesis by (simp add: regexp_match_def regexp_compile_quote)
qed

theorem regexp_match_anchored_quote:
  "regexp_match (''^'' @ quote_meta q @ ''$'') s = Some (s = q)"
proof -
  have "rx_runs (mk_cat (RBeg # map lit_rx q @ [REnd])) s (p, []) \<noteq> [] \<longleftrightarrow> p = 0 \<and> s = q"
    if "p \<le> length s" for p
    using rx_runs_text [of 0 s q "[REnd]" "[]"] by (auto simp: prefix_def split: if_splits)
  then have "rx_matches (mk_cat (RBeg # map lit_rx q @ [REnd])) s \<longleftrightarrow> s = q"
    unfolding rx_matches_iff by blast
  then show ?thesis
    by (simp add: regexp_match_def regexp_compile_anchored_quote [simplified] del: mk_cat.simps)
qed

section \<open>Greedy classes\<close>

text \<open>A greedy class takes the longest run of its characters first and gives back one at a time.\<close>

definition class_run :: "cls \<Rightarrow> string \<Rightarrow> nat \<Rightarrow> nat" where
  "class_run k s p = length (takeWhile (cls_mem k) (drop p s))"

lemma class_run_step: "p < length s \<Longrightarrow> cls_mem k (s ! p) \<Longrightarrow> class_run k s p = Suc (class_run k s (Suc p))"
  by (simp add: class_run_def Cons_nth_drop_Suc [symmetric])

lemma class_run_stop: "\<not> (p < length s \<and> cls_mem k (s ! p)) \<Longrightarrow> class_run k s p = 0"
  by (cases "p < length s") (auto simp: class_run_def Cons_nth_drop_Suc [symmetric])

lemma class_run_bound: "class_run k s p \<le> length s - p"
  using length_takeWhile_le [of "cls_mem k" "drop p s"] by (simp add: class_run_def)

lemma class_loop:
  "loop_iter n True (rx_runs (RSet k) s) (p, cs) =
     map (\<lambda>q. (q, cs)) (rev [p..<Suc (p + min n (class_run k s p))])"
proof (induction n arbitrary: p)
  case (Suc n)
  show ?case
  proof (cases "p < length s \<and> cls_mem k (s ! p)")
    case True
    have "[p..<Suc (p + Suc m)] = p # [Suc p..<Suc (Suc p + m)]" for m
      by (simp add: upt_rec del: upt_Suc)
    then show ?thesis
      using True Suc.IH [of "Suc p"] by (simp add: class_run_step del: upt_Suc)
  next
    case False
    then show ?thesis using class_run_stop [OF False] by auto
  qed
qed simp

lemma greedy_class_runs:
  "rx_runs (RPlus True (RSet k)) s (p, cs) =
     map (\<lambda>q. (q, cs)) (rev [Suc p..<Suc (p + class_run k s p)])"
proof (cases "p < length s \<and> cls_mem k (s ! p)")
  case True
  have "min (length s) (class_run k s (Suc p)) = class_run k s (Suc p)"
    using class_run_bound [of k s "Suc p"] by simp
  then show ?thesis
    using True by (simp add: loop_plus_def class_loop class_run_step del: upt_Suc)
next
  case False
  then show ?thesis using class_run_stop [OF False] by (auto simp: loop_plus_def)
qed

lemma class_run_ge: "m \<le> class_run k s p \<longleftrightarrow> p + m \<le> length s \<and> (\<forall>i. p \<le> i \<and> i < p + m \<longrightarrow> cls_mem k (s ! i)) \<or> m = 0"
proof (induction m arbitrary: p)
  case (Suc m)
  show ?case
  proof (cases "p < length s \<and> cls_mem k (s ! p)")
    case True
    then have "Suc m \<le> class_run k s p \<longleftrightarrow> m \<le> class_run k s (Suc p)" by (simp add: class_run_step)
    also have "\<dots> \<longleftrightarrow> Suc p + m \<le> length s \<and> (\<forall>i. Suc p \<le> i \<and> i < Suc p + m \<longrightarrow> cls_mem k (s ! i))"
      unfolding Suc.IH using True by auto
    also have "\<dots> \<longleftrightarrow> p + Suc m \<le> length s \<and> (\<forall>i. p \<le> i \<and> i < p + Suc m \<longrightarrow> cls_mem k (s ! i))"
    proof -
      have "p \<le> i \<longleftrightarrow> i = p \<or> Suc p \<le> i" for i by auto
      then show ?thesis using True by auto
    qed
    finally show ?thesis by simp
  next
    case False
    then show ?thesis using class_run_stop [OF False] by auto
  qed
qed simp

lemma greedy_class_member:
  "st \<in> set (rx_runs (RPlus True (RSet k)) s (p, cs)) \<longleftrightarrow>
     (\<exists>q. st = (q, cs) \<and> p < q \<and> q \<le> length s \<and> (\<forall>i. p \<le> i \<and> i < q \<longrightarrow> cls_mem k (s ! i)))"
proof -
  have "p < q \<and> q \<le> p + class_run k s p \<longleftrightarrow>
      p < q \<and> q \<le> length s \<and> (\<forall>i. p \<le> i \<and> i < q \<longrightarrow> cls_mem k (s ! i))" for q
    using class_run_ge [of "q - p" k s p] by auto
  then show ?thesis
    unfolding greedy_class_runs set_map set_rev set_upt
    by (cases st) (simp add: image_iff Suc_le_eq less_Suc_eq_le, blast)
qed

lemma lit_member:
  "st \<in> set (rx_runs (lit_rx c) s (p, cs)) \<longleftrightarrow> p < length s \<and> s ! p = c \<and> st = (Suc p, cs)"
  by (auto simp: lit_rx_def)

end
