(* ===== verification/Go_Path.thy ===== *)
theory Go_Path
  imports Prelude Go_Regexp
begin

text \<open>
  Go's \<^verbatim>\<open>path.Match\<close>, function by function (\<^verbatim>\<open>Match\<close>, \<^verbatim>\<open>scanChunk\<close>, \<^verbatim>\<open>matchChunk\<close>,
  \<^verbatim>\<open>getEsc\<close>). A result of \<open>None\<close> is the error \<^verbatim>\<open>ErrBadPattern\<close>. Runes are bytes, which is
  exact for ASCII. The lemmas say what the glob patterns that the program builds from
  quoted text match.
\<close>

section \<open>The matcher\<close>

fun get_esc :: "string \<Rightarrow> (nat \<times> string) option" where
  "get_esc [] = None"
| "get_esc (c # t) =
     (if c = CHR ''-'' \<or> c = CHR '']'' then None
      else if c = CHR 0x5C then
        (case t of d # e # u \<Rightarrow> Some (code d, e # u) | _ \<Rightarrow> None)
      else (if t = [] then None else Some (code c, t)))"

lemma get_esc_shorter: "get_esc s = Some (n, r) \<Longrightarrow> length r < length s \<and> r \<noteq> []"
  by (cases s) (auto split: if_splits list.splits)

text \<open>The ranges of a bracket, up to the closing one; at least one range comes first.\<close>

function cls_ranges :: "nat \<Rightarrow> bool \<Rightarrow> bool \<Rightarrow> string \<Rightarrow> (bool \<times> string) option" where
  "cls_ranges r some m s =
     (if some \<and> prefix '']'' s then Some (m, tl s)
      else case get_esc s of
          None \<Rightarrow> None
        | Some (lo, t) \<Rightarrow>
            (if hd t = CHR ''-''
             then case get_esc (tl t) of
                 None \<Rightarrow> None
               | Some (hi, u) \<Rightarrow> cls_ranges r True (m \<or> (lo \<le> r \<and> r \<le> hi)) u
             else cls_ranges r True (m \<or> lo = r) t))"
  by pat_completeness auto
termination
proof (relation "measure (\<lambda>(r, some, m, s). length s)", simp, goal_cases)
  case (1 r some m s lot lo t hiu hi u)
  then show ?case using get_esc_shorter [of s lo t] get_esc_shorter [of "tl t" hi u] by auto
next
  case (2 r some m s lot lo t)
  then show ?case using get_esc_shorter [of s lo t] by simp
qed

declare cls_ranges.simps [simp del]

lemma cls_ranges_shorter: "cls_ranges r some m s = Some (b, u) \<Longrightarrow> length u < length s"
proof (induction r some m s rule: cls_ranges.induct)
  case (1 r some m s)
  show ?case
  proof (cases "some \<and> prefix '']'' s")
    case True
    then show ?thesis using "1.prems" by (subst (asm) cls_ranges.simps) (cases s, auto)
  next
    case False
    then obtain lo t where g: "get_esc s = Some (lo, t)"
      using "1.prems" by (subst (asm) cls_ranges.simps) (auto split: option.splits)
    note sh = get_esc_shorter [OF g]
    show ?thesis
    proof (cases "hd t = CHR ''-''")
      case True
      then obtain hi v where "get_esc (tl t) = Some (hi, v)"
        using False g "1.prems" by (subst (asm) cls_ranges.simps) (auto split: option.splits)
      then show ?thesis
        using False True g sh "1.prems" "1.IH"(1) [of "(lo, t)" lo t "(hi, v)" hi v]
          get_esc_shorter [of "tl t" hi v]
        by (subst (asm) cls_ranges.simps) auto
    next
      case notdash: False
      then show ?thesis
        using False g sh "1.prems" "1.IH"(2) [of "(lo, t)" lo t]
        by (subst (asm) cls_ranges.simps) auto
    qed
  qed
qed

text \<open>
  \<^verbatim>\<open>matchChunk\<close>: the rest of the name and whether the chunk matched. After a failure the
  chunk is only checked for well-formedness.
\<close>

definition strip_caret :: "string \<Rightarrow> bool \<times> string" where
  "strip_caret s = (if prefix ''^'' s then (True, tl s) else (False, s))"

function match_chunk :: "bool \<Rightarrow> string \<Rightarrow> string \<Rightarrow> (string \<times> bool) option" where
  "match_chunk failed [] s = Some (if failed then ([], False) else (s, True))"
| "match_chunk failed (c # cs) s =
     (let stop = (failed \<or> s = []) in
      if c = CHR ''['' then
        (case cls_ranges (if stop then 0 else code (hd s)) False False (snd (strip_caret cs)) of
           None \<Rightarrow> None
         | Some (m, cs') \<Rightarrow>
             match_chunk (stop \<or> m = fst (strip_caret cs)) cs' (if stop then s else tl s))
      else if c = CHR ''?'' then
        match_chunk (stop \<or> hd s = CHR ''/'') cs (if stop then s else tl s)
      else if c = CHR 0x5C then
        (case cs of
           [] \<Rightarrow> None
         | d # ds \<Rightarrow> match_chunk (stop \<or> d \<noteq> hd s) ds (if stop then s else tl s))
      else match_chunk (stop \<or> c \<noteq> hd s) cs (if stop then s else tl s))"
  by pat_completeness auto
termination
  by (relation "measure (\<lambda>(failed, cs, s). length cs)")
    (auto simp: strip_caret_def split: if_splits dest!: cls_ranges_shorter)

text \<open>\<^verbatim>\<open>scanChunk\<close>: leading stars, then the pattern up to the next star outside brackets.\<close>

fun scan_split :: "bool \<Rightarrow> string \<Rightarrow> string \<times> string" where
  "scan_split inr [] = ([], [])"
| "scan_split inr [c] = (if c = CHR ''*'' \<and> \<not> inr then ([], [c]) else ([c], []))"
| "scan_split inr (c # d # u) =
     (if c = CHR 0x5C then (let (a, b) = scan_split inr u in (c # d # a, b))
      else if c = CHR ''*'' \<and> \<not> inr then ([], c # d # u)
      else
        (let inr' = (c = CHR ''['' \<or> c \<noteq> CHR '']'' \<and> inr); (a, b) = scan_split inr' (d # u)
         in (c # a, b)))"

definition scan_chunk :: "string \<Rightarrow> bool \<times> string \<times> string" where
  "scan_chunk p =
     (let q = dropWhile (\<lambda>c. c = CHR ''*'') p in (prefix ''*'' p, scan_split False q))"

lemma scan_split_parts: "fst (scan_split inr s) @ snd (scan_split inr s) = s"
  by (induction inr s rule: scan_split.induct)
    (simp_all add: case_prod_unfold Let_def)

lemma scan_split_append: "scan_split inr s = (a, b) \<Longrightarrow> a @ b = s"
  using scan_split_parts [of inr s] by simp

lemma scan_split_nonempty: "c \<noteq> CHR ''*'' \<Longrightarrow> fst (scan_split False (c # t)) \<noteq> []"
  by (cases t) (auto simp: Let_def split: prod.splits)

lemma scan_chunk_shorter:
  assumes "scan_chunk p = (star, chunk, rest)" and "p \<noteq> []"
  shows "length rest < length p"
proof -
  define q where "q = dropWhile (\<lambda>c. c = CHR ''*'') p"
  have q: "scan_split False q = (chunk, rest)"
    using assms(1) by (simp add: scan_chunk_def q_def Let_def)
  then have len: "length chunk + length rest = length q"
    using scan_split_append by fastforce
  obtain c t where p: "p = c # t" using assms(2) by (cases p) auto
  show ?thesis
  proof (cases "c = CHR ''*''")
    case True
    then have "length q \<le> length t" by (simp add: q_def p length_dropWhile_le)
    then show ?thesis using len p by simp
  next
    case False
    then have "q = p" by (simp add: q_def p)
    then have "chunk \<noteq> []" using scan_split_nonempty [OF False, of t] q p by simp
    then show ?thesis using len \<open>q = p\<close> by (cases chunk) auto
  qed
qed

text \<open>The loop that looks for the chunk further on, never past a slash.\<close>

fun star_search :: "string \<Rightarrow> string \<Rightarrow> string \<Rightarrow> string option option" where
  "star_search chunk rest [] = Some None"
| "star_search chunk rest (c # t) =
     (if c = CHR ''/'' then Some None
      else case match_chunk False chunk t of
          None \<Rightarrow> None
        | Some (u, ok) \<Rightarrow>
            (if ok \<and> \<not> (rest = [] \<and> u \<noteq> []) then Some (Some u) else star_search chunk rest t))"

text \<open>Before a mismatch is reported, the remaining pattern is checked.\<close>

function check_rest :: "string \<Rightarrow> bool option" where
  "check_rest p =
     (if p = [] then Some False
      else case scan_chunk p of
          (star, chunk, rest) \<Rightarrow>
            (case match_chunk False chunk [] of None \<Rightarrow> None | Some _ \<Rightarrow> check_rest rest))"
  by pat_completeness auto
termination
  by (relation "measure length") (auto dest: scan_chunk_shorter [OF sym])

declare check_rest.simps [simp del]

function path_match :: "string \<Rightarrow> string \<Rightarrow> bool option" where
  "path_match p name =
     (if p = [] then Some (name = [])
      else case scan_chunk p of
          (star, chunk, rest) \<Rightarrow>
            (if star \<and> chunk = [] then Some (CHR ''/'' \<notin> set name)
             else case match_chunk False chunk name of
                 None \<Rightarrow> None
               | Some (t, ok) \<Rightarrow>
                   (if ok \<and> (t = [] \<or> rest \<noteq> []) then path_match rest t
                    else if star then
                      (case star_search chunk rest name of
                         None \<Rightarrow> None
                       | Some None \<Rightarrow> check_rest rest
                       | Some (Some u) \<Rightarrow> path_match rest u)
                    else check_rest rest)))"
  by pat_completeness auto
termination
  by (relation "measure (\<lambda>(p, name). length p)") (auto dest: scan_chunk_shorter [OF sym])

declare path_match.simps [simp del]

section \<open>Patterns made of quoted text\<close>

lemma quote_meta_append: "quote_meta (a @ b) = quote_meta a @ quote_meta b"
  by (induction a) auto

lemma quote_meta_eq_Nil [simp]: "quote_meta s = [] \<longleftrightarrow> s = []"
  by (cases s) auto

lemma scan_split_quote: "scan_split False (quote_meta q @ r) =
    (quote_meta q @ fst (scan_split False r), snd (scan_split False r))"
proof (induction q)
  case (Cons c q)
  then show ?case
    by (cases "quote_meta q @ r") (auto simp: regexp_specials_def Let_def case_prod_unfold)
qed simp

lemma match_chunk_failed: "match_chunk True r s = match_chunk True r t"
proof (induction "length r" arbitrary: r s t rule: less_induct)
  case less
  show ?case
  proof (cases r)
    case (Cons c cs)
    show ?thesis
      using less Cons
      by (auto simp: Let_def strip_caret_def split: option.splits list.splits if_splits
          dest!: cls_ranges_shorter)
  qed simp
qed

text \<open>A quoted character is a literal.\<close>

lemma match_chunk_quote_char:
  "match_chunk failed (quote_meta [c] @ r) s =
     match_chunk (failed \<or> s = [] \<or> c \<noteq> hd s) r (if failed \<or> s = [] then s else tl s)"
  by (auto simp: regexp_specials_def Let_def)

lemma quote_meta_Cons: "quote_meta (c # q) = quote_meta [c] @ quote_meta q"
  by simp

lemma match_chunk_failed_quote: "match_chunk True (quote_meta q @ r) s = match_chunk True r s"
proof (induction q arbitrary: s)
  case (Cons c q)
  then show ?case
    by (simp add: quote_meta_Cons [of c q] match_chunk_quote_char del: quote_meta.simps)
qed simp

lemma match_chunk_quote:
  "match_chunk False (quote_meta q @ r) s =
     (if prefix q s then match_chunk False r (drop (length q) s) else match_chunk True r [])"
proof (induction q arbitrary: s)
  case (Cons c q)
  have "match_chunk False (quote_meta (c # q) @ r) s =
      match_chunk (s = [] \<or> c \<noteq> hd s) (quote_meta q @ r) (if s = [] then s else tl s)"
    by (simp only: quote_meta_Cons [of c q] append_assoc match_chunk_quote_char) simp
  then show ?case
    using Cons match_chunk_failed_quote [of q r s] match_chunk_failed [of r s "[]"]
      match_chunk_failed_quote [of q r "tl s"] match_chunk_failed [of r "tl s" "[]"]
    by (cases s; cases "c = hd s") (auto simp del: quote_meta.simps)
qed simp

text \<open>A pattern of quoted text matches exactly that text.\<close>

lemma scan_chunk_quote:
  assumes "q \<noteq> []"
  shows "scan_chunk (quote_meta q @ r) =
    (False, quote_meta q @ fst (scan_split False r), snd (scan_split False r))"
proof -
  obtain c q' where q: "q = c # q'" using assms by (cases q) auto
  have "dropWhile (\<lambda>c. c = CHR ''*'') (quote_meta q @ r) = quote_meta q @ r"
    and "\<not> prefix ''*'' (quote_meta q @ r)"
    unfolding q by (auto simp: regexp_specials_def)
  then show ?thesis by (simp add: scan_chunk_def scan_split_quote)
qed

theorem path_match_quote: "path_match (quote_meta q) s = Some (s = q)"
proof (cases "q = []")
  case True
  then show ?thesis by (simp add: path_match.simps)
next
  case False
  have "match_chunk False (quote_meta q) s =
      Some (if prefix q s then (drop (length q) s, True) else ([], False))"
    using match_chunk_quote [of q "[]" s] by simp
  then show ?thesis
    using False scan_chunk_quote [OF False, of "[]"]
    by (subst path_match.simps) (auto simp: path_match.simps [of "[]"] check_rest.simps prefix_def)
qed

text \<open>Quoted text and \<^verbatim>\<open>/*\<close>: everything directly below that text.\<close>

theorem path_match_quote_slash_star:
  "path_match (quote_meta q @ ''/*'') s =
    Some (\<exists>rest. s = q @ CHR ''/'' # rest \<and> CHR ''/'' \<notin> set rest)"
proof -
  have sc: "scan_chunk (quote_meta q @ ''/*'') = (False, quote_meta q @ ''/'', ''*'')"
    using scan_chunk_quote [of q "''/*''"] by (cases "q = []") (simp_all add: scan_chunk_def)
  have q1: "quote_meta q @ ''/'' = quote_meta (q @ ''/'')"
    by (simp add: quote_meta_append regexp_specials_def)
  have mc: "match_chunk False (quote_meta q @ ''/'') s =
      Some (if prefix (q @ ''/'') s then (drop (Suc (length q)) s, True) else ([], False))"
    unfolding q1 using match_chunk_quote [of "q @ ''/''" "[]" s] by simp
  have star: "path_match ''*'' t = Some (CHR ''/'' \<notin> set t)" for t
    by (subst path_match.simps) (simp add: scan_chunk_def)
  have rest: "check_rest ''*'' = Some False"
    by (simp add: check_rest.simps [of "''*''"] check_rest.simps [of "[]"] scan_chunk_def)
  show ?thesis
    by (subst path_match.simps) (auto simp: sc mc star rest prefix_def)
qed

end
