(* ===== verification/Go_Net.thy ===== *)
theory Go_Net
  imports Prelude "HOL-Library.Word"
begin

text \<open>
  Addresses of Go's package \<^verbatim>\<open>net\<close> (and \<^verbatim>\<open>net/netip\<close>, which parses them): \<^verbatim>\<open>ParseIP\<close>,
  \<^verbatim>\<open>ParseCIDR\<close>, \<^verbatim>\<open>CIDRMask\<close>, \<^verbatim>\<open>IP.To4\<close>, \<^verbatim>\<open>IP.Mask\<close> and \<^verbatim>\<open>IPNet.Contains\<close>. An address is a list
  of 4 or 16 bytes. The laws relate masks to the leading bits of an address.
\<close>

unbundle bit_operations_syntax

type_synonym u8 = "8 word"
type_synonym ip = "u8 list"

record ipnet =
  net_ip :: ip
  net_mask :: "u8 list"

section \<open>Parsing addresses\<close>

definition ipv4_field :: "string \<Rightarrow> u8 option" where
  "ipv4_field f =
     (if f \<noteq> [] \<and> list_all is_digit f \<and> (length f = 1 \<or> hd f \<noteq> CHR ''0'') \<and> dec_value 0 f \<le> 255
      then Some (of_int (dec_value 0 f)) else None)"

definition parse_ipv4 :: "string \<Rightarrow> ip option" where
  "parse_ipv4 s =
     (let fs = split_on CHR ''.'' s in
      if length fs = 4 \<and> list_all (\<lambda>f. ipv4_field f \<noteq> None) fs
      then Some (map (the \<circ> ipv4_field) fs) else None)"

definition is_hex :: "char \<Rightarrow> bool" where
  "is_hex c = (hex_digit c \<noteq> None)"

fun hex_acc :: "nat \<Rightarrow> string \<Rightarrow> nat" where
  "hex_acc v [] = v"
| "hex_acc v (c # t) = hex_acc (16 * v + (case hex_digit c of Some d \<Rightarrow> d | None \<Rightarrow> 0)) t"

text \<open>
  One round of the loop of \<^verbatim>\<open>parseIPv6\<close>: the bytes so far, the position of the ellipsis and
  the text left; the loop ends when 16 bytes are filled or the round says so.
\<close>

datatype v6_next = V6Done ip "nat option" string | V6More ip "nat option" string

definition v6_step :: "ip \<Rightarrow> nat option \<Rightarrow> string \<Rightarrow> v6_next option" where
  "v6_step ip ell s =
     (let ds = takeWhile is_hex s; r = dropWhile is_hex s; v = hex_acc 0 ds;
          ip' = ip @ [of_nat (v div 256), of_nat (v mod 256)] in
      if ds = [] \<or> 4 < length ds then None
      else if prefix ''.'' r then
        (if (ell = None \<and> length ip \<noteq> 12) \<or> 16 < length ip + 4 then None
         else map_option (\<lambda>v4. V6Done (ip @ v4) ell []) (parse_ipv4 s))
      else case r of
          [] \<Rightarrow> Some (V6Done ip' ell [])
        | [c] \<Rightarrow> None
        | c # d # u \<Rightarrow>
            (if c \<noteq> CHR '':'' then None
             else if d = CHR '':'' then
               (if ell \<noteq> None then None
                else if u = [] then Some (V6Done ip' (Some (length ip')) [])
                else Some (V6More ip' (Some (length ip')) u))
             else Some (V6More ip' ell (d # u))))"

lemma v6_step_more: "v6_step ip ell s = Some (V6More ip' ell' t) \<Longrightarrow> length ip' = length ip + 2"
  by (auto simp: v6_step_def Let_def split: if_splits list.splits)

lemma length_parse_ipv4: "parse_ipv4 s = Some a \<Longrightarrow> length a = 4"
  by (auto simp: parse_ipv4_def Let_def split: if_splits)

lemma v6_step_done:
  "v6_step ip ell s = Some (V6Done ip' ell' t) \<Longrightarrow> length ip \<le> 14 \<Longrightarrow> length ip' \<le> 16"
  by (auto simp: v6_step_def Let_def split: if_splits list.splits dest!: length_parse_ipv4)

function v6_loop :: "ip \<Rightarrow> nat option \<Rightarrow> string \<Rightarrow> (ip \<times> nat option \<times> string) option" where
  "v6_loop ip ell s =
     (if 16 \<le> length ip then Some (ip, ell, s)
      else case v6_step ip ell s of
          None \<Rightarrow> None
        | Some (V6Done ip' ell' t) \<Rightarrow> Some (ip', ell', t)
        | Some (V6More ip' ell' t) \<Rightarrow> v6_loop ip' ell' t)"
  by pat_completeness auto
termination
  by (relation "measure (\<lambda>(ip, ell, s). 16 - length ip)") (auto dest: v6_step_more)

declare v6_loop.simps [simp del]

definition v6_finish :: "ip \<Rightarrow> nat option \<Rightarrow> string \<Rightarrow> ip option" where
  "v6_finish ip ell s =
     (if s \<noteq> [] then None
      else if length ip < 16 then
        (case ell of
           None \<Rightarrow> None
         | Some e \<Rightarrow> Some (take e ip @ replicate (16 - length ip) 0 @ drop e ip))
      else if ell \<noteq> None then None else Some ip)"

definition parse_ipv6 :: "string \<Rightarrow> ip option" where
  "parse_ipv6 s =
     (if s = ''::'' then Some (replicate 16 0)
      else case (if prefix ''::'' s then v6_loop [] (Some 0) (drop 2 s) else v6_loop [] None s) of
          None \<Rightarrow> None
        | Some (ip, ell, t) \<Rightarrow> v6_finish ip ell t)"

text \<open>
  \<^verbatim>\<open>netip.ParseAddr\<close>, for addresses without a zone (\<^verbatim>\<open>ParseIP\<close> and \<^verbatim>\<open>ParseCIDR\<close> refuse zones): the
  first dot or colon decides the family. The result has 4 or 16 bytes.
\<close>

definition parse_addr :: "string \<Rightarrow> ip option" where
  "parse_addr s =
     (if CHR ''%'' \<in> set s then None
      else case find (\<lambda>c. c = CHR ''.'' \<or> c = CHR '':'') s of
          None \<Rightarrow> None
        | Some c \<Rightarrow> (if c = CHR ''.'' then parse_ipv4 s else parse_ipv6 s))"

definition v4_in_v6_prefix :: ip where
  "v4_in_v6_prefix = replicate 10 0 @ [255, 255]"

definition as16 :: "ip \<Rightarrow> ip" where
  "as16 a = (if length a = 4 then v4_in_v6_prefix @ a else a)"

definition parse_ip :: "string \<Rightarrow> ip option" where
  "parse_ip s = map_option as16 (parse_addr s)"

definition to4 :: "ip \<Rightarrow> ip option" where
  "to4 a =
     (if length a = 4 then Some a
      else if length a = 16 \<and> take 12 a = v4_in_v6_prefix then Some (drop 12 a)
      else None)"

section \<open>Masks and networks\<close>

fun mask_bytes :: "nat \<Rightarrow> nat \<Rightarrow> u8 list" where
  "mask_bytes n 0 = []"
| "mask_bytes n (Suc k) =
     (if 8 \<le> n then 255 # mask_bytes (n - 8) k else NOT (drop_bit n 255) # mask_bytes 0 k)"

text \<open>\<^verbatim>\<open>CIDRMask(ones, bits)\<close> for 32 or 128 bits.\<close>

definition cidr_mask :: "nat \<Rightarrow> nat \<Rightarrow> u8 list" where
  "cidr_mask ones bits = (if ones \<le> bits then mask_bytes ones (bits div 8) else [])"

definition and_bytes :: "u8 list \<Rightarrow> u8 list \<Rightarrow> u8 list" where
  "and_bytes a m = map2 (AND) a m"

definition ip_mask :: "ip \<Rightarrow> u8 list \<Rightarrow> ip option" where
  "ip_mask a m =
     (let m' = (if length m = 16 \<and> length a = 4 \<and> take 12 m = replicate 12 255 then drop 12 m else m);
          a' = (if length m' = 4 \<and> length a = 16 \<and> take 12 a = v4_in_v6_prefix then drop 12 a else a)
      in if length a' = length m' then Some (and_bytes a' m') else None)"

text \<open>The decimal prefix length after the slash: digits only, below \<^verbatim>\<open>0xFFFFFF\<close>.\<close>

definition prefix_len :: "string \<Rightarrow> nat option" where
  "prefix_len s =
     (if s \<noteq> [] \<and> list_all is_digit s \<and> dec_value 0 s < 0xFFFFFF then Some (nat (dec_value 0 s)) else None)"

definition parse_cidr :: "string \<Rightarrow> ipnet option" where
  "parse_cidr s =
     (case cut_at CHR ''/'' s of
        None \<Rightarrow> None
      | Some (addr, msk) \<Rightarrow>
          (case (parse_addr addr, prefix_len msk) of
             (Some a, Some n) \<Rightarrow>
               (if n \<le> 8 * length a then
                  (let m = cidr_mask n (8 * length a)
                   in map_option (\<lambda>masked. \<lparr>net_ip = masked, net_mask = m\<rparr>) (ip_mask (as16 a) m))
                else None)
           | _ \<Rightarrow> None))"

definition network_number_and_mask :: "ipnet \<Rightarrow> ip \<times> u8 list" where
  "network_number_and_mask n =
     (let ip = (case to4 (net_ip n) of Some a \<Rightarrow> a | None \<Rightarrow> net_ip n) in
      if length ip \<noteq> 4 \<and> length ip \<noteq> 16 then ([], [])
      else if length (net_mask n) = 4 then (if length ip = 4 then (ip, net_mask n) else ([], []))
      else if length (net_mask n) = 16 then
        (ip, if length ip = 4 then drop 12 (net_mask n) else net_mask n)
      else ([], []))"

definition ipnet_contains :: "ipnet \<Rightarrow> ip \<Rightarrow> bool" where
  "ipnet_contains n ip =
     (let (nn, m) = network_number_and_mask n;
          a = (case to4 ip of Some x \<Rightarrow> x | None \<Rightarrow> ip)
      in length a = length nn \<and> and_bytes nn m = and_bytes a m)"

section \<open>Laws\<close>

lemma length_mask_bytes [simp]: "length (mask_bytes n k) = k"
  by (induction n k rule: mask_bytes.induct) auto

lemma length_cidr_mask: "n \<le> bits \<Longrightarrow> length (cidr_mask n bits) = bits div 8"
  by (simp add: cidr_mask_def)

lemma length_v4_in_v6_prefix [simp]: "length v4_in_v6_prefix = 12"
  by (simp add: v4_in_v6_prefix_def)

lemma v6_loop_length:
  "v6_loop ip ell s = Some (ip', ell', t) \<Longrightarrow> length ip \<le> 16 \<Longrightarrow> even (length ip) \<Longrightarrow>
   length ip' \<le> 16"
proof (induction ip ell s rule: v6_loop.induct)
  case (1 ip ell s)
  show ?case
  proof (cases "16 \<le> length ip")
    case True
    then show ?thesis using "1.prems" by (simp add: v6_loop.simps [of ip])
  next
    case False
    then have len: "length ip \<le> 14" using "1.prems"(3) by presburger
    from False "1.prems"(1) obtain nx where nx: "v6_step ip ell s = Some nx"
      by (auto simp: v6_loop.simps [of ip] split: option.splits)
    show ?thesis
    proof (cases nx)
      case (V6Done ip1 ell1 t1)
      then show ?thesis
        using False nx "1.prems"(1) v6_step_done [of ip ell s ip1 ell1 t1] len
        by (simp add: v6_loop.simps [of ip])
    next
      case (V6More ip1 ell1 t1)
      then show ?thesis
        using False nx "1.prems" "1.IH" [OF False nx] v6_step_more [of ip ell s ip1 ell1 t1] len
        by (simp add: v6_loop.simps [of ip])
    qed
  qed
qed

lemma length_parse_ipv6: "parse_ipv6 s = Some a \<Longrightarrow> length a = 16"
  by (auto simp: parse_ipv6_def v6_finish_def split: if_splits option.splits dest!: v6_loop_length)

lemma length_parse_addr: "parse_addr s = Some a \<Longrightarrow> length a = 4 \<or> length a = 16"
  by (auto simp: parse_addr_def split: if_splits option.splits
      dest!: length_parse_ipv4 length_parse_ipv6)

lemma length_as16: "length a = 4 \<or> length a = 16 \<Longrightarrow> length (as16 a) = 16"
  by (auto simp: as16_def)

lemma length_parse_ip: "parse_ip s = Some a \<Longrightarrow> length a = 16"
  by (auto simp: parse_ip_def dest!: length_parse_addr intro: length_as16)

lemma to4_length: "to4 a = Some x \<Longrightarrow> length x = 4"
  by (auto simp: to4_def split: if_splits)

lemma to4_as16 [simp]: "length a = 4 \<Longrightarrow> to4 (as16 a) = Some a"
  by (simp add: to4_def as16_def)

text \<open>The canonical form of an address: 4 bytes when it is an IPv4 address.\<close>

definition canon :: "ip \<Rightarrow> ip" where
  "canon a = (case to4 a of Some x \<Rightarrow> x | None \<Rightarrow> a)"

lemma canon_as16: "length a = 4 \<Longrightarrow> canon (as16 a) = a"
  by (simp add: canon_def)

lemma canon_inj: "length a = 16 \<Longrightarrow> length b = 16 \<Longrightarrow> canon a = canon b \<longleftrightarrow> a = b"
proof
  assume a: "length a = 16" "length b = 16" and eq: "canon a = canon b"
  show "a = b"
  proof (cases "take 12 a = v4_in_v6_prefix \<and> take 12 b = v4_in_v6_prefix")
    case True
    then have "take 12 a = take 12 b" and "drop 12 a = drop 12 b"
      using a eq by (auto simp: canon_def to4_def)
    then show ?thesis by (metis append_take_drop_id)
  next
    case False
    have "length (drop 12 x) = 4" if "length x = 16" for x :: ip using that by simp
    then show ?thesis using False a eq by (auto simp: canon_def to4_def split: if_splits)
  qed
qed simp

text \<open>The bits of an address, most significant first; a mask keeps the leading ones.\<close>

definition byte_bits :: "u8 \<Rightarrow> bool list" where
  "byte_bits b = map (bit b) [7, 6, 5, 4, 3, 2, 1, 0]"

definition ip_bits :: "ip \<Rightarrow> bool list" where
  "ip_bits a = concat (map byte_bits a)"

lemma length_byte_bits [simp]: "length (byte_bits b) = 8"
  by (simp add: byte_bits_def)

lemma byte_bits_inj [simp]: "byte_bits a = byte_bits b \<longleftrightarrow> a = b"
proof
  assume eq: "byte_bits a = byte_bits b"
  show "a = b"
  proof (rule bit_word_eqI)
    fix n assume "n < LENGTH(8)"
    then have "n \<in> {0, 1, 2, 3, 4, 5, 6, 7}" by auto
    then show "bit a n = bit b n" using eq by (auto simp: byte_bits_def)
  qed
qed simp

lemma below_8: "i < 8 \<longleftrightarrow> i \<in> {0, 1, 2, 3, 4, 5, 6, 7 :: nat}"
  by auto

lemma bit_full_byte: "bit (255 :: u8) i \<longleftrightarrow> i < 8"
proof
  assume "bit (255 :: u8) i"
  then show "i < 8" using bit_imp_le_length [of "255 :: u8" i] by simp
next
  assume "i < 8"
  then show "bit (255 :: u8) i" unfolding below_8 by auto
qed

lemma byte_eq_iff: "(x :: u8) = y \<longleftrightarrow> (\<forall>i < 8. bit x i = bit y i)"
  using bit_word_eqI [of x y] by auto

lemma bit_masked_byte:
  "bit (a AND NOT (drop_bit n 255)) i \<longleftrightarrow> bit a i \<and> i < 8 \<and> 8 \<le> i + n" for a :: u8
  using bit_imp_le_length [of a i]
  by (simp only: bit_and_iff bit_not_iff bit_drop_bit_eq o_apply bit_full_byte possible_bit_word) auto

lemma leading_indices:
  "n < 8 \<Longrightarrow> set (take n [7, 6, 5, 4, 3, 2, 1, 0]) = {i :: nat. i < 8 \<and> 8 \<le> i + n}"
  unfolding below_8 by (elim insertE emptyE; hypsubst; auto simp: numeral_eq_Suc)

lemma byte_mask_iff:
  assumes "n < 8"
  shows "a AND NOT (drop_bit n 255) = b AND NOT (drop_bit n 255) \<longleftrightarrow>
    take n (byte_bits a) = take n (byte_bits b)"
proof -
  have "take n (byte_bits a) = take n (byte_bits b) \<longleftrightarrow>
      (\<forall>i \<in> set (take n [7, 6, 5, 4, 3, 2, 1, 0]). bit a i = bit b i)"
    by (simp only: byte_bits_def take_map map_eq_conv)
  then show ?thesis
    unfolding byte_eq_iff bit_masked_byte leading_indices [OF assms] by blast
qed

lemma and_full_byte: "x AND 255 = x" for x :: u8
  by (rule bit_word_eqI) (simp only: bit_and_iff bit_full_byte len_bit0 len_num1, simp)

lemma and_bytes_mask_iff:
  "length a = k \<Longrightarrow> length b = k \<Longrightarrow>
   and_bytes a (mask_bytes n k) = and_bytes b (mask_bytes n k) \<longleftrightarrow>
   take n (ip_bits a) = take n (ip_bits b)"
proof (induction n k arbitrary: a b rule: mask_bytes.induct)
  case (2 n k)
  obtain x a' y b' where ab: "a = x # a'" "b = y # b'" "length a' = k" "length b' = k"
    using "2.prems" by (metis length_Suc_conv)
  show ?case
  proof (cases "8 \<le> n")
    case True
    show ?thesis
      using True "2.IH"(1) [OF True ab(3,4)] ab
      by (simp add: and_bytes_def ip_bits_def and_full_byte)
  next
    case False
    then have "take n (ip_bits a) = take n (byte_bits x)" "take n (ip_bits b) = take n (byte_bits y)"
      by (simp_all add: ip_bits_def ab)
    moreover have "and_bytes a' (mask_bytes 0 k) = and_bytes b' (mask_bytes 0 k)"
      using "2.IH"(2) [OF False ab(3,4)] by simp
    ultimately show ?thesis
      using False byte_mask_iff [of n x y] ab by (simp add: and_bytes_def)
  qed
qed (simp add: and_bytes_def ip_bits_def)

lemma and_bytes_idem: "and_bytes (and_bytes a m) m = and_bytes a m"
  by (induction a m rule: list_induct2') (auto simp: and_bytes_def and.assoc)

lemma and_bytes_full:
  assumes "length a = length b" and "length b = k"
  shows "and_bytes a (mask_bytes (8 * k) k) = and_bytes b (mask_bytes (8 * k) k) \<longleftrightarrow> a = b"
proof -
  have len: "length (ip_bits x) = 8 * length x" for x
    by (induction x) (auto simp: ip_bits_def)
  have "ip_bits a = ip_bits b \<longleftrightarrow> a = b" using assms(1)
    by (induction a b rule: list_induct2) (auto simp: ip_bits_def)
  then show ?thesis using assms and_bytes_mask_iff [of a k b "8 * k"] len by simp
qed

text \<open>A network with a mask of \<open>n\<close> ones contains the addresses that agree on the first \<open>n\<close> bits.\<close>

lemma contains_v4:
  assumes "length a = 4" and "n \<le> 32"
  shows "ipnet_contains \<lparr>net_ip = and_bytes a (mask_bytes n 4), net_mask = mask_bytes n 4\<rparr> ip \<longleftrightarrow>
    length (canon ip) = 4 \<and> take n (ip_bits (canon ip)) = take n (ip_bits a)"
proof -
  have len: "length (and_bytes a (mask_bytes n 4)) = 4" using assms by (simp add: and_bytes_def)
  then show ?thesis
    using and_bytes_mask_iff [of a 4 "canon ip" n] assms(1)
    by (auto simp: ipnet_contains_def network_number_and_mask_def to4_def [of "and_bytes _ _"]
        canon_def [symmetric] and_bytes_idem Let_def)
qed

lemma parse_cidr_v4:
  assumes "parse_cidr s = Some net" and "cut_at CHR ''/'' s = Some (addr, msk)"
    and "parse_addr addr = Some a" and "prefix_len msk = Some n" and "length a = 4"
  shows "ipnet_contains net ip \<longleftrightarrow>
    length (canon ip) = 4 \<and> take n (ip_bits (canon ip)) = take n (ip_bits a)"
proof -
  have n: "n \<le> 32" using assms by (auto simp: parse_cidr_def split: if_splits)
  then have "net = \<lparr>net_ip = and_bytes a (mask_bytes n 4), net_mask = mask_bytes n 4\<rparr>"
    using assms by (auto simp: parse_cidr_def cidr_mask_def ip_mask_def as16_def Let_def)
  then show ?thesis using contains_v4 [OF assms(5) n] by simp
qed

section \<open>Slashes and single addresses\<close>

text \<open>An address holds no slash, so the notation of a network is never that of an address.\<close>

abbreviation slash :: char where
  "slash \<equiv> CHR ''/''"

lemma digit_not_slash: "is_digit c \<Longrightarrow> c \<noteq> slash"
  by (auto simp: is_digit_def)

lemma hex_not_slash: "is_hex c \<Longrightarrow> c \<noteq> slash"
  by (auto simp: is_hex_def hex_digit_def is_digit_def)

lemma split_on_member: "c \<in> set s \<Longrightarrow> c \<noteq> d \<Longrightarrow> \<exists>f \<in> set (split_on d s). c \<in> set f"
proof (induction s)
  case (Cons x s)
  then show ?case by (cases "split_on d s") (auto split: if_splits)
qed simp

lemma parse_ipv4_slash:
  assumes "parse_ipv4 s = Some a"
  shows "slash \<notin> set s"
proof
  assume "slash \<in> set s"
  then obtain f where f: "f \<in> set (split_on CHR ''.'' s)" "slash \<in> set f"
    using split_on_member [of slash s "CHR ''.''"] by auto
  have "list_all (\<lambda>f. ipv4_field f \<noteq> None) (split_on CHR ''.'' s)"
    using assms by (auto simp: parse_ipv4_def Let_def split: if_splits)
  then have "list_all is_digit f"
    using f(1) by (auto simp: list_all_iff ipv4_field_def split: if_splits)
  then show False using f(2) digit_not_slash by (auto simp: list_all_iff)
qed

lemma hex_split_slash: "slash \<in> set s \<longleftrightarrow> slash \<in> set (dropWhile is_hex s)"
  by (induction s) (auto dest: hex_not_slash)

lemma v6_step_slash:
  "v6_step ip ell s = Some (V6Done ip' ell' t) \<Longrightarrow> slash \<notin> set s"
  "v6_step ip ell s = Some (V6More ip' ell' t) \<Longrightarrow> slash \<in> set s \<longleftrightarrow> slash \<in> set t"
proof -
  obtain r where r: "dropWhile is_hex s = r" by blast
  have sl: "slash \<in> set s \<longleftrightarrow> slash \<in> set r" using hex_split_slash [of s] r by simp
  note step = v6_step_def [of ip ell s] Let_def r
  show "slash \<notin> set s" if "v6_step ip ell s = Some (V6Done ip' ell' t)"
  proof (cases "prefix ''.'' r")
    case True
    then show ?thesis
      using that by (auto simp: step dest: parse_ipv4_slash split: if_splits)
  next
    case False
    then show ?thesis
      using that unfolding sl by (simp add: step split: if_splits list.splits)
  qed
  show "slash \<in> set s \<longleftrightarrow> slash \<in> set t" if "v6_step ip ell s = Some (V6More ip' ell' t)"
    using that unfolding sl by (auto simp: step split: if_splits list.splits)
qed

lemma v6_loop_slash:
  "v6_loop ip ell s = Some (ip', ell', t) \<Longrightarrow> slash \<in> set s \<Longrightarrow> slash \<in> set t"
proof (induction ip ell s rule: v6_loop.induct)
  case (1 ip ell s)
  then show ?case
    by (simp add: v6_loop.simps [of ip] split: if_splits option.splits v6_next.splits)
      (use v6_step_slash in blast)+
qed

lemma parse_ipv6_slash:
  assumes "parse_ipv6 s = Some a"
  shows "slash \<notin> set s"
proof
  assume sl: "slash \<in> set s"
  then have "slash \<in> set (drop 2 s)" if "prefix ''::'' s"
    using that by (auto simp: prefix_def)
  then have "(case (if prefix ''::'' s then v6_loop [] (Some 0) (drop 2 s) else v6_loop [] None s) of
      None \<Rightarrow> None | Some (ip, ell, t) \<Rightarrow> v6_finish ip ell t) = None"
    using sl v6_loop_slash by (fastforce simp: v6_finish_def split: option.split)
  moreover have "s \<noteq> ''::''" using sl by auto
  ultimately show False using assms by (simp add: parse_ipv6_def)
qed

lemma parse_ip_slash: "slash \<in> set s \<Longrightarrow> parse_ip s = None"
  using parse_ipv4_slash [of s] parse_ipv6_slash [of s]
  by (cases "parse_ipv4 s"; cases "parse_ipv6 s") (auto simp: parse_ip_def parse_addr_def split: option.split)

lemma cut_at_slash: "cut_at c s = Some p \<Longrightarrow> c \<in> set s"
  using cut_at_None by (metis option.distinct(1))

lemma canon_length: "length a = 16 \<Longrightarrow> length (canon a) = 4 \<or> canon a = a"
  by (auto simp: canon_def to4_def)

lemma parse_cidr_ok:
  assumes "cut_at CHR ''/'' s = Some (addr, msk)" "parse_addr addr = Some a"
    and "prefix_len msk = Some n" "length a = 4" "n \<le> 32"
  shows "parse_cidr s = Some \<lparr>net_ip = and_bytes a (mask_bytes n 4), net_mask = mask_bytes n 4\<rparr>"
  using assms by (simp add: parse_cidr_def cidr_mask_def ip_mask_def as16_def Let_def)

text \<open>A single address contains itself only, in either of its forms.\<close>

lemma contains_single:
  assumes "length a = 16"
  shows "ipnet_contains \<lparr>net_ip = a, net_mask = (if to4 a \<noteq> None then cidr_mask 32 32 else cidr_mask 128 128)\<rparr> ip
    \<longleftrightarrow> canon ip = canon a"
proof (cases "to4 a")
  case None
  then have "network_number_and_mask \<lparr>net_ip = a, net_mask = cidr_mask 128 128\<rparr> = (a, mask_bytes (8 * 16) 16)"
    using assms by (simp add: network_number_and_mask_def cidr_mask_def)
  then show ?thesis
    using None assms and_bytes_full [of a "canon ip" 16]
    by (auto simp: ipnet_contains_def canon_def [symmetric] canon_def [of a] Let_def)
next
  case (Some x)
  then have "network_number_and_mask \<lparr>net_ip = a, net_mask = cidr_mask 32 32\<rparr> = (x, mask_bytes (8 * 4) 4)"
    using to4_length [OF Some] by (simp add: network_number_and_mask_def cidr_mask_def)
  then show ?thesis
    using Some to4_length [OF Some] and_bytes_full [of x "canon ip" 4]
    by (auto simp: ipnet_contains_def canon_def [symmetric] canon_def [of a] Let_def)
qed

end
