(* ===== verification/Go_Encoding.thy ===== *)
theory Go_Encoding
  imports Prelude
begin

text \<open>
  Encodings of Go's standard library: \<^verbatim>\<open>encoding/base64\<close> (both alphabets, with padding),
  \<^verbatim>\<open>url.ParseQuery\<close> with \<^verbatim>\<open>url.QueryUnescape\<close>, hexadecimal digits and decimal numbers, and
  the strings of \<^verbatim>\<open>encoding/json\<close> for ASCII text.
\<close>

section \<open>Base64\<close>

text \<open>An alphabet is given by its characters for 62 and 63.\<close>

type_synonym b64_alphabet = "char \<times> char"

definition StdEncoding :: b64_alphabet where "StdEncoding = (CHR ''+'', CHR ''/'')"
definition URLEncoding :: b64_alphabet where "URLEncoding = (CHR ''-'', CHR ''_'')"

definition b64_char :: "b64_alphabet \<Rightarrow> nat \<Rightarrow> char" where
  "b64_char al i =
     (if i < 26 then char_of (65 + i) else if i < 52 then char_of (97 + (i - 26))
      else if i < 62 then char_of (48 + (i - 52)) else if i = 62 then fst al else snd al)"

definition b64_val :: "b64_alphabet \<Rightarrow> char \<Rightarrow> nat option" where
  "b64_val al c =
     (if is_upper c then Some (code c - 65) else if is_lower c then Some (code c - 71)
      else if is_digit c then Some (code c + 4)
      else if c = fst al then Some 62 else if c = snd al then Some 63 else None)"

fun b64_encode :: "b64_alphabet \<Rightarrow> string \<Rightarrow> string" where
  "b64_encode al [] = []"
| "b64_encode al [a] =
     [b64_char al (code a div 4), b64_char al (code a mod 4 * 16), CHR ''='', CHR ''='']"
| "b64_encode al [a, b] =
     [b64_char al (code a div 4), b64_char al (code a mod 4 * 16 + code b div 16),
      b64_char al (code b mod 16 * 4), CHR ''='']"
| "b64_encode al (a # b # c # r) =
     [b64_char al (code a div 4), b64_char al (code a mod 4 * 16 + code b div 16),
      b64_char al (code b mod 16 * 4 + code c div 64), b64_char al (code c mod 64)] @ b64_encode al r"

text \<open>The decoder works by groups of four characters; bits left over in the last are dropped.\<close>

definition b64_2 :: "nat \<Rightarrow> nat \<Rightarrow> string" where
  "b64_2 p q = [char_of (p * 4 + q div 16)]"

definition b64_3 :: "nat \<Rightarrow> nat \<Rightarrow> nat \<Rightarrow> string" where
  "b64_3 p q r = b64_2 p q @ [char_of (q mod 16 * 16 + r div 4)]"

definition b64_4 :: "nat \<Rightarrow> nat \<Rightarrow> nat \<Rightarrow> nat \<Rightarrow> string" where
  "b64_4 p q r s = b64_3 p q r @ [char_of (r mod 4 * 64 + s)]"

fun b64_groups :: "b64_alphabet \<Rightarrow> string \<Rightarrow> string option" where
  "b64_groups al [] = Some []"
| "b64_groups al (a # b # c # d # r) =
     (case (b64_val al a, b64_val al b) of
        (Some p, Some q) \<Rightarrow>
          (if c = CHR ''='' \<and> d = CHR ''='' \<and> r = [] then Some (b64_2 p q)
           else case b64_val al c of
               None \<Rightarrow> None
             | Some u \<Rightarrow>
                 (if d = CHR ''='' \<and> r = [] then Some (b64_3 p q u)
                  else case b64_val al d of
                      None \<Rightarrow> None
                    | Some v \<Rightarrow> map_option ((@) (b64_4 p q u v)) (b64_groups al r)))
      | _ \<Rightarrow> None)"
| "b64_groups al _ = None"

definition is_newline :: "char \<Rightarrow> bool" where
  "is_newline c = (code c = 10 \<or> code c = 13)"

definition b64_decode :: "b64_alphabet \<Rightarrow> string \<Rightarrow> string option" where
  "b64_decode al s = b64_groups al (filter (\<lambda>c. \<not> is_newline c) s)"

definition b64_alphabets :: "b64_alphabet set" where
  "b64_alphabets = {StdEncoding, URLEncoding}"

lemma code_less [simp]: "code c < 256"
  by (cases c) (simp add: of_char_Char)

lemma code_parts [simp]: "code c div 16 < 16" "code c div 64 < 4"
  using code_less [of c] by linarith+

lemma code_char_of [simp]: "n < 256 \<Longrightarrow> code (char_of n) = n"
  by simp

lemma b64_val_char [simp]:
  assumes "al \<in> b64_alphabets" "i < 64"
  shows "b64_val al (b64_char al i) = Some i"
proof -
  consider "i < 26" | "26 \<le> i" "i < 52" | "52 \<le> i" "i < 62" | "i = 62" | "i = 63"
    using assms(2) by linarith
  then show ?thesis
  proof cases
    case 4
    then show ?thesis
      using assms(1) by (auto simp: b64_alphabets_def b64_val_def b64_char_def StdEncoding_def
          URLEncoding_def is_upper_def is_lower_def is_digit_def)
  next
    case 5
    then show ?thesis
      using assms(1) by (auto simp: b64_alphabets_def b64_val_def b64_char_def StdEncoding_def
          URLEncoding_def is_upper_def is_lower_def is_digit_def)
  qed (auto simp: b64_val_def b64_char_def is_upper_def is_lower_def is_digit_def)
qed

lemma b64_bounds [simp]:
  "code a div 4 < 64" "code a mod 4 * 16 < 64" "code a mod 4 * 16 + code b div 16 < 64"
  "code b mod 16 * 4 < 64" "code b mod 16 * 4 + code c div 64 < 64" "code c mod 64 < 64"
  using code_less [of a] code_less [of b] code_less [of c] by linarith+

lemma b64_no_pad [simp]:
  "al \<in> b64_alphabets \<Longrightarrow> i < 64 \<Longrightarrow> b64_char al i \<noteq> CHR ''=''"
  using b64_val_char [of al i] by (auto simp: b64_alphabets_def b64_val_def StdEncoding_def
      URLEncoding_def is_upper_def is_lower_def is_digit_def)

lemma char_of_code_eq [simp]: "char_of (code c) = c"
  by simp

lemma b64_2_code: "b64_2 (code a div 4) (code a mod 4 * 16 + code b div 16) = [a]"
proof -
  have "code a div 4 * 4 + (code a mod 4 * 16 + code b div 16) div 16 = code a"
    using code_less [of b] by (simp add: div_mult_mod_eq)
  then show ?thesis by (simp add: b64_2_def)
qed

lemma b64_2_last: "b64_2 (code a div 4) (code a mod 4 * 16) = [a]"
  by (simp add: b64_2_def div_mult_mod_eq)

lemma b64_3_code:
  "b64_3 (code a div 4) (code a mod 4 * 16 + code b div 16) (code b mod 16 * 4 + code c div 64) = [a, b]"
proof -
  have "(code a mod 4 * 16 + code b div 16) mod 16 * 16 + (code b mod 16 * 4 + code c div 64) div 4 = code b"
    using code_less [of b] code_less [of c] by (simp add: div_mult_mod_eq)
  then show ?thesis by (simp add: b64_3_def b64_2_code)
qed

lemma b64_3_last:
  "b64_3 (code a div 4) (code a mod 4 * 16 + code b div 16) (code b mod 16 * 4) = [a, b]"
proof -
  have "(code a mod 4 * 16 + code b div 16) mod 16 * 16 + code b mod 16 * 4 div 4 = code b"
    using code_less [of b] by (simp add: div_mult_mod_eq)
  then show ?thesis by (simp add: b64_3_def b64_2_code)
qed

lemma b64_4_code:
  "b64_4 (code a div 4) (code a mod 4 * 16 + code b div 16) (code b mod 16 * 4 + code c div 64)
     (code c mod 64) = [a, b, c]"
proof -
  have "(code b mod 16 * 4 + code c div 64) mod 4 * 64 + code c mod 64 = code c"
    using code_less [of c] by (simp add: div_mult_mod_eq)
  then show ?thesis by (simp add: b64_4_def b64_3_code)
qed

lemma b64_groups_encode: "al \<in> b64_alphabets \<Longrightarrow> b64_groups al (b64_encode al s) = Some s"
  by (induction al s rule: b64_encode.induct)
    (simp_all add: b64_2_last b64_3_last b64_4_code)

text \<open>The text of an encoding: alphabet characters, then padding.\<close>

lemma less_3: "1 < (3 :: nat)" "2 < (3 :: nat)"
  by simp_all

lemma b64_encode_shape:
  "al \<in> b64_alphabets \<Longrightarrow> \<exists>body n. n < 3 \<and> b64_encode al s = body @ replicate n CHR ''='' \<and>
     list_all (\<lambda>c. b64_val al c \<noteq> None \<and> c \<noteq> CHR ''='') body"
proof (induction al s rule: b64_encode.induct)
  case (1 al)
  show ?case by (rule exI [of _ "[]"], rule exI [of _ 0]) simp
next
  case (2 al a)
  let ?b = "[b64_char al (code a div 4), b64_char al (code a mod 4 * 16)]"
  have "b64_encode al [a] = ?b @ replicate 2 CHR ''=''" by (simp add: numeral_2_eq_2)
  moreover have "list_all (\<lambda>c. b64_val al c \<noteq> None \<and> c \<noteq> CHR ''='') ?b" using 2 by simp
  ultimately show ?case using less_3 by blast
next
  case (3 al a b)
  let ?b = "[b64_char al (code a div 4), b64_char al (code a mod 4 * 16 + code b div 16),
    b64_char al (code b mod 16 * 4)]"
  have "b64_encode al [a, b] = ?b @ replicate 1 CHR ''=''" by simp
  moreover have "list_all (\<lambda>c. b64_val al c \<noteq> None \<and> c \<noteq> CHR ''='') ?b" using 3 by simp
  ultimately show ?case using less_3 by blast
next
  case (4 al a b c r)
  let ?b = "[b64_char al (code a div 4), b64_char al (code a mod 4 * 16 + code b div 16),
    b64_char al (code b mod 16 * 4 + code c div 64), b64_char al (code c mod 64)]"
  obtain body n where r: "n < 3" "b64_encode al r = body @ replicate n CHR ''=''"
    "list_all (\<lambda>c. b64_val al c \<noteq> None \<and> c \<noteq> CHR ''='') body" using 4 by blast
  then have "b64_encode al (a # b # c # r) = (?b @ body) @ replicate n CHR ''=''" by simp
  moreover have "list_all (\<lambda>c. b64_val al c \<noteq> None \<and> c \<noteq> CHR ''='') (?b @ body)" using 4 r(3) by simp
  ultimately show ?case using r(1) by blast
qed

lemma b64_val_not: "al \<in> b64_alphabets \<Longrightarrow> b64_val al c \<noteq> None \<Longrightarrow> \<not> is_newline c \<and> c \<noteq> CHR ''.''"
  by (auto simp: b64_alphabets_def b64_val_def StdEncoding_def URLEncoding_def is_newline_def
      is_upper_def is_lower_def is_digit_def split: if_splits)

theorem b64_decode_encode [simp]:
  assumes "al \<in> b64_alphabets"
  shows "b64_decode al (b64_encode al s) = Some s"
proof -
  obtain body n where b: "b64_encode al s = body @ replicate n CHR ''=''"
    "list_all (\<lambda>c. b64_val al c \<noteq> None \<and> c \<noteq> CHR ''='') body"
    using b64_encode_shape [OF assms] by blast
  have "\<forall>c \<in> set body. \<not> is_newline c"
  proof
    fix c assume "c \<in> set body"
    then have "b64_val al c \<noteq> None" using b(2) by (simp add: list_all_iff)
    then show "\<not> is_newline c" using b64_val_not [OF assms] by blast
  qed
  moreover have "\<not> is_newline CHR ''=''" by code_simp
  ultimately have "filter (\<lambda>c. \<not> is_newline c) (b64_encode al s) = b64_encode al s"
    unfolding b(1) filter_id_conv by (auto simp del: char_of_eq_iff)
  then show ?thesis using b64_groups_encode [OF assms] by (simp add: b64_decode_def)
qed

text \<open>
  The encodings without padding (\<^verbatim>\<open>RawURLEncoding\<close>), and what a reader does before decoding:
  the padding is put back.
\<close>

definition raw_encode :: "b64_alphabet \<Rightarrow> string \<Rightarrow> string" where
  "raw_encode al s = trim_right (\<lambda>c. c = CHR ''='') (b64_encode al s)"

definition raw_pad :: "string \<Rightarrow> string" where
  "raw_pad s = s @ replicate ((4 - length s mod 4) mod 4) CHR ''=''"

lemma length_b64_encode: "length (b64_encode al s) mod 4 = 0"
  by (induction al s rule: b64_encode.induct) simp_all

lemma trim_right_pad:
  "list_all (\<lambda>c. c \<noteq> d) body \<Longrightarrow> trim_right (\<lambda>c. c = d) (body @ replicate n d) = body"
proof -
  assume "list_all (\<lambda>c. c \<noteq> d) body"
  then have "dropWhile (\<lambda>c. c = d) (rev body) = rev body"
    by (cases "rev body") (auto simp: list_all_iff dest: arg_cong [of "rev body" _ set])
  moreover have "dropWhile (\<lambda>c. c = d) (replicate n d @ xs) = dropWhile (\<lambda>c. c = d) xs" for xs
    by (induction n) auto
  ultimately show ?thesis by (simp add: trim_right_def)
qed

lemma URL_alphabet [simp]: "URLEncoding \<in> b64_alphabets"
  by (simp add: b64_alphabets_def)

lemma raw_encode_shape:
  obtains n where "b64_encode URLEncoding b = raw_encode URLEncoding b @ replicate n CHR ''=''"
    and "n < 3" and "list_all (\<lambda>c. b64_val URLEncoding c \<noteq> None) (raw_encode URLEncoding b)"
proof -
  obtain body n where n: "n < 3" and e: "b64_encode URLEncoding b = body @ replicate n CHR ''=''"
    and l: "list_all (\<lambda>c. b64_val URLEncoding c \<noteq> None \<and> c \<noteq> CHR ''='') body"
    using b64_encode_shape [OF URL_alphabet] by blast
  have "list_all (\<lambda>c. c \<noteq> CHR ''='') body"
    using l by (rule list.pred_mono_strong) blast
  then have j: "raw_encode URLEncoding b = body"
    unfolding raw_encode_def e by (rule trim_right_pad)
  have "list_all (\<lambda>c. b64_val URLEncoding c \<noteq> None) body"
    using l by (rule list.pred_mono_strong) blast
  then show ?thesis using that [of n] n e unfolding j by blast
qed

lemma pad_amount: "(k + n) mod 4 = 0 \<Longrightarrow> n < 3 \<Longrightarrow> (4 - k mod 4) mod 4 = n" for k n :: nat
proof -
  assume a: "(k + n) mod 4 = 0" "n < 3"
  have r: "(k mod 4 + n) mod 4 = 0" using a(1) by (simp only: mod_add_left_eq)
  have "k mod 4 < 4" by simp
  then have "k mod 4 \<in> {0, 1, 2, 3}" by auto
  moreover have "n \<in> {0, 1, 2}" using a(2) by auto
  ultimately show ?thesis using r by (elim insertE emptyE) simp_all
qed

lemma raw_padding: "raw_pad (raw_encode URLEncoding b) = b64_encode URLEncoding b"
proof -
  obtain n where n: "b64_encode URLEncoding b = raw_encode URLEncoding b @ replicate n CHR ''=''" "n < 3"
    using raw_encode_shape by blast
  have "(length (raw_encode URLEncoding b) + n) mod 4 = 0"
    using length_b64_encode [of URLEncoding b] n(1) by simp
  then have "(4 - length (raw_encode URLEncoding b) mod 4) mod 4 = n" using n(2) by (rule pad_amount)
  then show ?thesis using n(1) by (simp add: raw_pad_def)
qed

lemma raw_encode_chars: "list_all (\<lambda>c. b64_val URLEncoding c \<noteq> None) (raw_encode URLEncoding b)"
  using raw_encode_shape by blast

lemma raw_encode_inj [simp]: "raw_encode URLEncoding a = raw_encode URLEncoding b \<longleftrightarrow> a = b"
  by (metis b64_decode_encode URL_alphabet raw_padding option.inject)

section \<open>Query strings\<close>

text \<open>\<^verbatim>\<open>url.QueryUnescape\<close>: an error when a percent sign is not followed by two hexadecimal digits.\<close>

fun query_unescape :: "string \<Rightarrow> string option" where
  "query_unescape [] = Some []"
| "query_unescape (c # cs) =
     (if c = CHR ''%'' then
        (case cs of
           x # y # r \<Rightarrow>
             (case (hex_digit x, hex_digit y) of
                (Some h, Some l) \<Rightarrow> map_option ((#) (char_of (16 * h + l))) (query_unescape r)
              | _ \<Rightarrow> None)
         | _ \<Rightarrow> None)
      else map_option ((#) (if c = CHR ''+'' then CHR '' '' else c)) (query_unescape cs))"

type_synonym url_values = "(string \<times> string list) list"

text \<open>\<^verbatim>\<open>m[key] = append(m[key], values...)\<close>.\<close>

fun values_add :: "string \<Rightarrow> string list \<Rightarrow> url_values \<Rightarrow> url_values" where
  "values_add k vs [] = [(k, vs)]"
| "values_add k vs ((k', ws) # m) = (if k' = k then (k', ws @ vs) # m else (k', ws) # values_add k vs m)"

text \<open>\<^verbatim>\<open>m[key] = values\<close>.\<close>

fun values_set :: "string \<Rightarrow> string list \<Rightarrow> url_values \<Rightarrow> url_values" where
  "values_set k vs [] = [(k, vs)]"
| "values_set k vs ((k', ws) # m) = (if k' = k then (k', vs) # m else (k', ws) # values_set k vs m)"

definition copy_values :: "url_values \<Rightarrow> url_values \<Rightarrow> url_values" where
  "copy_values dst src = fold (\<lambda>(k, vs). values_add k vs) src dst"

text \<open>
  \<^verbatim>\<open>url.ParseQuery\<close>: the pairs that decode, and whether some part was malformed (only the first
  error is kept; the others are skipped like it).
\<close>

definition query_pair :: "string \<Rightarrow> (string \<times> string) option" where
  "query_pair part =
     (let (k, v) = (case cut_at CHR ''='' part of Some p \<Rightarrow> p | None \<Rightarrow> (part, [])) in
      case (query_unescape k, query_unescape v) of
        (Some k', Some v') \<Rightarrow> Some (k', v')
      | _ \<Rightarrow> None)"

definition parse_query_part :: "string \<Rightarrow> url_values \<times> bool \<Rightarrow> url_values \<times> bool" where
  "parse_query_part part st =
     (let (m, bad) = st in
      if CHR '';'' \<in> set part then (m, True)
      else if part = [] then (m, bad)
      else case query_pair part of
          None \<Rightarrow> (m, True)
        | Some (k, v) \<Rightarrow> (values_add k [v] m, bad))"

definition parse_query :: "string \<Rightarrow> url_values \<times> bool" where
  "parse_query q = fold parse_query_part (split_on CHR ''&'' q) ([], False)"

lemma map_get_values_add:
  "map_get (values_add k vs m) k' = (if k' = k then map_get m k @ vs else map_get m k')"
  by (induction k vs m rule: values_add.induct) (auto simp: map_get_def split: option.splits)

lemma map_get_values_set [simp]:
  "map_get (values_set k vs m) k' = (if k' = k then vs else map_get m k')"
  by (induction k vs m rule: values_set.induct) (auto simp: map_get_def split: option.splits)

section \<open>Numbers and JSON strings\<close>

fun digits_of :: "nat \<Rightarrow> string" where
  "digits_of n = (if n < 10 then [char_of (48 + n)] else digits_of (n div 10) @ [char_of (48 + n mod 10)])"

declare digits_of.simps [simp del]

lemma digits_of_digit: "c \<in> set (digits_of n) \<Longrightarrow> is_digit c"
proof (induction n rule: digits_of.induct)
  case (1 n)
  then show ?case by (subst (asm) (2) digits_of.simps) (auto simp: is_digit_def split: if_splits)
qed

text \<open>A decimal integer as \<^verbatim>\<open>%d\<close> prints it.\<close>

definition dec_string :: "int \<Rightarrow> string" where
  "dec_string i = (if i < 0 then CHR ''-'' # digits_of (nat (- i)) else digits_of (nat i))"

definition hex_char :: "nat \<Rightarrow> char" where
  "hex_char n = (if n < 10 then char_of (48 + n) else char_of (87 + n))"

text \<open>
  One ASCII character of a JSON string as \<^verbatim>\<open>encoding/json\<close> writes it, with HTML escaping, as
  \<^verbatim>\<open>json.Marshal\<close> does.
\<close>

definition json_char :: "char \<Rightarrow> string" where
  "json_char c =
     (let n = code c in
      if c = CHR ''\"'' then [CHR 0x5C, CHR ''\"'']
      else if c = CHR 0x5C then [CHR 0x5C, CHR 0x5C]
      else if n = 8 then [CHR 0x5C, CHR ''b'']
      else if n = 12 then [CHR 0x5C, CHR ''f'']
      else if n = 10 then [CHR 0x5C, CHR ''n'']
      else if n = 13 then [CHR 0x5C, CHR ''r'']
      else if n = 9 then [CHR 0x5C, CHR ''t'']
      else if n < 32 \<or> c = CHR ''<'' \<or> c = CHR ''>'' \<or> c = CHR ''&'' then
        [CHR 0x5C, CHR ''u'', CHR ''0'', CHR ''0'', hex_char (n div 16), hex_char (n mod 16)]
      else [c])"

text \<open>
  The encodings of one character in UTF-8: none longer than it needs to be, no surrogate, and none above 10FFFF.
\<close>

definition byte_in :: "nat \<Rightarrow> nat \<Rightarrow> char \<Rightarrow> bool" where
  "byte_in lo hi c = (lo \<le> code c \<and> code c \<le> hi)"

fun utf8_char :: "string \<Rightarrow> bool" where
  "utf8_char [c] = byte_in 0 0x7F c"
| "utf8_char [c, a] = (byte_in 0xC2 0xDF c \<and> byte_in 0x80 0xBF a)"
| "utf8_char [c, a, b] =
     (byte_in 0xE0 0xEF c \<and> byte_in (if code c = 0xE0 then 0xA0 else 0x80) (if code c = 0xED then 0x9F else 0xBF) a \<and>
      byte_in 0x80 0xBF b)"
| "utf8_char [c, a, b, d] =
     (byte_in 0xF0 0xF4 c \<and> byte_in (if code c = 0xF0 then 0x90 else 0x80) (if code c = 0xF4 then 0x8F else 0xBF) a \<and>
      byte_in 0x80 0xBF b \<and> byte_in 0x80 0xBF d)"
| "utf8_char _ = False"

text \<open>
  The size of the character at the head of a string, as \<^verbatim>\<open>utf8.DecodeRuneInString\<close> finds it; 0 when there is
  none.
\<close>

definition utf8_size :: "string \<Rightarrow> nat" where
  "utf8_size s =
     (if utf8_char (take 1 s) then 1 else if utf8_char (take 2 s) then 2
      else if utf8_char (take 3 s) then 3 else if utf8_char (take 4 s) then 4 else 0)"

text \<open>A string as a sequence of characters, and of bytes that belong to none (\<open>None\<close>).\<close>

function utf8_units :: "string \<Rightarrow> string option list" where
  "utf8_units [] = []"
| "utf8_units (c # r) =
     (if utf8_size (c # r) = 0 then None # utf8_units r
      else Some (take (utf8_size (c # r)) (c # r)) # utf8_units (drop (utf8_size (c # r)) (c # r)))"
  by pat_completeness auto
termination by (relation "measure length") auto

text \<open>
  A byte outside a character becomes the replacement character, which is escaped, as are the two separators
  U+2028 and U+2029; other characters outside ASCII are copied.
\<close>

definition json_unit :: "string option \<Rightarrow> string" where
  "json_unit u =
     (case u of
        None \<Rightarrow> CHR 0x5C # ''ufffd''
      | Some [c] \<Rightarrow> json_char c
      | Some w \<Rightarrow>
          (if w = [CHR 0xE2, CHR 0x80, CHR 0xA8] then CHR 0x5C # ''u2028''
           else if w = [CHR 0xE2, CHR 0x80, CHR 0xA9] then CHR 0x5C # ''u2029''
           else w))"

definition json_string :: "string \<Rightarrow> string" where
  "json_string s = CHR ''\"'' # concat (map json_unit (utf8_units s)) @ ''\"''"

definition utf8_valid :: "string \<Rightarrow> bool" where
  "utf8_valid s = (None \<notin> set (utf8_units s))"

lemma utf8_units_join: "utf8_valid s \<Longrightarrow> concat (map the (utf8_units s)) = s"
proof (induction s rule: utf8_units.induct)
  case (2 c r)
  have n: "utf8_size (c # r) \<noteq> 0"
  proof
    assume "utf8_size (c # r) = 0"
    then show False using 2(3) by (simp add: utf8_valid_def)
  qed
  then have "utf8_valid (drop (utf8_size (c # r)) (c # r))" using 2(3) by (simp add: utf8_valid_def)
  from 2(2) [OF n this] show ?case using n by (simp del: drop_Suc_Cons take_Suc_Cons)
qed simp

lemma utf8_char_nonempty: "utf8_char s \<Longrightarrow> s \<noteq> []"
  by auto

lemma utf8_size_cases:
  fixes s :: string
  defines "P \<equiv> \<lambda>k. utf8_char (take k s)"
  obtains "utf8_size s = 0" | "utf8_size s = 1" "P 1" | "utf8_size s = 2" "P 2" "\<not> P 1"
    | "utf8_size s = 3" "P 3" "\<not> P 1" "\<not> P 2" | "utf8_size s = 4" "P 4" "\<not> P 1" "\<not> P 2" "\<not> P 3"
proof -
  have "utf8_size s = (if P 1 then 1 else if P 2 then 2 else if P 3 then 3 else if P 4 then 4 else 0)"
    unfolding utf8_size_def P_def ..
  then show thesis using that by (cases "P 1"; cases "P 2"; cases "P 3"; cases "P 4") simp_all
qed

lemma below_four: "0 < (m :: nat) \<Longrightarrow> m < 4 \<Longrightarrow> m = 1 \<or> m = 2 \<or> m = 3"
  by linarith

lemma utf8_size_char:
  assumes "utf8_size s = n" "0 < n"
  shows "utf8_char (take n s) \<and> (\<forall>m. 0 < m \<and> m < n \<longrightarrow> \<not> utf8_char (take m s)) \<and> n \<le> 4"
proof (intro conjI allI impI)
  show "utf8_char (take n s)" using assms by (cases rule: utf8_size_cases [of s]) simp_all
  show "n \<le> 4" using assms by (cases rule: utf8_size_cases [of s]) simp_all
  fix m :: nat
  assume m: "0 < m \<and> m < n"
  then have "0 < m" "m < 4" using \<open>n \<le> 4\<close> by linarith+
  then consider "m = 1" "1 < n" | "m = 2" "2 < n" | "m = 3" "3 < n" using below_four m by blast
  then show "\<not> utf8_char (take m s)"
  proof cases
    case 1
    then show ?thesis using assms by (cases rule: utf8_size_cases [of s]) simp_all
  next
    case 2
    then show ?thesis using assms by (cases rule: utf8_size_cases [of s]) simp_all
  next
    case 3
    then show ?thesis using assms by (cases rule: utf8_size_cases [of s]) simp_all
  qed
qed

text \<open>It does not depend on what follows.\<close>

lemma utf8_size_length:
  assumes "utf8_size s = n" "0 < n"
  shows "length (take n s) = n"
proof (rule ccontr)
  assume "length (take n s) \<noteq> n"
  then have l: "length s < n" "take n s = take (length s) s" by simp_all
  have "utf8_char s" using utf8_size_char [OF assms] l(2) by simp
  then have "0 < length s" using utf8_char_nonempty by blast
  then show False using utf8_size_char [OF assms] l(1) \<open>utf8_char s\<close> by auto
qed

lemma utf8_size_take:
  assumes "utf8_size s = n" "0 < n"
  shows "utf8_size (take n s @ t) = n"
proof -
  have "n \<le> length s" using utf8_size_length [OF assms] by simp
  then have same: "m \<le> n \<Longrightarrow> take m (take n s @ t) = take m s" for m by simp
  have below: "m < n \<Longrightarrow> 0 < m \<Longrightarrow> \<not> utf8_char (take m (take n s @ t))" for m
    using utf8_size_char [OF assms] same [of m] less_imp_le [of m n] by metis
  have at: "utf8_char (take n (take n s @ t))" using utf8_size_char [OF assms] same [of n] by (metis order_refl)
  have bound: "n \<le> 4" using utf8_size_char [OF assms] by blast
  have size: "utf8_size x = n" if x: "utf8_char (take n x)" "\<And>m. m < n \<Longrightarrow> 0 < m \<Longrightarrow> \<not> utf8_char (take m x)" for x
  proof -
    from bound consider "n = 1" | "n = 2" | "n = 3" | "n = 4" using assms(2) by linarith
    then show ?thesis using x by cases (simp_all add: utf8_size_def)
  qed
  show ?thesis by (rule size [OF at below])
qed

lemma utf8_size_ascii [simp]: "code c < 128 \<Longrightarrow> utf8_size (c # r) = 1"
  by (simp add: utf8_size_def byte_in_def)

lemma utf8_units_size: "Some w \<in> set (utf8_units s) \<Longrightarrow> w \<noteq> [] \<and> utf8_size w = length w"
proof (induction s rule: utf8_units.induct)
  case (2 c r)
  let ?n = "utf8_size (c # r)"
  show ?case
  proof (cases "0 < ?n \<and> w = take ?n (c # r)")
    case True
    then have n: "0 < ?n" and w: "w = take ?n (c # r)" by blast+
    have "length w = ?n" unfolding w by (rule utf8_size_length [OF refl n])
    moreover from utf8_size_take [OF refl n, of "[]"] have "utf8_size w = ?n" unfolding w append_Nil2 .
    ultimately show ?thesis using n by auto
  next
    case False
    then show ?thesis using 2 by (auto simp del: drop_Suc_Cons take_Suc_Cons split: if_splits)
  qed
qed simp

lemma utf8_size_append:
  assumes "w \<noteq> []" "utf8_size w = length w"
  shows "utf8_size (w @ t) = length w"
  using utf8_size_take [OF assms(2), of t] assms(1) by simp

lemma utf8_size_high: "utf8_size (c # r) > 1 \<Longrightarrow> 128 \<le> code c"
  by (metis less_irrefl not_le utf8_size_ascii)

lemma utf8_size_low: "utf8_size [c] = 1 \<Longrightarrow> code c < 128"
  using utf8_size_char [of "[c]" 1] by (simp add: byte_in_def)

lemma utf8_units_ascii: "list_all (\<lambda>c. code c < 128) s \<Longrightarrow> utf8_units s = map (\<lambda>c. Some [c]) s"
  by (induction s) simp_all

lemma utf8_valid_ascii: "list_all (\<lambda>c. code c < 128) s \<Longrightarrow> utf8_valid s"
  by (auto simp: utf8_valid_def utf8_units_ascii)

end
