(* ===== verification/Go_Http.thy ===== *)
theory Go_Http
  imports Go_Encoding
begin

text \<open>
  What the server uses of \<^verbatim>\<open>net/http\<close>: request headers, \<^verbatim>\<open>Request.BasicAuth\<close>, and the forms of a
  request, which \<^verbatim>\<open>FormValue\<close> and \<^verbatim>\<open>ParseForm\<close> parse on first use and keep.

  The body is a string. Inputs of the model are what \<^verbatim>\<open>mime.ParseMediaType\<close> returns for the
  header \<^verbatim>\<open>Content-Type\<close> (a media type and whether there was an error; a missing header counts
  as \<^verbatim>\<open>application/octet-stream\<close>) and the values that a multipart reader finds in the body
  (\<open>None\<close> when it is no well-formed multipart body).
\<close>

record http_request =
  hr_RemoteAddr :: string
  hr_Method :: string
  hr_Path :: string
  hr_RawQuery :: string
  hr_Header :: url_values
  hr_MediaType :: string
  hr_MediaErr :: bool
  hr_Body :: string
  hr_Multipart :: "url_values option"

section \<open>Headers\<close>

definition is_token_char :: "char \<Rightarrow> bool" where
  "is_token_char c = (is_digit c \<or> is_lower c \<or> is_upper c \<or> c \<in> set ''!#$%&*+-.^_`|~'' \<or> code c = 39)"

fun canonical_from :: "bool \<Rightarrow> string \<Rightarrow> string" where
  "canonical_from up [] = []"
| "canonical_from up (c # cs) =
     (if up then upper_char c else lower_char c) # canonical_from (c = CHR ''-'') cs"

text \<open>\<^verbatim>\<open>textproto.CanonicalMIMEHeaderKey\<close>; the keys of a received request are canonical.\<close>

definition canonical_header_key :: "string \<Rightarrow> string" where
  "canonical_header_key k = (if list_all is_token_char k then canonical_from True k else k)"

definition header_get :: "http_request \<Rightarrow> string \<Rightarrow> string" where
  "header_get rq k = (case map_get (hr_Header rq) (canonical_header_key k) of [] \<Rightarrow> [] | v # _ \<Rightarrow> v)"

section \<open>Basic authentication\<close>

definition parse_basic_auth :: "string \<Rightarrow> (string \<times> string) option" where
  "parse_basic_auth auth =
     (if length auth < 6 \<or> \<not> equal_fold (take 6 auth) ''Basic '' then None
      else case b64_decode StdEncoding (drop 6 auth) of
          None \<Rightarrow> None
        | Some c \<Rightarrow> cut_at CHR '':'' c)"

definition basic_auth :: "http_request \<Rightarrow> (string \<times> string) option" where
  "basic_auth rq =
     (let auth = header_get rq ''Authorization'' in if auth = [] then None else parse_basic_auth auth)"

text \<open>Credentials come back from the header a client builds with \<^verbatim>\<open>SetBasicAuth\<close>.\<close>

definition basic_header :: "string \<Rightarrow> string \<Rightarrow> string" where
  "basic_header user pass = ''Basic '' @ b64_encode StdEncoding (user @ CHR '':'' # pass)"

lemma parse_basic_header:
  "CHR '':'' \<notin> set user \<Longrightarrow> parse_basic_auth (basic_header user pass) = Some (user, pass)"
  by (simp add: parse_basic_auth_def basic_header_def b64_alphabets_def equal_fold_def cut_at_Some)

section \<open>Forms\<close>

record form_state =
  fs_PostForm :: "url_values option"
  fs_Form :: "url_values option"

definition no_form :: form_state where
  "no_form = \<lparr>fs_PostForm = None, fs_Form = None\<rparr>"

definition max_form_size :: nat where "max_form_size = 10 * 1024 * 1024"

text \<open>\<^verbatim>\<open>parsePostForm\<close>: the values (nil when none were read) and whether there was an error.\<close>

definition parse_post_form :: "http_request \<Rightarrow> url_values option \<times> bool" where
  "parse_post_form rq =
     (if hr_MediaType rq = ''application/x-www-form-urlencoded'' then
        (if max_form_size < length (hr_Body rq) then (None, True)
         else let (vs, bad) = parse_query (hr_Body rq) in (Some vs, hr_MediaErr rq \<or> bad))
      else (None, hr_MediaErr rq))"

definition values_of :: "url_values option \<Rightarrow> url_values" where
  "values_of ov = (case ov of None \<Rightarrow> [] | Some vs \<Rightarrow> vs)"

definition parse_form :: "http_request \<Rightarrow> form_state \<Rightarrow> form_state \<times> bool" where
  "parse_form rq fs =
     (let (pf, bad) = (case fs_PostForm fs of
            Some v \<Rightarrow> (v, False)
          | None \<Rightarrow>
              (if hr_Method rq \<in> {''POST'', ''PUT'', ''PATCH''} then
                 (let (v, b) = parse_post_form rq in (values_of v, b))
               else ([], False))) in
      case fs_Form fs of
        Some f \<Rightarrow> (\<lparr>fs_PostForm = Some pf, fs_Form = Some f\<rparr>, bad)
      | None \<Rightarrow>
          (let (newValues, bad2) = parse_query (hr_RawQuery rq);
               f = (if length pf > 0 then copy_values (copy_values [] pf) newValues else newValues)
           in (\<lparr>fs_PostForm = Some pf, fs_Form = Some f\<rparr>, bad \<or> bad2)))"

text \<open>\<^verbatim>\<open>FormValue\<close> parses the forms when that was not done, ignoring errors.\<close>

definition parse_multipart_form :: "http_request \<Rightarrow> form_state \<Rightarrow> form_state" where
  "parse_multipart_form rq fs =
     (let fs' = fst (parse_form rq fs) in
      case hr_Multipart rq of
        Some vs \<Rightarrow>
          (if hr_MediaType rq = ''multipart/form-data'' \<and> \<not> hr_MediaErr rq then
             \<lparr>fs_PostForm = Some (copy_values (values_of (fs_PostForm fs')) vs),
              fs_Form = Some (copy_values (values_of (fs_Form fs')) vs)\<rparr>
           else fs')
      | None \<Rightarrow> fs')"

definition form_parsed :: "http_request \<Rightarrow> form_state \<Rightarrow> form_state" where
  "form_parsed rq fs = (if fs_Form fs = None then parse_multipart_form rq fs else fs)"

definition form_list :: "form_state \<Rightarrow> string \<Rightarrow> string list" where
  "form_list fs key = map_get (values_of (fs_Form fs)) key"

definition form_value :: "http_request \<Rightarrow> string \<Rightarrow> form_state \<Rightarrow> string \<times> form_state" where
  "form_value rq key fs =
     (let fs' = form_parsed rq fs in
      (case form_list fs' key of [] \<Rightarrow> [] | v # _ \<Rightarrow> v, fs'))"

section \<open>Laws\<close>

definition forms_ready :: "form_state \<Rightarrow> bool" where
  "forms_ready fs = (fs_PostForm fs \<noteq> None \<and> fs_Form fs \<noteq> None)"

lemma parse_form_ready: "forms_ready (fst (parse_form rq fs))"
  by (auto simp: parse_form_def forms_ready_def Let_def split: option.splits prod.splits)

lemma parse_form_again: "forms_ready fs \<Longrightarrow> parse_form rq fs = (fs, False)"
  by (cases fs) (auto simp: parse_form_def forms_ready_def)

lemma parse_multipart_form_ready: "forms_ready (parse_multipart_form rq fs)"
  using parse_form_ready [of rq fs]
  by (auto simp: parse_multipart_form_def forms_ready_def Let_def split: option.splits)

lemma form_parsed_ready: "fs = no_form \<or> forms_ready fs \<Longrightarrow> forms_ready (form_parsed rq fs)"
  by (auto simp: form_parsed_def parse_multipart_form_ready) (auto simp: forms_ready_def no_form_def)

lemma form_parsed_again [simp]: "forms_ready fs \<Longrightarrow> form_parsed rq fs = fs"
  by (auto simp: form_parsed_def forms_ready_def)

text \<open>Once the forms are parsed, reading a value changes nothing.\<close>

definition form_first :: "http_request \<Rightarrow> string \<Rightarrow> string" where
  "form_first rq key = fst (form_value rq key no_form)"

definition request_forms :: "http_request \<Rightarrow> form_state" where
  "request_forms rq = form_parsed rq no_form"

lemma request_forms_ready [simp]: "forms_ready (request_forms rq)"
  by (simp add: request_forms_def form_parsed_ready)

lemma form_value_fresh: "form_value rq key no_form = (form_first rq key, request_forms rq)"
  by (simp add: form_first_def form_value_def request_forms_def Let_def)

lemma form_value_ready: "form_value rq key (request_forms rq) = (form_first rq key, request_forms rq)"
  by (simp add: form_first_def form_value_def request_forms_def Let_def form_parsed_ready)

lemmas form_rules = form_value_fresh form_value_ready parse_form_again [OF request_forms_ready]

end
