(* ===== verification/Api.thy ===== *)
theory Api
  imports Prelude Go_Net
begin

text \<open>
  The types that authenticators and authorizers share (\<^verbatim>\<open>api/authn.go\<close>, \<^verbatim>\<open>api/authz.go\<close>,
  \<^verbatim>\<open>k8s/user_info.go\<close>) and the contract of an authorizer as a locale: what it grants was
  requested.
\<close>

section \<open>Labels, results, requests\<close>

text \<open>\<^verbatim>\<open>type Labels map[string][]string\<close>: an association list in iteration order.\<close>

type_synonym labels = "(string \<times> string list) list"

record user_info =
  ui_Name :: string
  ui_UID :: string
  ui_Groups :: "string list"
  ui_BearerToken :: string

text \<open>
  Values of type \<^verbatim>\<open>any\<close> that travel as authenticator data: none, the Kubernetes user, or
  something of another dynamic type (from a plugin).
\<close>

datatype go_any = AnyNil | AnyUserInfo user_info | AnyOther string

record auth_result =
  ar_Authenticated :: bool
  ar_Labels :: labels
  ar_Data :: go_any

definition zero_result :: auth_result where
  "zero_result = \<lparr>ar_Authenticated = False, ar_Labels = [], ar_Data = AnyNil\<rparr>"

text \<open>A nil address is the empty list.\<close>

record auth_request_info =
  ai_Account :: string
  ai_Type :: string
  ai_Name :: string
  ai_Service :: string
  ai_IP :: ip
  ai_Actions :: "string list"
  ai_Labels :: labels
  ai_AuthenticatorData :: go_any

text \<open>
  The operations of the two interfaces. A call may read and change the state \<open>'w\<close> outside the
  value (caches, clock, remote services), which is passed along. An authorizer's result may
  be a nil slice (\<open>None\<close>).
\<close>

type_synonym 'w authn_fn = "string \<Rightarrow> string \<Rightarrow> 'w \<Rightarrow> auth_result go \<times> 'w"
type_synonym 'w authz_fn = "auth_request_info \<Rightarrow> 'w \<Rightarrow> string list option go \<times> 'w"

definition slice_items :: "string list option \<Rightarrow> string list" where
  "slice_items s = (case s of None \<Rightarrow> [] | Some xs \<Rightarrow> xs)"

lemma slice_items_simps [simp]: "slice_items None = []" "slice_items (Some xs) = xs"
  by (simp_all add: slice_items_def)

section \<open>Errors and secrets\<close>

text \<open>\<^verbatim>\<open>AuthFailed.Error\<close> and \<^verbatim>\<open>Unwrap\<close>, given the text of other errors.\<close>

definition auth_failed_error :: "(go_error \<Rightarrow> string) \<Rightarrow> go_error option \<Rightarrow> string" where
  "auth_failed_error text c =
     (case c of Some e \<Rightarrow> ''Auth failed: '' @ text e | None \<Rightarrow> ''Auth failed'')"

fun auth_failed_unwrap :: "go_error \<Rightarrow> go_error option" where
  "auth_failed_unwrap (AuthFailed c) = c"
| "auth_failed_unwrap e = None"

definition new_auth_failed :: "go_error \<Rightarrow> go_error" where
  "new_auth_failed cause = AuthFailed (Some cause)"

definition wrong_pass :: go_error where
  "wrong_pass = new_auth_failed (Errorf ''wrong password for user'' [])"

lemma wrong_pass_not_no_match [simp]: "\<not> errors_is wrong_pass NoMatch"
  by (simp add: wrong_pass_def new_auth_failed_def)

text \<open>\<^verbatim>\<open>PasswordString.String\<close>.\<close>

definition password_string :: "string \<Rightarrow> string" where
  "password_string ps = (if length ps = 0 then [] else ''***'')"

text \<open>\<^verbatim>\<open>AuthRequestInfo.String\<close>, which the log shows.\<close>

definition auth_request_info_text :: "auth_request_info \<Rightarrow> string" where
  "auth_request_info_text ai =
     ''{'' @ ai_Account ai @ '' '' @ join_with (CHR '','') (ai_Actions ai) @ '' '' @ ai_Type ai @ '' '' @ ai_Name ai @ ''}''"

section \<open>Kubernetes user information\<close>

definition user_info_is_valid :: "user_info \<Rightarrow> bool" where
  "user_info_is_valid u = (ui_Name u \<noteq> [] \<and> ui_UID u \<noteq> [] \<and> ui_BearerToken u \<noteq> [])"

definition UserLabel :: string where "UserLabel = ''username''"
definition UIDLabel :: string where "UIDLabel = ''uid''"

definition to_labels :: "user_info \<Rightarrow> labels" where
  "to_labels u =
     (if ui_Name u \<noteq> [] then [(UserLabel, [ui_Name u])] else []) @
     (if ui_UID u \<noteq> [] then [(UIDLabel, [ui_UID u])] else []) @
     (if length (ui_Groups u) > 0 then [(''groups'', ui_Groups u)] else [])"

lemma to_labels_wf: "map_wf (to_labels u)"
  by (simp add: to_labels_def map_wf_def UserLabel_def UIDLabel_def)

lemma to_labels_lookup:
  "map_get (to_labels u) UserLabel = (if ui_Name u = [] then [] else [ui_Name u])"
  "map_get (to_labels u) UIDLabel = (if ui_UID u = [] then [] else [ui_UID u])"
  "map_get (to_labels u) ''groups'' = ui_Groups u"
  by (auto simp: to_labels_def map_get_def UserLabel_def UIDLabel_def)

section \<open>The authorizer contract\<close>

text \<open>
  The documentation of \<^verbatim>\<open>Authorizer\<close> promises a set of authorized actions of the set
  requested. The server's guarantees about tokens rest on this law alone.
\<close>

locale authorizer =
  fixes authorize :: "'w authz_fn"
  assumes grants_requested:
    "authorize ai w = (Inr acts, w') \<Longrightarrow> set (slice_items acts) \<subseteq> set (ai_Actions ai)"
begin

lemma grant_in_request:
  "authorize ai w = (Inr acts, w') \<Longrightarrow> a \<in> set (slice_items acts) \<Longrightarrow> a \<in> set (ai_Actions ai)"
  using grants_requested by blast

lemma nothing_requested:
  "authorize ai w = (Inr acts, w') \<Longrightarrow> ai_Actions ai = [] \<Longrightarrow> slice_items acts = []"
  using grants_requested by fastforce

end

end
