(* ===== verification/Authz_Set.thy ===== *)
theory Authz_Set
  imports Prelude
begin

text \<open>
  \<^verbatim>\<open>authz/set.go\<close>: the intersection of two slices as a sorted slice. The set type comes from
  \<^verbatim>\<open>golang-set\<close>, whose iterator yields each element of a set once, in any order. The order is
  the parameter \<open>rank\<close>: the elements are visited by increasing rank. Every order of a finite
  set arises from some rank (\<open>set_iter_any_order\<close>), so a statement for all ranks is one for
  all orders.
\<close>

definition set_iter :: "(string set \<Rightarrow> string \<Rightarrow> nat) \<Rightarrow> string set \<Rightarrow> string list" where
  "set_iter rank S = sort_key (rank S) (sorted_list_of_set S)"

lemma set_set_iter [simp]: "finite S \<Longrightarrow> set (set_iter rank S) = S"
  by (simp add: set_iter_def)

lemma distinct_set_iter [simp]: "distinct (set_iter rank S)"
  by (simp add: set_iter_def)

lemma set_iter_any_order:
  assumes "distinct xs"
  shows "\<exists>rank. set_iter rank (set xs) = xs"
proof -
  define rank where "rank = (\<lambda>(S :: string set) x. (THE i. i < length xs \<and> xs ! i = x))"
  have r: "rank S (xs ! i) = i" if "i < length xs" for S i
    unfolding rank_def using that assms by (auto simp: nth_eq_iff_index_eq)
  let ?f = "rank (set xs)" and ?ys = "sorted_list_of_set (set xs)"
  have inj: "inj_on ?f (set xs)"
    by (rule inj_onI) (metis in_set_conv_nth r)
  have m: "mset ?ys = mset xs"
    using assms by (simp add: set_eq_iff_mset_eq_distinct [symmetric])
  have "sorted (map ?f xs)"
    by (rule sorted_iff_nth_mono [THEN iffD2]) (simp add: r)
  then have "sort (map ?f xs) = map ?f xs" by (simp add: sorted_sort_id)
  moreover have "sort (map ?f xs) = map ?f (sort_key ?f ?ys)"
    by (intro properties_for_sort) (simp only: mset_map mset_sort m, rule sorted_sort_key)
  ultimately have "map ?f (sort_key ?f ?ys) = map ?f xs" by simp
  then have "sort_key ?f ?ys = xs"
    using inj by (simp add: inj_on_map_eq_map)
  then show ?thesis unfolding set_iter_def by blast
qed

definition makeSet :: "string list \<Rightarrow> string set" where
  "makeSet ss = fold insert ss {}"

lemma makeSet_set [simp]: "makeSet ss = set ss"
proof -
  have "fold insert ss A = set ss \<union> A" for A
    by (induction ss arbitrary: A) auto
  then show ?thesis by (simp add: makeSet_def)
qed

text \<open>\<^verbatim>\<open>sort.Strings\<close> is \<open>sort\<close> in the byte order of strings.\<close>

definition StringSetIntersection ::
  "(string set \<Rightarrow> string \<Rightarrow> nat) \<Rightarrow> string list \<Rightarrow> string list \<Rightarrow> string list" where
  "StringSetIntersection rank a b =
     (let d = fold (\<lambda>s d. d @ [s]) (set_iter rank (makeSet a \<inter> makeSet b)) [] in sort d)"

lemma fold_snoc: "fold (\<lambda>s d. d @ [s]) xs acc = acc @ xs"
  by (induction xs arbitrary: acc) auto

lemma StringSetIntersection_eq:
  "StringSetIntersection rank a b = sorted_list_of_set (set a \<inter> set b)"
proof -
  let ?xs = "set_iter rank (set a \<inter> set b)"
  have "sorted_list_of_set (set ?xs) = sort ?xs"
    using sorted_list_of_set_sort_remdups [of ?xs] distinct_remdups_id [OF distinct_set_iter]
    by metis
  then show ?thesis by (simp add: StringSetIntersection_def fold_snoc)
qed

text \<open>
  The intersection is the sorted duplicate-free list of the common strings, whatever order
  the set library iterates in.
\<close>

theorem intersection_spec:
  "set (StringSetIntersection rank a b) = set a \<inter> set b \<and>
   distinct (StringSetIntersection rank a b) \<and> sorted (StringSetIntersection rank a b)"
  by (simp add: StringSetIntersection_eq)

end
