(* ===== verification/Authz_ACL.thy ===== *)
theory Authz_ACL
  imports Prelude Go_Regexp Go_Path Go_Net Api Authz_Set
begin

text \<open>
  \<^verbatim>\<open>authz/acl.go\<close>: the static access control list. An entry's match conditions are shell
  patterns, regular expressions between slashes, address patterns and label patterns, with
  variables filled from the request; the first entry that matches decides.

  A pointer is an option. The title-casing of \<^verbatim>\<open>golang.org/x/text/cases\<close> is the parameter
  \<open>title\<close>, the iteration order of \<^verbatim>\<open>golang-set\<close> the parameter \<open>rank\<close>.
\<close>

section \<open>Data\<close>

record match_conditions =
  mc_Account :: "string option"
  mc_Type :: "string option"
  mc_Name :: "string option"
  mc_IP :: "string option"
  mc_Service :: "string option"
  mc_Labels :: "(string \<times> string) list"

record acl_entry =
  e_Match :: "match_conditions option"
  e_Actions :: "string list option"
  e_Comment :: "string option"

type_synonym acl = "acl_entry list"

definition any_conditions :: match_conditions where
  "any_conditions = \<lparr>mc_Account = None, mc_Type = None, mc_Name = None, mc_IP = None,
     mc_Service = None, mc_Labels = []\<rparr>"

section \<open>Validation\<close>

text \<open>A pattern between slashes is a regular expression.\<close>

definition is_regex_pattern :: "string \<Rightarrow> bool" where
  "is_regex_pattern p = (length p > 2 \<and> p ! 0 = CHR ''/'' \<and> p ! (length p - 1) = CHR ''/'')"

definition regex_body :: "string \<Rightarrow> string" where
  "regex_body p = substr p 1 (length p - 1)"

text \<open>The result of a validation is an error or nil (\<open>None\<close>).\<close>

definition validatePattern :: "string \<Rightarrow> go_error option" where
  "validatePattern p =
     (if is_regex_pattern p then
        (case regexp_compile (regex_body p) of
           None \<Rightarrow> Some (Errorf ''invalid regex pattern'' [])
         | Some _ \<Rightarrow> None)
      else None)"

definition parseIPPattern :: "string \<Rightarrow> go_error + ipnet" where
  "parseIPPattern ipp =
     (case parse_ip ipp of
        Some a \<Rightarrow>
          (if to4 a \<noteq> None then Inr \<lparr>net_ip = a, net_mask = cidr_mask 32 32\<rparr>
           else Inr \<lparr>net_ip = a, net_mask = cidr_mask 128 128\<rparr>)
      | None \<Rightarrow>
          (case parse_cidr ipp of
             None \<Rightarrow> Inl (Errorf ''invalid CIDR address'' [])
           | Some net \<Rightarrow> Inr net))"

fun first_error :: "('a \<Rightarrow> go_error option) \<Rightarrow> 'a list \<Rightarrow> go_error option" where
  "first_error f [] = None"
| "first_error f (x # xs) = (case f x of Some e \<Rightarrow> Some e | None \<Rightarrow> first_error f xs)"

lemma first_error_None [simp]: "first_error f xs = None \<longleftrightarrow> (\<forall>x \<in> set xs. f x = None)"
  by (induction xs) (auto split: option.splits)

text \<open>
  \<^verbatim>\<open>validateMatchConditions\<close> reads the fields through the pointer it is given: a nil pointer
  panics.
\<close>

definition validateMatchConditions :: "match_conditions option \<Rightarrow> go_error option go" where
  "validateMatchConditions pmc =
     (case pmc of
        None \<Rightarrow> Inl (Panic nil_deref)
      | Some mc \<Rightarrow>
          Inr (case first_error
                 (\<lambda>p. case p of None \<Rightarrow> None
                    | Some s \<Rightarrow> map_option (\<lambda>_. Errorf ''invalid pattern'' []) (validatePattern s))
                 [mc_Account mc, mc_Type mc, mc_Name mc, mc_Service mc] of
            Some e \<Rightarrow> Some e
          | None \<Rightarrow>
              (case (case mc_IP mc of None \<Rightarrow> None
                     | Some ipp \<Rightarrow> (case parseIPPattern ipp of
                         Inl _ \<Rightarrow> Some (Errorf ''invalid IP pattern'' []) | Inr _ \<Rightarrow> None)) of
                 Some e \<Rightarrow> Some e
               | None \<Rightarrow>
                   first_error
                     (\<lambda>(k, v). map_option (\<lambda>_. Errorf ''invalid match pattern'' []) (validatePattern v))
                     (mc_Labels mc))))"

fun ValidateACL :: "acl \<Rightarrow> go_error option go" where
  "ValidateACL [] = Inr None"
| "ValidateACL (e # es) =
     (case validateMatchConditions (e_Match e) of
        Inl p \<Rightarrow> Inl p
      | Inr (Some err) \<Rightarrow> Inr (Some (Errorf ''invalid match conditions'' []))
      | Inr None \<Rightarrow> ValidateACL es)"

definition NewACLAuthorizer :: "acl \<Rightarrow> acl go" where
  "NewACLAuthorizer acl =
     (case ValidateACL acl of
        Inl p \<Rightarrow> Inl p
      | Inr (Some e) \<Rightarrow> Inl (Err e)
      | Inr None \<Rightarrow> Inr acl)"

section \<open>Matching strings\<close>

definition matchString :: "string option \<Rightarrow> string \<Rightarrow> (string \<times> string) list \<Rightarrow> bool" where
  "matchString pp s vars =
     (case pp of
        None \<Rightarrow> True
      | Some p0 \<Rightarrow>
          (let p = replace_all vars p0;
               r = (if is_regex_pattern p then regexp_match (regex_body p) s else path_match p s)
           in r = Some True))"

text \<open>
  \<^verbatim>\<open>iterate\<close> sends the elements of the cartesian product of its lists, the first varying
  slowest; \<^verbatim>\<open>IterWithContext\<close> sends nothing when there is no list. The channel is modelled by
  the list of the values sent on it, in order.
\<close>

fun iterate :: "'a list \<Rightarrow> 'a list \<Rightarrow> 'a list list \<Rightarrow> 'a list list" where
  "iterate topLevel result [] = map (\<lambda>p. result @ [p]) topLevel"
| "iterate topLevel result (n # ns) = concat (map (\<lambda>p. iterate n (result @ [p]) ns) topLevel)"

definition IterWithContext :: "'a list list \<Rightarrow> 'a list list" where
  "IterWithContext params = (case params of [] \<Rightarrow> [] | p # ps \<Rightarrow> iterate p [] ps)"

definition label_sets :: "string \<Rightarrow> labels \<Rightarrow> (string \<times> string) list list" where
  "label_sets pat labelMap =
     map (\<lambda>(placeholder, labels). map (\<lambda>label. (placeholder, label)) labels)
       (filter (\<lambda>(placeholder, labels). str_contains pat placeholder) labelMap)"

definition matchStringWithLabelPermutations ::
  "string option \<Rightarrow> string \<Rightarrow> (string \<times> string) list \<Rightarrow> labels \<Rightarrow> bool" where
  "matchStringWithLabelPermutations pp s vars labelMap =
     (if matchString pp s vars then True
      else case pp of
          None \<Rightarrow> False
        | Some pat \<Rightarrow>
            (let labelSets = label_sets pat labelMap in
             if length labelSets > 0
             then list_ex (\<lambda>labelVars. matchString pp s (vars @ labelVars)) (IterWithContext labelSets)
             else False))"

section \<open>Matching addresses and labels\<close>

text \<open>A fatal log entry ends the process; it is a panic of the model.\<close>

definition matchIP :: "string option \<Rightarrow> ip \<Rightarrow> bool go" where
  "matchIP ipp ip =
     (case ipp of
        None \<Rightarrow> Inr True
      | Some p \<Rightarrow>
          (if ip = [] then Inr False
           else case parseIPPattern p of
               Inl _ \<Rightarrow> Inl (Panic ''Invalid IP pattern'')
             | Inr ipnet \<Rightarrow> Inr (ipnet_contains ipnet ip)))"

definition matchLabels :: "(string \<times> string) list \<Rightarrow> labels \<Rightarrow> (string \<times> string) list \<Rightarrow> bool" where
  "matchLabels ml rl vars =
     list_all (\<lambda>(label, pattern).
       list_ex (\<lambda>lv. matchString (Some pattern) lv vars) (map_get rl label)) ml"

section \<open>Variables\<close>

definition captureGroupRegex :: "rx \<times> nat" where
  "captureGroupRegex =
     must_compile (CHR 0x5C # ''$'' @ CHR 0x5C # ''{(.+?):('' @ CHR 0x5C # ''d+)'' @ CHR 0x5C # ''}'')"

text \<open>
  \<^verbatim>\<open>getField\<close> by reflection: the string a field or pointer field holds; a field of another
  type yields its description, a missing field or nil pointer nothing.
\<close>

definition getField_mc :: "match_conditions \<Rightarrow> string \<Rightarrow> string option" where
  "getField_mc mc name =
     (if name = ''Account'' then mc_Account mc
      else if name = ''Type'' then mc_Type mc
      else if name = ''Name'' then mc_Name mc
      else if name = ''IP'' then mc_IP mc
      else if name = ''Service'' then mc_Service mc
      else if name = ''Labels'' then Some ''<map[string]string Value>''
      else None)"

definition getField_ai :: "auth_request_info \<Rightarrow> string \<Rightarrow> string option" where
  "getField_ai ai name =
     (if name = ''Account'' then Some (ai_Account ai)
      else if name = ''Type'' then Some (ai_Type ai)
      else if name = ''Name'' then Some (ai_Name ai)
      else if name = ''Service'' then Some (ai_Service ai)
      else if name = ''IP'' then Some ''<net.IP Value>''
      else if name = ''Actions'' then Some ''<[]string Value>''
      else if name = ''Labels'' then Some ''<api.Labels Value>''
      else if name = ''AuthenticatorData'' then Some ''<interface {} Value>''
      else None)"

definition base_vars :: "auth_request_info \<Rightarrow> (string \<times> string) list" where
  "base_vars ai =
     [(''${account}'', quote_meta (ai_Account ai)),
      (''${type}'', quote_meta (ai_Type ai)),
      (''${name}'', quote_meta (ai_Name ai)),
      (''${service}'', quote_meta (ai_Service ai))]"

text \<open>One reference \<^verbatim>\<open>${field:n}\<close>, found with its field name and digits.\<close>

definition capture_var ::
  "(string \<Rightarrow> string) \<Rightarrow> match_conditions \<Rightarrow> auth_request_info \<Rightarrow> string list \<Rightarrow>
   (string \<times> string) list" where
  "capture_var title mc ai found =
     (let key = title (found ! 1); index = atoi_digits (found ! 2) in
      case getField_mc mc key of
        None \<Rightarrow> []
      | Some field \<Rightarrow>
          (if length field < 2 \<or> field ! 0 \<noteq> CHR ''/'' \<or> field ! (length field - 1) \<noteq> CHR ''/'' then []
           else case regexp_compile (regex_body field) of
               None \<Rightarrow> []
             | Some regex \<Rightarrow>
                 (case getField_ai ai key of
                    None \<Rightarrow> []
                  | Some info \<Rightarrow>
                      (let text = (case find_string_submatch regex info of None \<Rightarrow> [] | Some t \<Rightarrow> t)
                       in if index < 1 \<or> index > int (length text) - 1 then []
                          else [(found ! 0, text ! nat index)]))))"

definition capture_vars ::
  "(string \<Rightarrow> string) \<Rightarrow> match_conditions \<Rightarrow> auth_request_info \<Rightarrow> (string \<times> string) list" where
  "capture_vars title mc ai =
     concat (map (\<lambda>x.
         concat (map (capture_var title mc ai)
           (find_all_string_submatch captureGroupRegex
             (case getField_mc mc x of Some f \<Rightarrow> f | None \<Rightarrow> []))))
       [''Account'', ''Type'', ''Name'', ''Service''])"

definition label_placeholder :: "string \<Rightarrow> string" where
  "label_placeholder label = ''${labels:'' @ label @ ''}''"

definition label_map :: "labels \<Rightarrow> labels" where
  "label_map ls = map (\<lambda>(label, labelValues). (label_placeholder label, labelValues)) ls"

definition match_vars ::
  "(string \<Rightarrow> string) \<Rightarrow> match_conditions \<Rightarrow> auth_request_info \<Rightarrow> (string \<times> string) list" where
  "match_vars title mc ai = base_vars ai @ capture_vars title mc ai"

text \<open>\<^verbatim>\<open>MatchConditions.Matches\<close>: a conjunction, evaluated from left to right.\<close>

definition mc_Matches ::
  "(string \<Rightarrow> string) \<Rightarrow> match_conditions \<Rightarrow> auth_request_info \<Rightarrow> bool go" where
  "mc_Matches title mc ai =
     (let vars = match_vars title mc ai; labelMap = label_map (ai_Labels ai) in
      if \<not> matchStringWithLabelPermutations (mc_Account mc) (ai_Account ai) vars labelMap then Inr False
      else if \<not> matchStringWithLabelPermutations (mc_Type mc) (ai_Type ai) vars labelMap then Inr False
      else if \<not> matchStringWithLabelPermutations (mc_Name mc) (ai_Name ai) vars labelMap then Inr False
      else if \<not> matchStringWithLabelPermutations (mc_Service mc) (ai_Service ai) vars labelMap then Inr False
      else case matchIP (mc_IP mc) (ai_IP ai) of
          Inl p \<Rightarrow> Inl p
        | Inr b \<Rightarrow> Inr (b \<and> matchLabels (mc_Labels mc) (ai_Labels ai) vars))"

definition e_Matches ::
  "(string \<Rightarrow> string) \<Rightarrow> acl_entry \<Rightarrow> auth_request_info \<Rightarrow> bool go" where
  "e_Matches title e ai =
     (case e_Match e of None \<Rightarrow> Inl (Panic nil_deref) | Some mc \<Rightarrow> mc_Matches title mc ai)"

section \<open>Authorization\<close>

definition entry_grant ::
  "(string set \<Rightarrow> string \<Rightarrow> nat) \<Rightarrow> acl_entry \<Rightarrow> auth_request_info \<Rightarrow> string list option go" where
  "entry_grant rank e ai =
     (case e_Actions e of
        None \<Rightarrow> Inl (Panic nil_deref)
      | Some actions \<Rightarrow>
          (if length actions = 1 \<and> actions ! 0 = ''*'' then Inr (Some (ai_Actions ai))
           else Inr (Some (StringSetIntersection rank (ai_Actions ai) actions))))"

fun acl_decide ::
  "(string \<Rightarrow> string) \<Rightarrow> (string set \<Rightarrow> string \<Rightarrow> nat) \<Rightarrow> acl \<Rightarrow> auth_request_info \<Rightarrow>
   string list option go" where
  "acl_decide title rank [] ai = Inl (Err NoMatch)"
| "acl_decide title rank (e # es) ai =
     (case e_Matches title e ai of
        Inl p \<Rightarrow> Inl p
      | Inr True \<Rightarrow> entry_grant rank e ai
      | Inr False \<Rightarrow> acl_decide title rank es ai)"

text \<open>The authorizer: its decision depends on the request alone.\<close>

definition acl_Authorize ::
  "(string \<Rightarrow> string) \<Rightarrow> (string set \<Rightarrow> string \<Rightarrow> nat) \<Rightarrow> acl \<Rightarrow> 'w authz_fn" where
  "acl_Authorize title rank acl ai w = (acl_decide title rank acl ai, w)"

section \<open>Patterns with the account\<close>

lemma is_regex_pattern_slashes [simp]: "is_regex_pattern (CHR ''/'' # mid @ ''/'') \<longleftrightarrow> mid \<noteq> []"
  by (simp add: is_regex_pattern_def nth_append)

lemma is_regex_pattern_iff: "is_regex_pattern p \<longleftrightarrow> (\<exists>mid. mid \<noteq> [] \<and> p = CHR ''/'' # mid @ ''/'')"
proof
  assume r: "is_regex_pattern p"
  then obtain c t where p: "p = c # t" by (cases p) (auto simp: is_regex_pattern_def)
  then obtain mid d where t: "t = mid @ [d]" using r
    by (cases t rule: rev_cases) (auto simp: is_regex_pattern_def)
  show "\<exists>mid. mid \<noteq> [] \<and> p = CHR ''/'' # mid @ ''/''"
    using r p t by (auto simp: is_regex_pattern_def nth_append)
qed auto

lemma regex_body_slashes [simp]: "regex_body (CHR ''/'' # mid @ ''/'') = mid"
  by (simp add: regex_body_def substr_def)

lemma quote_meta_slashes: "quote_meta (CHR ''/'' # mid @ ''/'') = CHR ''/'' # quote_meta mid @ ''/''"
  by (simp add: quote_meta_append regexp_specials_def)

lemma quote_meta_last: "q \<noteq> [] \<Longrightarrow> last (quote_meta q) = last q"
  by (induction q) auto

lemma is_regex_quote: "is_regex_pattern (quote_meta a) \<longleftrightarrow> is_regex_pattern a"
proof
  assume "is_regex_pattern (quote_meta a)"
  then obtain m where m: "m \<noteq> []" "quote_meta a = CHR ''/'' # m @ ''/''"
    unfolding is_regex_pattern_iff by blast
  then obtain t where a: "a = CHR ''/'' # t"
    by (cases a) (auto simp: regexp_specials_def split: if_splits)
  with m have t: "quote_meta t = m @ ''/''" by (simp add: regexp_specials_def)
  then have "t \<noteq> []" by auto
  then obtain u where u: "t = u @ ''/''"
    using t quote_meta_last [of t] by (metis append_butlast_last_id last_snoc)
  have "u \<noteq> []" using t m(1) u by (auto simp: regexp_specials_def)
  then show "is_regex_pattern a" by (simp add: a u)
next
  assume "is_regex_pattern a"
  then obtain m where "m \<noteq> []" "a = CHR ''/'' # m @ ''/''" unfolding is_regex_pattern_iff by blast
  then show "is_regex_pattern (quote_meta a)" by (simp only: quote_meta_slashes) simp
qed

text \<open>Every variable starts with a dollar sign.\<close>

lemma captureGroupRegex_eq: "captureGroupRegex =
    (RCat (lit_rx CHR ''$'') (RCat (lit_rx CHR ''{'')
       (RCat (RGroup 1 (RPlus False (RSet (Cls False False [(0, 9), (11, 255)]))))
         (RCat (lit_rx CHR '':'')
           (RCat (RGroup 2 (RPlus True (RSet (Cls False False [(48, 57)])))) (lit_rx CHR ''}''))))), 2)"
  unfolding captureGroupRegex_def by code_simp

lemma rx_search_Some:
  "rx_search r s ps = Some (p, st) \<Longrightarrow> p \<in> set ps \<and> st \<in> set (rx_runs r s (p, []))"
  by (induction ps) (auto split: list.splits)

lemma rx_all_member:
  "m \<in> set (rx_all n r s p prev) \<Longrightarrow> snd m \<in> set (rx_runs r s (fst m, [])) \<and> fst m \<le> length s"
proof (induction n r s p prev rule: rx_all.induct)
  case (2 n r s p prev)
  show ?case
  proof (cases "rx_find_from r s p")
    case None
    then show ?thesis using "2.prems" by simp
  next
    case (Some bst)
    obtain b e caps where bst: "bst = (b, e, caps)" by (cases bst) auto
    have "(e, caps) \<in> set (rx_runs r s (b, []))" and "b \<le> length s"
      using rx_search_Some [of r s "[p..<Suc (length s)]" b "(e, caps)"] Some bst
      by (auto simp: rx_find_from_def simp del: upt_Suc)
    then show ?thesis using "2.prems" "2.IH" Some bst by (auto split: if_splits)
  qed
qed simp

lemma lit_then_run:
  assumes "(e, caps) \<in> set (rx_runs (RCat (lit_rx c) r) s (b, cs))"
  shows "b < length s \<and> s ! b = c \<and> Suc b \<le> e"
proof -
  from assms have b: "b < length s" "s ! b = c" "(e, caps) \<in> set (rx_runs r s (Suc b, cs))"
    by (auto simp: lit_rx_def split: if_splits)
  then show ?thesis using rx_runs_moves [OF b(3)] by (simp add: moves_def)
qed

lemma found_dollar:
  assumes "found \<in> set (find_all_string_submatch captureGroupRegex s)"
  shows "\<exists>k. found ! 0 = CHR ''$'' # k" and "CHR ''$'' \<in> set s"
proof -
  obtain b e caps where m: "(b, e, caps) \<in> set (rx_all (length s + 2) (fst captureGroupRegex) s 0 None)"
    and found: "found ! 0 = substr s b e"
    using assms by (auto simp: find_all_string_submatch_def submatches_def simp del: rx_all.simps)
  from rx_all_member [OF m] have "(e, caps) \<in> set (rx_runs (fst captureGroupRegex) s (b, []))"
    by simp
  then have b: "b < length s" "s ! b = CHR ''$''" "Suc b \<le> e"
    unfolding captureGroupRegex_eq fst_conv by (blast dest: lit_then_run)+
  have "drop b s = CHR ''$'' # drop (Suc b) s" using b by (metis Cons_nth_drop_Suc)
  then show "\<exists>k. found ! 0 = CHR ''$'' # k"
    using b(3) by (cases "e - b") (auto simp: found substr_def)
  show "CHR ''$'' \<in> set s" using b by (metis nth_mem)
qed

lemma capture_var_old:
  assumes "(old, new) \<in> set (capture_var title mc ai found)"
  shows "old = found ! 0"
proof -
  have "set (capture_var title mc ai found) \<subseteq> {found ! 0} \<times> UNIV"
    unfolding capture_var_def Let_def
    by (cases "getField_mc mc (title (found ! 1))", simp,
        cases "regexp_compile (regex_body (the (getField_mc mc (title (found ! 1)))))", simp,
        cases "getField_ai ai (title (found ! 1))") simp_all
  then show ?thesis using assms by blast
qed

lemma capture_vars_dollar:
  assumes "(old, new) \<in> set (capture_vars title mc ai)"
  shows "\<exists>k. old = CHR ''$'' # k"
proof -
  from assms obtain f found where "found \<in> set (find_all_string_submatch captureGroupRegex f)"
    and "(old, new) \<in> set (capture_var title mc ai found)"
    unfolding capture_vars_def by auto
  then show ?thesis using found_dollar(1) capture_var_old by metis
qed

lemma no_dollar_no_found:
  "CHR ''$'' \<notin> set f \<Longrightarrow> find_all_string_submatch captureGroupRegex f = []"
  using found_dollar(2) by (meson last_in_set)

text \<open>Conditions without a dollar sign refer to no capture group.\<close>

definition no_dollar :: "string option \<Rightarrow> bool" where
  "no_dollar f = (case f of None \<Rightarrow> True | Some s \<Rightarrow> CHR ''$'' \<notin> set s)"

lemma capture_vars_none:
  assumes "no_dollar (mc_Account mc)" "no_dollar (mc_Type mc)" "no_dollar (mc_Name mc)"
    "no_dollar (mc_Service mc)"
  shows "capture_vars title mc ai = []"
proof -
  have "find_all_string_submatch captureGroupRegex (case f of Some s \<Rightarrow> s | None \<Rightarrow> []) = []"
    if "no_dollar f" for f
    using that by (cases f) (auto simp: no_dollar_def no_dollar_no_found)
  then show ?thesis using assms by (simp add: capture_vars_def getField_mc_def)
qed

lemma match_vars_dollar: "(old, new) \<in> set (match_vars title mc ai) \<Longrightarrow> \<exists>k. old = CHR ''$'' # k"
  by (auto simp: match_vars_def base_vars_def dest: capture_vars_dollar)

lemma replace_copy_vars:
  "CHR ''$'' \<notin> set t \<Longrightarrow> replace_all (match_vars title mc ai) t = t"
  using replace_all_copy [of "match_vars title mc ai" t "[]"] match_vars_dollar by fastforce

lemma replace_account:
  "replace_all (match_vars title mc ai) (''${account}'' @ t) =
     quote_meta (ai_Account ai) @ replace_all (match_vars title mc ai) t"
  by (rule replace_all_step) (simp add: match_vars_def base_vars_def)

lemma replace_account0:
  "replace_all (match_vars title mc ai) ''${account}'' = quote_meta (ai_Account ai)"
  using replace_account [of title mc ai "[]"] by simp

lemma matchString_replaced:
  "replace_all vars p0 = p \<Longrightarrow> matchString (Some p0) s vars =
     ((if is_regex_pattern p then regexp_match (regex_body p) s else path_match p s) = Some True)"
  by (simp add: matchString_def Let_def)

text \<open>
  C10. The pattern \<^verbatim>\<open>${account}\<close> of an access list matches exactly the account of the request,
  whatever characters of shell patterns the account holds, except when the account is
  itself of the form of a regular expression between slashes: then it matches every string
  that contains the text between them.
\<close>

theorem account_pattern:
  "matchString (Some ''${account}'') s (match_vars title mc ai) =
     (if is_regex_pattern (ai_Account ai) then str_contains s (regex_body (ai_Account ai))
      else s = ai_Account ai)"
proof (cases "is_regex_pattern (ai_Account ai)")
  case True
  then obtain m where m: "ai_Account ai = CHR ''/'' # m @ ''/''" "m \<noteq> []"
    unfolding is_regex_pattern_iff by blast
  have "is_regex_pattern (quote_meta (ai_Account ai))" using True by (simp add: is_regex_quote)
  moreover have "regex_body (quote_meta (ai_Account ai)) = quote_meta m"
    unfolding m quote_meta_slashes by (rule regex_body_slashes)
  moreover have "regex_body (ai_Account ai) = m" unfolding m by (rule regex_body_slashes)
  ultimately show ?thesis
    using True by (simp add: matchString_replaced [OF replace_account0] regexp_match_quote)
next
  case False
  then show ?thesis
    by (simp add: matchString_replaced [OF replace_account0] is_regex_quote path_match_quote)
qed

text \<open>
  C18. The pattern \<^verbatim>\<open>${account}/*\<close> of an access list gives every account the names under its own
  prefix and no others: a name matches exactly when it is the account, a slash and a rest
  without a slash.
\<close>

theorem namespace_pattern:
  "matchString (Some ''${account}/*'') s (match_vars title mc ai) \<longleftrightarrow>
     (\<exists>rest. s = ai_Account ai @ CHR ''/'' # rest \<and> CHR ''/'' \<notin> set rest)"
proof -
  have r: "replace_all (match_vars title mc ai) ''${account}/*'' = quote_meta (ai_Account ai) @ ''/*''"
    using replace_account [of title mc ai "''/*''"] replace_copy_vars [of "''/*''"]
    by (simp del: replace_all.simps)
  have "\<not> is_regex_pattern (quote_meta (ai_Account ai) @ ''/*'')"
    by (simp add: is_regex_pattern_def nth_append)
  then show ?thesis
    by (simp add: matchString_replaced [OF r] path_match_quote_slash_star)
qed

section \<open>Decisions\<close>

lemma matchIP_stop: "matchIP p ip = Inl st \<Longrightarrow> \<exists>m. st = Panic m"
  by (auto simp: matchIP_def split: option.splits if_splits sum.splits)

lemma mc_Matches_stop: "mc_Matches title mc ai = Inl st \<Longrightarrow> \<exists>m. st = Panic m"
  by (auto simp: mc_Matches_def Let_def dest: matchIP_stop split: if_splits sum.splits)

lemma e_Matches_stop: "e_Matches title e ai = Inl st \<Longrightarrow> \<exists>m. st = Panic m"
  by (auto simp: e_Matches_def dest: mc_Matches_stop split: option.splits)

lemma entry_grant_eq:
  "entry_grant rank e ai =
     (case e_Actions e of
        None \<Rightarrow> Inl (Panic nil_deref)
      | Some as \<Rightarrow> Inr (Some (if as = [''*''] then ai_Actions ai
                            else sorted_list_of_set (set (ai_Actions ai) \<inter> set as))))"
proof -
  have "(length as = 1 \<and> as ! 0 = ''*'') = (as = [''*''])" for as :: "string list"
    by (cases as) auto
  then show ?thesis
    by (simp add: entry_grant_def StringSetIntersection_eq split: option.split)
qed

lemma acl_decide_skip:
  "\<forall>x \<in> set pre. e_Matches title x ai = Inr False \<Longrightarrow>
   acl_decide title rank (pre @ es) ai = acl_decide title rank es ai"
  by (induction pre) auto

lemma acl_decide_cases:
  obtains "\<forall>x \<in> set acl. e_Matches title x ai = Inr False"
  | pre e post where "acl = pre @ e # post" "\<forall>x \<in> set pre. e_Matches title x ai = Inr False"
      "e_Matches title e ai \<noteq> Inr False"
proof (cases "\<forall>x \<in> set acl. e_Matches title x ai = Inr False")
  case False
  then show ?thesis
    using that(2) split_list_first_prop [of acl "\<lambda>x. e_Matches title x ai \<noteq> Inr False"] by metis
qed (rule that(1))

lemma acl_decide_none:
  "\<forall>x \<in> set acl. e_Matches title x ai = Inr False \<Longrightarrow> acl_decide title rank acl ai = Inl (Err NoMatch)"
  using acl_decide_skip [of acl title ai rank "[]"] by simp

lemma acl_decide_first:
  "\<forall>x \<in> set pre. e_Matches title x ai = Inr False \<Longrightarrow> e_Matches title e ai = Inr True \<Longrightarrow>
   acl_decide title rank (pre @ e # post) ai = entry_grant rank e ai"
  by (simp add: acl_decide_skip)

lemma acl_decide_panic:
  "\<forall>x \<in> set pre. e_Matches title x ai = Inr False \<Longrightarrow> e_Matches title e ai = Inl p \<Longrightarrow>
   acl_decide title rank (pre @ e # post) ai = Inl p"
  by (simp add: acl_decide_skip)

lemma acl_decide_Inr:
  "acl_decide title rank acl ai = Inr acts \<longleftrightarrow>
     (\<exists>pre e post. acl = pre @ e # post \<and> (\<forall>x \<in> set pre. e_Matches title x ai = Inr False) \<and>
        e_Matches title e ai = Inr True \<and> entry_grant rank e ai = Inr acts)" (is "?l = ?r")
proof
  assume l: ?l
  show ?r
  proof (cases rule: acl_decide_cases [of acl title ai])
    case 1
    then show ?thesis using l by (simp add: acl_decide_none)
  next
    case (2 pre e post)
    then have "e_Matches title e ai = Inr True"
      using l acl_decide_panic [of pre title ai e _ rank post]
      by (cases "e_Matches title e ai") auto
    then show ?thesis
      using 2 l acl_decide_first [of pre title ai e rank post] by metis
  qed
qed (auto simp: acl_decide_first)

lemma entry_grant_Inr:
  "entry_grant rank e ai = Inr acts \<longleftrightarrow>
     (\<exists>as. e_Actions e = Some as \<and>
        acts = Some (if as = [''*''] then ai_Actions ai
                     else sorted_list_of_set (set (ai_Actions ai) \<inter> set as)))"
  by (cases "e_Actions e") (auto simp: entry_grant_eq)

text \<open>
  C7. The access list decides by its first matching entry: a request is granted actions exactly
  when some entry that has a list of actions matches it and no entry before does, and then it gets all
  the actions it asked for if the entry's actions are the single star, else the sorted common actions, perhaps
  none; the entries after the first match play no part.
\<close>

theorem acl_first_match:
  "fst (acl_Authorize title rank acl ai w) = Inr acts \<longleftrightarrow>
     (\<exists>pre e post as. acl = pre @ e # post \<and> (\<forall>x \<in> set pre. e_Matches title x ai = Inr False) \<and>
        e_Matches title e ai = Inr True \<and> e_Actions e = Some as \<and>
        acts = Some (if as = [''*''] then ai_Actions ai
                     else sorted_list_of_set (set (ai_Actions ai) \<inter> set as)))"
  by (simp only: acl_Authorize_def fst_conv acl_decide_Inr entry_grant_Inr ex_simps conj_assoc)

text \<open>
  The access list reports no match exactly when none of its entries matches; a request that
  no entry matches is never granted anything by the list.
\<close>

theorem acl_no_match:
  "fst (acl_Authorize title rank acl ai w) = Inl (Err NoMatch) \<longleftrightarrow>
     (\<forall>e \<in> set acl. e_Matches title e ai = Inr False)"
proof (cases rule: acl_decide_cases [of acl title ai])
  case 1
  then show ?thesis by (simp add: acl_Authorize_def acl_decide_none)
next
  case (2 pre e post)
  then have "acl_decide title rank acl ai \<noteq> Inl (Err NoMatch)"
    using e_Matches_stop [of title e ai] acl_decide_panic [of pre title ai e _ rank post]
      acl_decide_first [of pre title ai e rank post]
    by (cases "e_Matches title e ai") (auto simp: entry_grant_eq split: option.splits)
  then show ?thesis using 2 by (auto simp: acl_Authorize_def)
qed

section \<open>The access list is an authorizer\<close>

lemma entry_grant_subset: "entry_grant rank e ai = Inr acts \<Longrightarrow> set (slice_items acts) \<subseteq> set (ai_Actions ai)"
  by (auto simp: entry_grant_eq split: option.splits if_splits)

lemma acl_decide_subset:
  "acl_decide title rank acl ai = Inr acts \<Longrightarrow> set (slice_items acts) \<subseteq> set (ai_Actions ai)"
  by (induction acl) (auto split: sum.splits bool.splits dest: entry_grant_subset)

interpretation acl: authorizer "acl_Authorize title rank acl" for title rank acl
  by unfold_locales (auto simp: acl_Authorize_def dest: acl_decide_subset)

section \<open>The cartesian product\<close>

lemma iterate_product:
  "iterate t result ns = map (\<lambda>xs. result @ xs) (product_lists (t # ns))"
  by (induction t result ns rule: iterate.induct)
    (simp_all add: map_concat comp_def o_def cong: map_cong)

text \<open>
  The iterator sends every choice of one position in each list once, in
  lexicographic order with the first list varying slowest, and nothing when there is no list.
\<close>

theorem IterWithContext_product:
  "IterWithContext params = (if params = [] then [] else product_lists params)"
  by (cases params) (simp_all only: IterWithContext_def iterate_product list.simps append_Nil
      list.map_ident if_False simp_thms if_True)

lemma list_ex_product:
  "params \<noteq> [] \<Longrightarrow>
   list_ex P (IterWithContext params) \<longleftrightarrow> (\<exists>xs. list_all2 (\<lambda>x ys. x \<in> set ys) xs params \<and> P xs)"
  by (simp add: IterWithContext_product list_ex_iff product_lists_set)

text \<open>
  C27. A condition with label references matches exactly when it matches without looking at
  the labels, or some choice of one value for every label it mentions makes it match; when it
  mentions no label of the request only the first is possible, and a mentioned label
  without values can never be chosen.
\<close>

theorem label_permutation_spec:
  "matchStringWithLabelPermutations pp s vars labelMap \<longleftrightarrow>
     matchString pp s vars \<or>
     (\<exists>pat. pp = Some pat \<and> label_sets pat labelMap \<noteq> [] \<and>
        (\<exists>choice. list_all2 (\<lambda>c values. c \<in> set values) choice (label_sets pat labelMap) \<and>
           matchString pp s (vars @ choice)))"
  by (cases pp) (auto simp: matchStringWithLabelPermutations_def Let_def list_ex_product)

section \<open>Validation\<close>

lemma validateMatchConditions_ip:
  "validateMatchConditions (Some mc) = Inr None \<Longrightarrow>
   mc_IP mc = None \<or> (\<exists>p net. mc_IP mc = Some p \<and> parseIPPattern p = Inr net)"
  by (cases "mc_IP mc")
    (auto simp: validateMatchConditions_def split: option.split_asm sum.split_asm)

lemma ValidateACL_ok:
  "ValidateACL acl = Inr None \<longleftrightarrow>
     (\<forall>e \<in> set acl. validateMatchConditions (e_Match e) = Inr None)"
  by (induction acl) (auto split: sum.split option.split)

lemma mc_Matches_total:
  assumes "mc_IP mc = None \<or> (\<exists>p net. mc_IP mc = Some p \<and> parseIPPattern p = Inr net)"
  shows "\<exists>b. mc_Matches title mc ai = Inr b"
proof -
  have "\<exists>b. matchIP (mc_IP mc) (ai_IP ai) = Inr b"
    using assms by (auto simp: matchIP_def)
  then show ?thesis by (auto simp: mc_Matches_def Let_def)
qed

lemma validateMatchConditions_nil [simp]: "validateMatchConditions None = Inl (Panic nil_deref)"
  by (simp add: validateMatchConditions_def)

lemma validateMatchConditions_Inl: "validateMatchConditions m = Inl p \<longleftrightarrow> m = None \<and> p = Panic nil_deref"
  by (cases m) (auto simp: validateMatchConditions_def)

lemma validated_entry_total:
  assumes "validateMatchConditions (e_Match e) = Inr None"
  shows "\<exists>b. e_Matches title e ai = Inr b"
proof (cases "e_Match e")
  case (Some mc)
  then show ?thesis
    using assms mc_Matches_total [OF validateMatchConditions_ip, of mc title ai]
    by (simp add: e_Matches_def)
qed (use assms in simp)

lemma NewACLAuthorizer_Inr: "NewACLAuthorizer acl = Inr aa \<longleftrightarrow> aa = acl \<and> ValidateACL acl = Inr None"
  by (auto simp: NewACLAuthorizer_def split: sum.split option.split)

lemma acl_decide_Panic:
  "\<forall>e \<in> set acl. \<exists>b. e_Matches title e ai = Inr b \<Longrightarrow>
   acl_decide title rank acl ai = Inl (Panic m) \<longleftrightarrow> m = nil_deref \<and>
     first_split (\<lambda>x. e_Matches title x ai = Inr False)
       (\<lambda>e. e_Matches title e ai = Inr True \<and> e_Actions e = None) acl"
  by (induction acl) (auto simp: entry_grant_eq split: sum.split bool.split option.split)

text \<open>
  C29. An access list that passed its validation never ends the process while matching: each
  entry gives a verdict for every request, so an authorization by the list can stop
  abnormally only at a matching entry that has no actions.
\<close>

theorem validated_acl_never_fatal:
  assumes "NewACLAuthorizer acl = Inr aa"
  shows "(\<forall>e \<in> set aa. \<exists>b. e_Matches title e ai = Inr b) \<and>
    (fst (acl_Authorize title rank aa ai w) = Inl (Panic m) \<longleftrightarrow>
       m = nil_deref \<and> (\<exists>pre e post. aa = pre @ e # post \<and>
         (\<forall>x \<in> set pre. e_Matches title x ai = Inr False) \<and>
         e_Matches title e ai = Inr True \<and> e_Actions e = None))"
proof (intro conjI ballI)
  have v: "ValidateACL aa = Inr None" using assms by (simp add: NewACLAuthorizer_Inr)
  show t: "\<exists>b. e_Matches title e ai = Inr b" if "e \<in> set aa" for e
    using v that by (intro validated_entry_total) (simp add: ValidateACL_ok)
  show "(fst (acl_Authorize title rank aa ai w) = Inl (Panic m)) \<longleftrightarrow>
       m = nil_deref \<and> (\<exists>pre e post. aa = pre @ e # post \<and>
         (\<forall>x \<in> set pre. e_Matches title x ai = Inr False) \<and>
         e_Matches title e ai = Inr True \<and> e_Actions e = None)" (is "?l \<longleftrightarrow> ?r")
    using acl_decide_Panic [of aa title ai rank m] t
    by (simp add: acl_Authorize_def first_split_def)
qed

definition open_entry :: acl_entry where
  "open_entry = \<lparr>e_Match = Some any_conditions, e_Actions = None, e_Comment = None\<rparr>"

lemma open_entry_valid: "ValidateACL [open_entry] = Inr None"
  by code_simp

lemma validated_acl_never_fatal_witness:
  "\<exists>b. e_Matches id open_entry
     \<lparr>ai_Account = ''a'', ai_Type = ''repository'', ai_Name = ''n'', ai_Service = ''s'', ai_IP = [],
       ai_Actions = [''pull''], ai_Labels = [], ai_AuthenticatorData = AnyNil\<rparr> = Inr b"
proof -
  have "NewACLAuthorizer [open_entry] = Inr [open_entry]"
    by (simp only: NewACLAuthorizer_Inr open_entry_valid)
  note t = validated_acl_never_fatal [OF this, THEN conjunct1]
  have "open_entry \<in> set [open_entry]" by (rule list.set_intros)
  from bspec [OF t this] show ?thesis .
qed

lemma NewACLAuthorizer_Panic: "NewACLAuthorizer acl = Inl (Panic m) \<longleftrightarrow> ValidateACL acl = Inl (Panic m)"
  by (auto simp: NewACLAuthorizer_def split: sum.split option.split)

lemma ValidateACL_panic:
  "ValidateACL acl = Inl (Panic nil_deref) \<longleftrightarrow>
     first_split (\<lambda>x. validateMatchConditions (e_Match x) = Inr None) (\<lambda>e. e_Match e = None) acl"
proof (induction acl)
  case (Cons e es)
  then show ?case
    by (cases "validateMatchConditions (e_Match e)"; cases "e_Match e")
      (auto split: option.split simp: validateMatchConditions_Inl)
qed simp

text \<open>
  C30. Validation itself reads every entry's conditions through a pointer it does not check: the
  list is accepted exactly when every entry has conditions and they are valid, and
  construction panics exactly when an entry without conditions comes before any invalid one.
\<close>

theorem ValidateACL_result:
  "(NewACLAuthorizer acl = Inr acl \<longleftrightarrow>
      (\<forall>e \<in> set acl. \<exists>mc. e_Match e = Some mc \<and> validateMatchConditions (Some mc) = Inr None)) \<and>
   (NewACLAuthorizer acl = Inl (Panic nil_deref) \<longleftrightarrow>
      (\<exists>pre e post. acl = pre @ e # post \<and>
         (\<forall>x \<in> set pre. validateMatchConditions (e_Match x) = Inr None) \<and> e_Match e = None))"
proof
  have "validateMatchConditions m = Inr None \<longleftrightarrow>
      (\<exists>mc. m = Some mc \<and> validateMatchConditions (Some mc) = Inr None)" for m
    by (cases m) auto
  then show "NewACLAuthorizer acl = Inr acl \<longleftrightarrow>
      (\<forall>e \<in> set acl. \<exists>mc. e_Match e = Some mc \<and> validateMatchConditions (Some mc) = Inr None)"
    unfolding NewACLAuthorizer_Inr ValidateACL_ok by blast
  show "NewACLAuthorizer acl = Inl (Panic nil_deref) \<longleftrightarrow>
      (\<exists>pre e post. acl = pre @ e # post \<and>
         (\<forall>x \<in> set pre. validateMatchConditions (e_Match x) = Inr None) \<and> e_Match e = None)"
    unfolding NewACLAuthorizer_Panic ValidateACL_panic first_split_def ..
qed

definition matchless_entry :: acl_entry where
  "matchless_entry = \<lparr>e_Match = None, e_Actions = Some [''pull''], e_Comment = None\<rparr>"

lemma ValidateACL_result_witness:
  "(\<exists>mc. e_Match open_entry = Some mc \<and> validateMatchConditions (Some mc) = Inr None) \<and>
   NewACLAuthorizer [open_entry, matchless_entry] = Inl (Panic nil_deref)"
proof
  have "NewACLAuthorizer [open_entry] = Inr [open_entry]"
    by (simp only: NewACLAuthorizer_Inr open_entry_valid)
  note ok = ValidateACL_result [THEN conjunct1, THEN iffD1, OF this]
  have "open_entry \<in> set [open_entry]" by (rule list.set_intros)
  from bspec [OF ok this]
  show "\<exists>mc. e_Match open_entry = Some mc \<and> validateMatchConditions (Some mc) = Inr None" .
  have v: "\<forall>x \<in> set [open_entry]. validateMatchConditions (e_Match x) = Inr None"
    using open_entry_valid by (simp only: ValidateACL_ok)
  have m: "e_Match matchless_entry = None" by (simp add: matchless_entry_def)
  have "[open_entry, matchless_entry] = [open_entry] @ matchless_entry # []" by simp
  then show "NewACLAuthorizer [open_entry, matchless_entry] = Inl (Panic nil_deref)"
    using v m by (intro ValidateACL_result [THEN conjunct2, THEN iffD2] exI conjI)
qed

section \<open>Independence of map iteration order\<close>

text \<open>
  Go leaves the order of map iteration open. Pairs of which at most one can start at a place
  can be given to the replacer in any order.
\<close>

definition exclusive_keys :: "(string \<times> string) list \<Rightarrow> bool" where
  "exclusive_keys ps = (\<forall>p \<in> set ps. \<forall>q \<in> set ps. prefix (fst p) (fst q) \<longrightarrow> p = q)"

lemma exclusive_keysD:
  "exclusive_keys ps \<Longrightarrow> p \<in> set ps \<Longrightarrow> q \<in> set ps \<Longrightarrow> prefix (fst p) s \<Longrightarrow> prefix (fst q) s \<Longrightarrow> p = q"
  unfolding exclusive_keys_def by (metis prefix_same_cases)

lemma first_pair_append:
  "first_pair (ps @ qs) s = (case first_pair ps s of Some p \<Rightarrow> Some p | None \<Rightarrow> first_pair qs s)"
  by (induction ps s rule: first_pair.induct) auto

lemma first_pair_exclusive:
  assumes "exclusive_keys ps" "set qs = set ps"
  shows "first_pair qs s = first_pair ps s"
proof (cases "first_pair ps s")
  case None
  then have "first_pair qs s = None" using assms(2) by (simp add: first_pair_None)
  then show ?thesis using None by simp
next
  case (Some p)
  then have p: "p \<in> set ps" "fst p \<noteq> []" "prefix (fst p) s"
    using first_pair_Some [of ps s "fst p" "snd p"] by auto
  then obtain q where q: "first_pair qs s = Some q"
    using assms(2) by (cases "first_pair qs s") (auto simp: first_pair_None)
  then have "q \<in> set ps" "prefix (fst q) s"
    using first_pair_Some [of qs s "fst q" "snd q"] assms(2) by auto
  then show ?thesis using exclusive_keysD [OF assms(1)] p q Some by metis
qed

lemma replace_all_cong:
  "(\<And>s. first_pair ps s = first_pair qs s) \<Longrightarrow> replace_all ps s = replace_all qs s"
  by (induction ps s rule: replace_all.induct) (auto split: option.splits)

lemma replace_all_exclusive:
  "exclusive_keys ps \<Longrightarrow> set qs = set ps \<Longrightarrow> replace_all (vars @ qs) s = replace_all (vars @ ps) s"
  by (rule replace_all_cong) (simp add: first_pair_append first_pair_exclusive [of ps qs] split: option.split)

text \<open>Label names without a closing brace give placeholders that exclude one another.\<close>

definition plain_labels :: "labels \<Rightarrow> bool" where
  "plain_labels ls = (map_wf ls \<and> (\<forall>l \<in> fst ` set ls. CHR ''}'' \<notin> set l))"

lemma label_placeholder_inj [simp]: "label_placeholder a = label_placeholder b \<longleftrightarrow> a = b"
  by (simp add: label_placeholder_def)

lemma takeWhile_brace: "CHR ''}'' \<notin> set a \<Longrightarrow> takeWhile (\<lambda>c. c \<noteq> CHR ''}'') (a @ CHR ''}'' # t) = a"
  by (induction a) auto

lemma brace_prefix:
  assumes "CHR ''}'' \<notin> set a" "CHR ''}'' \<notin> set b"
    and "prefix (label_placeholder a) (label_placeholder b)"
  shows "a = b"
proof -
  obtain t where "b @ CHR ''}'' # [] = a @ CHR ''}'' # t"
    using assms(3) by (auto simp: label_placeholder_def prefix_def)
  then show ?thesis using takeWhile_brace assms(1,2) by metis
qed

lemma choice_keys:
  "list_all2 (\<lambda>c values. c \<in> set values) choice (label_sets pat lm) \<Longrightarrow>
   map fst choice = map fst (filter (\<lambda>(placeholder, labels). str_contains pat placeholder) lm)"
proof (induction lm arbitrary: choice)
  case (Cons p lm)
  then show ?case
    using Cons.IH [of choice] Cons.IH [of "tl choice"]
    by (cases p; cases choice) (auto simp: label_sets_def split: if_splits)
qed (simp add: label_sets_def)

lemma label_map_keys: "map fst (label_map ls) = map label_placeholder (map fst ls)"
  by (simp add: label_map_def comp_def case_prod_beta)

lemma distinct_fst_eq:
  "distinct (map fst ps) \<Longrightarrow> p \<in> set ps \<Longrightarrow> q \<in> set ps \<Longrightarrow> fst p = fst q \<Longrightarrow> p = q"
  by (metis eq_key_imp_eq_value prod.collapse)

lemma label_map_wf: "map_wf ls \<Longrightarrow> distinct (map fst (label_map ls))"
  unfolding label_map_keys map_wf_def by (simp add: distinct_map inj_on_def)

lemma choice_exclusive:
  assumes "plain_labels ls"
    and "list_all2 (\<lambda>c values. c \<in> set values) choice (label_sets pat (label_map ls))"
  shows "exclusive_keys choice"
  unfolding exclusive_keys_def
proof (intro ballI impI)
  fix p q assume p: "p \<in> set choice" and q: "q \<in> set choice" and pre: "prefix (fst p) (fst q)"
  have d: "distinct (map fst choice)"
    unfolding choice_keys [OF assms(2)]
    using label_map_wf assms(1) by (simp add: plain_labels_def distinct_map_filter)
  have "set (map fst choice) \<subseteq> set (map fst (label_map ls))"
    unfolding choice_keys [OF assms(2)] by auto
  then have sub: "set (map fst choice) \<subseteq> label_placeholder ` fst ` set ls"
    unfolding label_map_keys by (simp add: image_image)
  have "\<exists>l. fst x = label_placeholder l \<and> CHR ''}'' \<notin> set l" if "x \<in> set choice" for x
  proof -
    have "fst x \<in> label_placeholder ` fst ` set ls" using sub that by auto
    then show ?thesis using assms(1) unfolding plain_labels_def by (elim imageE [of "fst x"]) blast
  qed
  then obtain a b where "fst p = label_placeholder a" "CHR ''}'' \<notin> set a"
    "fst q = label_placeholder b" "CHR ''}'' \<notin> set b" using p q by metis
  then have "fst p = fst q" using pre brace_prefix [of a b] by simp
  then show "p = q" using distinct_fst_eq [OF d p q] by simp
qed

lemma matchString_same_vars:
  "exclusive_keys ps \<Longrightarrow> set qs = set ps \<Longrightarrow> matchString pp s (vars @ qs) = matchString pp s (vars @ ps)"
  by (simp only: matchString_def replace_all_exclusive [of ps qs vars])

lemma label_sets_perm: "mset ls' = mset ls \<Longrightarrow> mset (label_sets pat (label_map ls')) = mset (label_sets pat (label_map ls))"
  by (simp add: label_sets_def label_map_def)

lemma permutations_half:
  assumes "plain_labels ls" "mset ls' = mset ls"
    and "matchStringWithLabelPermutations pp s vars (label_map ls)"
  shows "matchStringWithLabelPermutations pp s vars (label_map ls')"
proof (cases "matchString pp s vars")
  case False
  then obtain pat choice where pat: "pp = Some pat" "label_sets pat (label_map ls) \<noteq> []"
    and c: "list_all2 (\<lambda>c values. c \<in> set values) choice (label_sets pat (label_map ls))"
    and m: "matchString pp s (vars @ choice)"
    using assms(3) unfolding label_permutation_spec by blast
  let ?s = "label_sets pat (label_map ls)" and ?s' = "label_sets pat (label_map ls')"
  have "mset ?s' = mset ?s" using label_sets_perm [OF assms(2)] .
  moreover have "list_all2 (\<lambda>values c. c \<in> set values) ?s choice"
    using c by (simp add: list_all2_conv_all_nth)
  ultimately obtain choice' where c': "list_all2 (\<lambda>values c. c \<in> set values) ?s' choice'"
    "mset choice' = mset choice"
    using list_all2_reorder_left_invariance by blast
  have "matchString pp s (vars @ choice')"
    using m matchString_same_vars [OF choice_exclusive [OF assms(1) c]] mset_eq_setD [OF c'(2)] by blast
  moreover have "list_all2 (\<lambda>c values. c \<in> set values) choice' ?s'"
    using c'(1) by (simp add: list_all2_conv_all_nth)
  moreover have "?s' \<noteq> []" using pat(2) \<open>mset ?s' = mset ?s\<close> by auto
  ultimately show ?thesis using pat(1) unfolding label_permutation_spec by blast
qed (simp add: label_permutation_spec)

lemma permutations_perm:
  assumes "plain_labels ls" "mset ls' = mset ls"
  shows "matchStringWithLabelPermutations pp s vars (label_map ls') =
         matchStringWithLabelPermutations pp s vars (label_map ls)"
proof -
  have "plain_labels ls'" using assms mset_eq_setD [OF assms(2)] map_wf_perm [of ls ls']
    by (simp add: plain_labels_def)
  then show ?thesis using permutations_half assms by metis
qed

lemma matchLabels_perm:
  assumes "map_wf rl" "mset rl' = mset rl" "mset ml' = mset ml"
  shows "matchLabels ml' rl' vars = matchLabels ml rl vars"
  using map_of_perm [OF assms(1) assms(2) [symmetric]] mset_eq_setD [OF assms(3)]
  by (simp add: matchLabels_def map_get_def list_all_iff)

text \<open>
  C28. The verdict of an entry does not depend on the order in which Go ranges over the maps
  involved, the labels of the request and the label conditions of the entry, as long as no
  label name holds a closing brace.
\<close>

theorem mc_Matches_map_order:
  assumes "plain_labels (ai_Labels ai)"
    and "mset ls = mset (ai_Labels ai)" and "mset ml = mset (mc_Labels mc)"
  shows "mc_Matches title (mc\<lparr>mc_Labels := ml\<rparr>) (ai\<lparr>ai_Labels := ls\<rparr>) = mc_Matches title mc ai"
proof -
  have f: "getField_mc (mc\<lparr>mc_Labels := ml\<rparr>) = getField_mc mc"
    "getField_ai (ai\<lparr>ai_Labels := ls\<rparr>) = getField_ai ai"
    by (simp_all add: getField_mc_def getField_ai_def fun_eq_iff)
  have "capture_var title (mc\<lparr>mc_Labels := ml\<rparr>) (ai\<lparr>ai_Labels := ls\<rparr>) = capture_var title mc ai"
    by (rule ext) (simp only: capture_var_def f)
  then have v: "match_vars title (mc\<lparr>mc_Labels := ml\<rparr>) (ai\<lparr>ai_Labels := ls\<rparr>) = match_vars title mc ai"
    by (simp add: match_vars_def capture_vars_def base_vars_def f)
  have "map_wf (ai_Labels ai)" using assms(1) by (simp add: plain_labels_def)
  note l = matchLabels_perm [OF this assms(2,3)]
  show ?thesis
    by (simp add: mc_Matches_def v Let_def permutations_perm [OF assms(1,2)] l split: sum.split)
qed

definition two_labels :: auth_request_info where
  "two_labels = \<lparr>ai_Account = ''a'', ai_Type = ''repository'', ai_Name = ''ops/app'', ai_Service = ''s'',
     ai_IP = [], ai_Actions = [''pull''], ai_Labels = [(''group'', [''dev'', ''ops'']), (''site'', [''x''])],
     ai_AuthenticatorData = AnyNil\<rparr>"

lemma mc_Matches_map_order_witness:
  "mc_Matches id (any_conditions\<lparr>mc_Name := Some ''${labels:group}/*'', mc_Labels := []\<rparr>)
     (two_labels\<lparr>ai_Labels := [(''site'', [''x'']), (''group'', [''dev'', ''ops''])]\<rparr>) =
   mc_Matches id (any_conditions\<lparr>mc_Name := Some ''${labels:group}/*''\<rparr>) two_labels"
  by (rule mc_Matches_map_order)
    (simp_all add: two_labels_def plain_labels_def map_wf_def any_conditions_def)

text \<open>
  With a closing brace in a label name one placeholder can be the start of another, and then
  the verdict does depend on the order of the map.
\<close>

lemma brace_label_order:
  "matchStringWithLabelPermutations (Some ''${labels:a}b}'') ''y'' []
     (label_map [(''a}b'', [''y'']), (''a'', [''x''])])"
  "\<not> matchStringWithLabelPermutations (Some ''${labels:a}b}'') ''y'' []
     (label_map [(''a'', [''x'']), (''a}b'', [''y''])])"
  by code_simp+

section \<open>Addresses\<close>

text \<open>
  An address condition that names one address matches the requests from that address and
  no others; an IPv4 address and its IPv4-in-IPv6 form count as the same address.
\<close>

theorem single_address_condition:
  assumes "parse_ip p = Some a"
  shows "matchIP (Some p) ip = Inr (canon ip = canon a)"
proof -
  have a: "length a = 16" using length_parse_ip [OF assms] .
  have "canon [] \<noteq> canon a"
    using canon_length [OF a] a by (auto simp: canon_def to4_def)
  moreover have "parseIPPattern p = Inr \<lparr>net_ip = a,
      net_mask = (if to4 a \<noteq> None then cidr_mask 32 32 else cidr_mask 128 128)\<rparr>"
    using assms by (simp add: parseIPPattern_def)
  ultimately show ?thesis using contains_single [OF a] by (simp add: matchIP_def)
qed

lemma single_address_condition_witness:
  "matchIP (Some ''10.1.2.3'') (v4_in_v6_prefix @ [10, 1, 2, 3]) = Inr True \<and>
   matchIP (Some ''10.1.2.3'') [10, 1, 2, 4] = Inr False"
proof -
  have "parse_ip ''10.1.2.3'' = Some (v4_in_v6_prefix @ [10, 1, 2, 3])" by code_simp
  note m = single_address_condition [OF this]
  show ?thesis unfolding m by code_simp
qed

text \<open>
  C31. An address condition in CIDR notation over IPv4 matches the requests from IPv4 addresses
  that agree with the network on the leading bits the prefix length counts, and no others.
\<close>

theorem cidr_condition:
  assumes "cut_at CHR ''/'' p = Some (addr, msk)" and "parse_addr addr = Some a"
    and "length a = 4" and "prefix_len msk = Some n" and "n \<le> 32"
  shows "matchIP (Some p) ip =
    Inr (length (canon ip) = 4 \<and> take n (ip_bits (canon ip)) = take n (ip_bits a))"
proof -
  have "parse_ip p = None" using cut_at_slash [OF assms(1)] by (rule parse_ip_slash)
  then have "parseIPPattern p = Inr \<lparr>net_ip = and_bytes a (mask_bytes n 4), net_mask = mask_bytes n 4\<rparr>"
    using parse_cidr_ok [OF assms(1,2,4,3,5)] by (simp add: parseIPPattern_def)
  then show ?thesis
    using contains_v4 [OF assms(3,5), of ip]
    by (simp add: matchIP_def canon_def to4_def)
qed

lemma cidr_condition_witness:
  "matchIP (Some ''10.1.0.0/12'') [10, 15, 2, 3] = Inr True \<and>
   matchIP (Some ''10.1.0.0/12'') [10, 16, 0, 0] = Inr False"
proof -
  have "cut_at CHR ''/'' ''10.1.0.0/12'' = Some (''10.1.0.0'', ''12'')" by code_simp
  moreover have "parse_addr ''10.1.0.0'' = Some [10, 1, 0, 0]" by code_simp
  moreover have "prefix_len ''12'' = Some 12" by code_simp
  ultimately have m: "matchIP (Some ''10.1.0.0/12'') ip =
      Inr (length (canon ip) = 4 \<and> take 12 (ip_bits (canon ip)) = take 12 (ip_bits [10, 1, 0, 0]))" for ip
    by (intro cidr_condition) simp_all
  show ?thesis unfolding m by code_simp
qed

definition star_entry :: acl_entry where
  "star_entry = \<lparr>e_Match = Some any_conditions, e_Actions = Some [''*''], e_Comment = None\<rparr>"

lemma star_entry_matches: "e_Matches id star_entry two_labels = Inr True"
  by code_simp

definition bob_entry :: acl_entry where
  "bob_entry = \<lparr>e_Match = Some (any_conditions\<lparr>mc_Account := Some ''bob''\<rparr>), e_Actions = Some [''*''],
     e_Comment = None\<rparr>"

lemma bob_entry_no_match: "e_Matches id bob_entry two_labels = Inr False"
  by code_simp

lemma acl_first_match_witness:
  "fst (acl_Authorize id (\<lambda>_ _. 0) [bob_entry, star_entry] two_labels ()) = Inr (Some [''pull''])"
proof -
  have "[bob_entry, star_entry] = [bob_entry] @ star_entry # []"
    "\<forall>x \<in> set [bob_entry]. e_Matches id x two_labels = Inr False"
    using bob_entry_no_match by simp_all
  moreover have "e_Actions star_entry = Some [''*'']" by (simp add: star_entry_def)
  moreover have "Some [''pull''] = Some (if [''*''] = [''*''] then ai_Actions two_labels
      else sorted_list_of_set (set (ai_Actions two_labels) \<inter> set [''*'']))"
    by (simp add: two_labels_def)
  ultimately show ?thesis
    using star_entry_matches by (intro acl_first_match [THEN iffD2] exI conjI)
qed

lemma acl_no_match_witness:
  "fst (acl_Authorize id (\<lambda>_ _. 0) [bob_entry] two_labels ()) = Inl (Err NoMatch)"
  by (rule acl_no_match [THEN iffD2]) (simp add: bob_entry_no_match)

end
