(* ===== verification/Authz_Iter.thy ===== *)
theory Authz_Iter
  imports Authz_ACL
begin

text \<open>
  \<^verbatim>\<open>authz/acl.go\<close>: \<^verbatim>\<open>IterWithContext\<close> and \<^verbatim>\<open>iterate\<close> as the goroutine they are, beside the loop of
  \<^verbatim>\<open>matchStringWithLabelPermutations\<close> that receives from its channel and cancels its context
  when it returns. The slices live in a store of arrays, because the prefixes that
  \<^verbatim>\<open>iterate\<close> extends with \<^verbatim>\<open>append\<close> share their arrays. The lists sent by the functions of
  \<open>Authz_ACL\<close> are what every interleaving of the two delivers; the goroutine always ends.
\<close>

section \<open>Slices in a store of arrays\<close>

text \<open>
  A slice is the address of an array and a length. \<^verbatim>\<open>append\<close> writes in place while the
  capacity, the length of the array, suffices, and copies to a new array otherwise, whose
  capacity exceeds the need by \<open>extra\<close>, which the language leaves open. \<open>nil\<close> is the zero
  value of the items.
\<close>

type_synonym go_slice = "nat \<times> nat"

definition slice_items :: "'a list list \<Rightarrow> go_slice \<Rightarrow> 'a list" where
  "slice_items h r = take (snd r) (h ! fst r)"

definition slice_valid :: "'a list list \<Rightarrow> go_slice \<Rightarrow> bool" where
  "slice_valid h r = (fst r < length h \<and> snd r \<le> length (h ! fst r))"

definition new_slice :: "'a list list \<Rightarrow> 'a list list \<times> go_slice" where
  "new_slice h = (h @ [[]], (length h, 0))"

definition append_items ::
  "(nat \<Rightarrow> nat) \<Rightarrow> 'a \<Rightarrow> 'a list list \<Rightarrow> go_slice \<Rightarrow> 'a list \<Rightarrow> 'a list list \<times> go_slice" where
  "append_items extra nil h r xs =
     (let a = fst r; n = snd r; arr = h ! a; m = n + length xs in
      if m \<le> length arr then (h[a := take n arr @ xs @ drop m arr], (a, m))
      else (h @ [take n arr @ xs @ replicate (extra m) nil], (length h, m)))"

lemma append_items_result:
  assumes "slice_valid h r" "append_items extra nil h r xs = (h', r')"
  shows "slice_valid h' r'" "slice_items h' r' = slice_items h r @ xs" "length h \<le> length h'"
    "fst r' = fst r \<or> fst r' = length h" "snd r' = snd r + length xs"
  using assms by (auto simp: append_items_def slice_valid_def slice_items_def Let_def nth_append
      split: if_splits)

lemma append_items_frame:
  assumes "slice_valid h q" "append_items extra nil h r xs = (h', r')" "fst q \<noteq> fst r \<or> snd q \<le> snd r"
  shows "slice_valid h' q" "slice_items h' q = slice_items h q"
  using assms by (cases "fst q = fst r";
    auto simp: append_items_def slice_valid_def slice_items_def Let_def nth_append min_absorb1 split: if_splits)+

lemma new_slice_result:
  assumes "new_slice h = (h', e)"
  shows "slice_valid h' e" "slice_items h' e = []" "fst e = length h" "snd e = 0" "length h' = Suc (length h)"
    and "slice_valid h q \<Longrightarrow> slice_valid h' q" "slice_valid h q \<Longrightarrow> slice_items h' q = slice_items h q"
  using assms by (auto simp: new_slice_def slice_valid_def slice_items_def nth_append)

section \<open>The goroutine and its consumer\<close>

text \<open>
  A frame is an activation of \<^verbatim>\<open>iterate\<close>: the items of \<^verbatim>\<open>topLevel\<close> still to come, its slice
  \<^verbatim>\<open>result\<close> and its \<^verbatim>\<open>needUnpacking\<close>. A state holds the store, the frames, the innermost
  first, whether the channel is closed, whether the context is cancelled, and what the
  consumer does. The channel has no buffer: sending is a step of both sides. The operand of a
  send is evaluated when the \<^verbatim>\<open>select\<close> is entered, while the consumer may still be reading
  the previous one; it is the offer of the state until it is taken or the context is
  cancelled.
\<close>

datatype 'v consumer = Waiting | Testing 'v | Returned bool

type_synonym ('a, 'r) frame = "'a list \<times> 'r \<times> 'a list list"
type_synonym 'a iter_state =
  "'a list list \<times> ('a, go_slice) frame list \<times> go_slice option \<times> bool \<times> bool \<times> go_slice consumer"

definition iter_start :: "'a list list \<Rightarrow> 'a iter_state" where
  "iter_start params =
     (case params of
        [] \<Rightarrow> ([], [], None, True, False, Waiting)
      | p # ps \<Rightarrow> (let (h, e) = new_slice [] in (h, [(p, e, ps)], None, False, False, Waiting)))"

inductive iter_step :: "(nat \<Rightarrow> nat) \<Rightarrow> 'a \<Rightarrow> ('a list \<Rightarrow> bool) \<Rightarrow> 'a iter_state \<Rightarrow> 'a iter_state \<Rightarrow> bool"
  for extra nil P where
  it_descend: "append_items extra nil h r [p] = (h', r') \<Longrightarrow>
    iter_step extra nil P (h, (p # ps, r, n # ns) # fs, None, closed, False, c)
      (h', (n, r', ns) # (ps, r, n # ns) # fs, None, closed, False, c)"
| it_offer: "new_slice h = (h1, e) \<Longrightarrow> append_items extra nil h1 e (slice_items h1 r) = (h2, e') \<Longrightarrow>
    append_items extra nil h2 e' [p] = (h3, v) \<Longrightarrow>
    iter_step extra nil P (h, (p # ps, r, []) # fs, None, closed, cancelled, c)
      (h3, (p # ps, r, []) # fs, Some v, closed, cancelled, c)"
| it_send: "iter_step extra nil P (h, (p # ps, r, []) # fs, Some v, closed, cancelled, Waiting)
    (h, (ps, r, []) # fs, None, closed, cancelled, Testing v)"
| it_done: "iter_step extra nil P (h, (p # ps, r, []) # fs, Some v, closed, True, c) (h, fs, None, closed, True, c)"
| it_skip: "iter_step extra nil P (h, (p # ps, r, n # ns) # fs, None, closed, True, c) (h, fs, None, closed, True, c)"
| it_return: "iter_step extra nil P (h, ([], r, ns) # fs, None, closed, cancelled, c)
    (h, fs, None, closed, cancelled, c)"
| it_close: "iter_step extra nil P (h, [], None, False, cancelled, c) (h, [], None, True, cancelled, c)"
| co_match: "P (slice_items h v) \<Longrightarrow>
    iter_step extra nil P (h, fs, offer, closed, cancelled, Testing v) (h, fs, offer, closed, True, Returned True)"
| co_next: "\<not> P (slice_items h v) \<Longrightarrow>
    iter_step extra nil P (h, fs, offer, closed, cancelled, Testing v) (h, fs, offer, closed, cancelled, Waiting)"
| co_closed: "iter_step extra nil P (h, fs, offer, True, cancelled, Waiting)
    (h, fs, offer, True, True, Returned False)"

inductive_cases iter_stepE: "iter_step extra nil P st st'"

text \<open>The same steps on the lists that the slices stand for.\<close>

type_synonym 'a list_state = "('a, 'a list) frame list \<times> 'a list option \<times> bool \<times> bool \<times> 'a list consumer"

inductive list_step :: "('a list \<Rightarrow> bool) \<Rightarrow> 'a list_state \<Rightarrow> 'a list_state \<Rightarrow> bool" for P where
  ls_descend: "list_step P ((p # ps, r, n # ns) # fs, None, closed, False, c)
    ((n, r @ [p], ns) # (ps, r, n # ns) # fs, None, closed, False, c)"
| ls_offer: "list_step P ((p # ps, r, []) # fs, None, closed, cancelled, c)
    ((p # ps, r, []) # fs, Some (r @ [p]), closed, cancelled, c)"
| ls_send: "list_step P ((p # ps, r, []) # fs, Some v, closed, cancelled, Waiting)
    ((ps, r, []) # fs, None, closed, cancelled, Testing v)"
| ls_done: "list_step P ((p # ps, r, []) # fs, Some v, closed, True, c) (fs, None, closed, True, c)"
| ls_skip: "list_step P ((p # ps, r, n # ns) # fs, None, closed, True, c) (fs, None, closed, True, c)"
| ls_return: "list_step P (([], r, ns) # fs, None, closed, cancelled, c) (fs, None, closed, cancelled, c)"
| ls_close: "list_step P ([], None, False, cancelled, c) ([], None, True, cancelled, c)"
| ls_match: "P v \<Longrightarrow> list_step P (fs, offer, closed, cancelled, Testing v) (fs, offer, closed, True, Returned True)"
| ls_next: "\<not> P v \<Longrightarrow> list_step P (fs, offer, closed, cancelled, Testing v) (fs, offer, closed, cancelled, Waiting)"
| ls_closed: "list_step P (fs, offer, True, cancelled, Waiting) (fs, offer, True, True, Returned False)"

inductive_cases list_stepE: "list_step P st st'"

section \<open>The store implements the lists\<close>

fun abs_state :: "'a iter_state \<Rightarrow> 'a list_state" where
  "abs_state (h, fs, offer, closed, cancelled, c) =
     (map (\<lambda>(t, r, ns). (t, slice_items h r, ns)) fs, map_option (slice_items h) offer, closed, cancelled,
      map_consumer (slice_items h) c)"

text \<open>
  The prefixes of the frames never grow from the innermost outwards, so an \<^verbatim>\<open>append\<close> in place
  writes behind all of them; the slices offered and read by the consumer are in arrays of
  their own.
\<close>

definition frame_slice :: "('a, 'r) frame \<Rightarrow> 'r" where
  "frame_slice f = fst (snd f)"

definition apart :: "'a list list \<Rightarrow> ('a, go_slice) frame list \<Rightarrow> go_slice \<Rightarrow> bool" where
  "apart h fs v = (slice_valid h v \<and> (\<forall>f \<in> set fs. fst (frame_slice f) \<noteq> fst v))"

fun store_ok :: "'a iter_state \<Rightarrow> bool" where
  "store_ok (h, fs, offer, closed, cancelled, c) =
     ((\<forall>f \<in> set fs. slice_valid h (frame_slice f)) \<and>
      sorted_wrt (\<lambda>f g. snd (frame_slice g) \<le> snd (frame_slice f)) fs \<and>
      (\<forall>v. offer = Some v \<longrightarrow> apart h fs v) \<and> (\<forall>v. c = Testing v \<longrightarrow> apart h fs v))"

lemma map_consumer_eqI: "(\<And>v. c = Testing v \<Longrightarrow> f v = g v) \<Longrightarrow> map_consumer f c = map_consumer g c"
  by (cases c) simp_all

lemma abs_frames_eqI:
  "(\<And>f. f \<in> set fs \<Longrightarrow> slice_items h' (frame_slice f) = slice_items h (frame_slice f)) \<Longrightarrow>
   map (\<lambda>(t, r, ns). (t, slice_items h' r, ns)) fs = map (\<lambda>(t, r, ns). (t, slice_items h r, ns)) fs"
  by (auto simp: frame_slice_def)

lemma descend_simulation:
  assumes app: "append_items extra nil h r [p] = (h', r')"
    and ok: "store_ok (h, (p # ps, r, n # ns) # fs, None, closed, False, c)"
  shows "store_ok (h', (n, r', ns) # (ps, r, n # ns) # fs, None, closed, False, c) \<and>
    list_step P (abs_state (h, (p # ps, r, n # ns) # fs, None, closed, False, c))
      (abs_state (h', (n, r', ns) # (ps, r, n # ns) # fs, None, closed, False, c))"
proof -
  have r: "slice_valid h r" using ok by (simp add: frame_slice_def)
  note res = append_items_result [OF r app]
  have kept: "slice_valid h' (frame_slice f) \<and> slice_items h' (frame_slice f) = slice_items h (frame_slice f)"
    if "f \<in> set fs" for f
    using append_items_frame [OF _ app] ok that by (auto simp: frame_slice_def)
  have r': "slice_valid h' r \<and> slice_items h' r = slice_items h r"
    using append_items_frame [OF r app] by simp
  have v: "slice_valid h' v \<and> slice_items h' v = slice_items h v \<and> fst v \<noteq> fst r'" if "c = Testing v" for v
    using append_items_frame [OF _ app, of v] ok that res(4) by (auto simp: frame_slice_def slice_valid_def apart_def)
  have fs: "map (\<lambda>(t, r, ns). (t, slice_items h' r, ns)) fs = map (\<lambda>(t, r, ns). (t, slice_items h r, ns)) fs"
    using kept by (intro abs_frames_eqI) simp
  have c: "map_consumer (slice_items h') c = map_consumer (slice_items h) c" using v by (intro map_consumer_eqI) simp
  have "store_ok (h', (n, r', ns) # (ps, r, n # ns) # fs, None, closed, False, c)"
    using ok kept r' res(1,5) v by (auto simp: frame_slice_def apart_def)
  then show ?thesis using fs c r' res(2) by (simp add: list_step.simps)
qed

lemma offer_simulation:
  assumes new: "new_slice h = (h1, e)" and a1: "append_items extra nil h1 e (slice_items h1 r) = (h2, e')"
    and a2: "append_items extra nil h2 e' [p] = (h3, v)"
    and ok: "store_ok (h, (p # ps, r, []) # fs, None, closed, cancelled, c)"
  shows "store_ok (h3, (p # ps, r, []) # fs, Some v, closed, cancelled, c) \<and>
    list_step P (abs_state (h, (p # ps, r, []) # fs, None, closed, cancelled, c))
      (abs_state (h3, (p # ps, r, []) # fs, Some v, closed, cancelled, c))"
proof -
  note n = new_slice_result [OF new]
  note s1 = append_items_result [OF n(1) a1]
  note s2 = append_items_result [OF s1(1) a2]
  have kept: "slice_valid h3 q \<and> slice_items h3 q = slice_items h q \<and> fst q \<noteq> fst v"
    if q: "slice_valid h q" for q
  proof -
    have "fst q < length h" using q by (simp add: slice_valid_def)
    then have "fst q \<noteq> fst e" "fst q \<noteq> fst e'" "fst q \<noteq> fst v" using n(3,5) s1(3,4) s2(4) by auto
    then show ?thesis
      using n(6,7) [OF q] append_items_frame [OF _ a1, of q] append_items_frame [OF _ a2, of q] by simp
  qed
  have r: "slice_valid h r" and fs: "\<And>f. f \<in> set fs \<Longrightarrow> slice_valid h (frame_slice f)"
    and c: "\<And>w. c = Testing w \<Longrightarrow> slice_valid h w"
    using ok by (auto simp: frame_slice_def apart_def)
  have "map (\<lambda>(t, r, ns). (t, slice_items h3 r, ns)) fs = map (\<lambda>(t, r, ns). (t, slice_items h r, ns)) fs"
    using kept fs by (intro abs_frames_eqI) simp
  moreover have "map_consumer (slice_items h3) c = map_consumer (slice_items h) c"
    using kept c by (intro map_consumer_eqI) simp
  moreover have "slice_items h3 v = slice_items h r @ [p]" using s2(2) s1(2) n(2,7) r by simp
  moreover have "store_ok (h3, (p # ps, r, []) # fs, Some v, closed, cancelled, c)"
    using ok kept fs r c s2(1) by (auto simp: frame_slice_def apart_def)
  ultimately show ?thesis using kept [OF r] by (simp add: list_step.simps)
qed

lemma step_simulation:
  "iter_step extra nil P st st' \<Longrightarrow> store_ok st \<Longrightarrow>
   store_ok st' \<and> list_step P (abs_state st) (abs_state st')"
proof (induction rule: iter_step.induct)
  case it_descend
  then show ?case by (rule descend_simulation)
next
  case it_offer
  then show ?case by (rule offer_simulation)
qed (auto simp: list_step.simps frame_slice_def apart_def)

lemma start_ok: "store_ok (iter_start params)"
  by (cases params) (simp_all add: iter_start_def new_slice_def slice_valid_def frame_slice_def)

definition list_start :: "'a list list \<Rightarrow> 'a list_state" where
  "list_start params =
     (case params of
        [] \<Rightarrow> ([], None, True, False, Waiting)
      | p # ps \<Rightarrow> ([(p, [], ps)], None, False, False, Waiting))"

lemma abs_start: "abs_state (iter_start params) = list_start params"
  by (cases params) (simp_all add: iter_start_def list_start_def new_slice_def slice_items_def)

lemma run_simulation:
  "(iter_step extra nil P)\<^sup>*\<^sup>* (iter_start params) st \<Longrightarrow>
   store_ok st \<and> (list_step P)\<^sup>*\<^sup>* (list_start params) (abs_state st)"
proof (induction rule: rtranclp_induct)
  case base
  show ?case using start_ok by (simp add: abs_start)
next
  case (step st st')
  then show ?case using step_simulation [OF step.hyps(2)] by (meson rtranclp.rtrancl_into_rtrancl)
qed

section \<open>What the consumer answers\<close>

fun pending :: "('a, 'a list) frame list \<Rightarrow> 'a list list" where
  "pending fs = concat (map (\<lambda>(t, r, ns). iterate t r ns) fs)"

text \<open>
  As long as the consumer has not answered, the item under test and the items still to be sent
  decide; afterwards its answer does, and the context is cancelled.
\<close>

fun answer_ok :: "('a list \<Rightarrow> bool) \<Rightarrow> bool \<Rightarrow> 'a list_state \<Rightarrow> bool" where
  "answer_ok P found (fs, offer, closed, cancelled, c) =
     ((closed \<longrightarrow> fs = []) \<and>
      (\<forall>v. offer = Some v \<longrightarrow> (\<exists>p ps r fs'. fs = (p # ps, r, []) # fs' \<and> v = r @ [p])) \<and>
      (case c of
         Waiting \<Rightarrow> \<not> cancelled \<and> (found \<longleftrightarrow> list_ex P (pending fs))
       | Testing v \<Rightarrow> \<not> cancelled \<and> (found \<longleftrightarrow> P v \<or> list_ex P (pending fs))
       | Returned b \<Rightarrow> cancelled \<and> b = found))"

lemma answer_ok_offer:
  "answer_ok P found (fs, Some v, closed, cancelled, c) \<Longrightarrow> \<exists>p ps r fs'. fs = (p # ps, r, []) # fs'"
  by (cases fs) auto

lemma abs_offer:
  "answer_ok P found (abs_state (h, fs, Some v, closed, cancelled, c)) \<Longrightarrow> \<exists>p ps r fs'. fs = (p # ps, r, []) # fs'"
proof -
  assume "answer_ok P found (abs_state (h, fs, Some v, closed, cancelled, c))"
  then have "\<exists>p ps r fs'. map (\<lambda>(t, r, ns). (t, slice_items h r, ns)) fs = (p # ps, r, []) # fs'"
    by (simp only: abs_state.simps option.map answer_ok_offer)
  then show ?thesis by (cases fs) auto
qed

lemma iterate_Nil [simp]: "iterate [] r ns = []"
  by (cases ns) simp_all

lemma list_step_answer: "list_step P st st' \<Longrightarrow> answer_ok P found st \<Longrightarrow> answer_ok P found st'"
  by (induction rule: list_step.induct) (auto split: consumer.splits)

lemma start_answer: "answer_ok P (list_ex P (IterWithContext params)) (list_start params)"
  by (cases params) (simp_all add: list_start_def IterWithContext_def)

lemma run_answer:
  assumes "(iter_step extra nil P)\<^sup>*\<^sup>* (iter_start params) st"
  shows "answer_ok P (list_ex P (IterWithContext params)) (abs_state st)"
proof -
  have "(list_step P)\<^sup>*\<^sup>* (list_start params) (abs_state st)" using run_simulation [OF assms] by simp
  then show ?thesis by (induction rule: rtranclp_induct) (simp_all add: start_answer list_step_answer)
qed

section \<open>Termination and progress\<close>

fun level_cost :: "'a list \<Rightarrow> 'a list list \<Rightarrow> nat" where
  "level_cost t [] = 3 * length t + 1"
| "level_cost t (n # ns) = length t * (1 + level_cost n ns) + 1"

fun consumer_cost :: "'v consumer \<Rightarrow> nat" where
  "consumer_cost Waiting = 1"
| "consumer_cost (Testing v) = 2"
| "consumer_cost (Returned b) = 0"

fun iter_cost :: "'a iter_state \<Rightarrow> nat" where
  "iter_cost (h, fs, offer, closed, cancelled, c) =
     sum_list (map (\<lambda>(t, r, ns). level_cost t ns) fs) + of_bool (offer = None) + of_bool (\<not> closed) +
     consumer_cost c"

lemma level_cost_pos [simp]: "0 < level_cost t ns"
  by (cases ns) simp_all

lemma iter_step_cost: "iter_step extra nil P st st' \<Longrightarrow> iter_cost st' < iter_cost st"
  by (induction rule: iter_step.induct) simp_all

lemma run_cost: "(iter_step extra nil P ^^ n) st st' \<Longrightarrow> n + iter_cost st' \<le> iter_cost st"
proof (induction n arbitrary: st')
  case (Suc n)
  then obtain u where u: "(iter_step extra nil P ^^ n) st u" "iter_step extra nil P u st'" by auto
  show ?case using Suc.IH [OF u(1)] iter_step_cost [OF u(2)] by simp
qed simp

lemma producer_progress:
  "\<exists>st'. iter_step extra nil P (h, f # fs, None, closed, cancelled, c) st'"
proof -
  obtain t r ns where f: "f = (t, r, ns)" by (cases f)
  show ?thesis
  proof (cases t)
    case Nil
    show ?thesis unfolding f Nil by (rule exI, rule it_return)
  next
    case t: (Cons p ps)
    show ?thesis
    proof (cases ns)
      case Nil
      show ?thesis unfolding f t Nil by (rule exI, rule it_offer) (rule prod.collapse [symmetric])+
    next
      case (Cons n ns')
      show ?thesis
      proof (cases cancelled)
        case True
        then have ca: "cancelled = True" by simp
        show ?thesis unfolding f t Cons ca by (rule exI, rule it_skip)
      next
        case False
        then have ca: "cancelled = False" by simp
        show ?thesis unfolding f t Cons ca by (rule exI, rule it_descend, rule prod.collapse [symmetric])
      qed
    qed
  qed
qed

lemma goroutine_progress:
  assumes "fs \<noteq> [] \<or> \<not> closed"
  shows "\<exists>st'. iter_step extra nil P (h, fs, None, closed, cancelled, c) st'"
proof (cases fs)
  case Nil
  then have "closed = False" using assms by simp
  then show ?thesis using it_close unfolding Nil by metis
next
  case (Cons f fs')
  then show ?thesis using producer_progress by simp
qed

lemma iter_progress:
  assumes "answer_ok P found (abs_state st)" and "\<nexists>b h. st = (h, [], None, True, True, Returned b)"
  shows "\<exists>st'. iter_step extra nil P st st'"
proof -
  obtain h fs offer closed cancelled c where st: "st = (h, fs, offer, closed, cancelled, c)" by (cases st)
  show ?thesis
  proof (cases c)
    case (Testing v)
    then show ?thesis using co_match [of P h v] co_next [of P h v] unfolding st by blast
  next
    case c: Waiting
    show ?thesis
    proof (cases "closed \<or> offer \<noteq> None")
      case True
      then show ?thesis using assms(1) co_closed it_send unfolding st c by fastforce
    next
      case False
      then have "offer = None" "\<not> closed" by (cases offer; simp)+
      then show ?thesis using goroutine_progress unfolding st by metis
    qed
  next
    case (Returned b)
    have ca: "cancelled = True" using assms(1) st Returned by simp
    show ?thesis
    proof (cases offer)
      case None
      then have "fs \<noteq> [] \<or> \<not> closed" using assms(2) unfolding st Returned ca by simp
      then show ?thesis using goroutine_progress unfolding st None by metis
    next
      case (Some v)
      obtain p ps r fs' where fs: "fs = (p # ps, r, []) # fs'"
        using abs_offer [OF assms(1) [unfolded st Some]] by (elim exE)
      show ?thesis unfolding st fs Some ca by (rule exI, rule it_done)
    qed
  qed
qed

lemma iter_final: "\<not> iter_step extra nil P (h, [], None, True, True, Returned b) st'"
  by (auto elim: iter_stepE)

text \<open>A complete run on one list of one item.\<close>

lemma item_offered:
  "iter_step (\<lambda>_. 0) 0 P (iter_start [[1 :: nat]]) ([[], [], [1]], [([1], (0, 0), [])], Some (2, 1), False, False, Waiting)"
  unfolding iter_start_def new_slice_def list.case Let_def prod.case append_Nil list.size
  by (rule it_offer [where ?h1.0 = "[[], []]" and ?h2.0 = "[[], []]" and e = "(1, 0)" and e' = "(1, 0)"])
    (simp_all add: new_slice_def append_items_def slice_items_def Let_def)

lemma item_sent:
  "(iter_step (\<lambda>_. 0) 0 P ^^ Suc (Suc 0)) (iter_start [[1 :: nat]])
     ([[], [], [1]], [([], (0, 0), [])], None, False, False, Testing (2, 1))"
  by (rule relpowp_Suc_I, rule relpowp_Suc_I, rule relpowp_0_I, rule item_offered, rule it_send)

lemma complete_run:
  "(iter_step (\<lambda>_. 0) 0 (\<lambda>c. c = [1]))\<^sup>*\<^sup>* (iter_start [[1 :: nat]])
     ([[], [], [1]], [], None, True, True, Returned True)"
proof -
  let ?step = "iter_step (\<lambda>_. 0) 0 (\<lambda>c. c = [1 :: nat])" and ?h = "[[], [], [1]]"
  have "?step\<^sup>*\<^sup>* (iter_start [[1]]) (?h, [([], (0, 0), [])], None, False, False, Testing (2, 1))"
    by (rule relpowp_imp_rtranclp [OF item_sent])
  also have "?step (?h, [([], (0, 0), [])], None, False, False, Testing (2, 1))
      (?h, [([], (0, 0), [])], None, False, True, Returned True)"
    by (rule co_match) (simp add: slice_items_def)
  also have "?step (?h, [([], (0, 0), [])], None, False, True, Returned True) (?h, [], None, False, True, Returned True)"
    by (rule it_return)
  also have "?step (?h, [], None, False, True, Returned True) (?h, [], None, True, True, Returned True)"
    by (rule it_close)
  finally show ?thesis .
qed

section \<open>The iterator of the program\<close>

text \<open>
  C8. Whatever the interleaving of the goroutine that iterates over the label values with the
  loop that tests them, and although the prefixes it extends share their arrays, the loop only
  ever answers what the search through the whole cartesian product answers, so together with the first test
  without labels it is the answer of \<^verbatim>\<open>matchStringWithLabelPermutations\<close>.
\<close>

theorem label_search_refines:
  assumes "(iter_step extra nil (\<lambda>c. matchString (Some pat) s (vars @ c)))\<^sup>*\<^sup>*
      (iter_start (label_sets pat labelMap)) (h, fs, offer, closed, cancelled, Returned b)"
    and "label_sets pat labelMap \<noteq> []"
  shows "(matchString (Some pat) s vars \<or> b) = matchStringWithLabelPermutations (Some pat) s vars labelMap"
  using run_answer [OF assms(1)] assms(2) by (simp add: matchStringWithLabelPermutations_def)

lemma label_search_refines_witness:
  "(matchString (Some ''dev-${labels:team}'') ''dev-a'' [] \<or> True) =
   matchStringWithLabelPermutations (Some ''dev-${labels:team}'') ''dev-a'' [] [(''${labels:team}'', [''a'', ''b''])]"
proof -
  let ?P = "\<lambda>c. matchString (Some ''dev-${labels:team}'') ''dev-a'' ([] @ c)"
  let ?p = "(''${labels:team}'', ''a'')" and ?q = "(''${labels:team}'', ''b'')"
  let ?step = "iter_step (\<lambda>_. 0) ([], []) ?P"
  have sets: "label_sets ''dev-${labels:team}'' [(''${labels:team}'', [''a'', ''b''])] = [[?p, ?q]]" by code_simp
  let ?h = "[[], [], [?p]]" and ?f = "([?p, ?q], (0, 0), [])" and ?g = "([?q], (0, 0), [])"
  have start: "iter_start [[?p, ?q]] = ([[]], [?f], None, False, False, Waiting)"
    by (simp add: iter_start_def new_slice_def)
  have "?step ([[]], [?f], None, False, False, Waiting) (?h, [?f], Some (2, 1), False, False, Waiting)"
    by (rule it_offer [where ?h1.0 = "[[], []]" and ?h2.0 = "[[], []]" and e = "(1, 0)" and e' = "(1, 0)"])
      (simp_all add: new_slice_def append_items_def slice_items_def Let_def)
  moreover have "?step (?h, [?f], Some (2, 1), False, False, Waiting) (?h, [?g], None, False, False, Testing (2, 1))"
    by (rule it_send)
  moreover have "?step (?h, [?g], None, False, False, Testing (2, 1)) (?h, [?g], None, False, True, Returned True)"
    by (rule co_match) code_simp
  ultimately have "?step\<^sup>*\<^sup>* (iter_start [[?p, ?q]]) (?h, [?g], None, False, True, Returned True)"
    unfolding start by (meson converse_rtranclp_into_rtranclp rtranclp.rtrancl_refl)
  then show ?thesis by (intro label_search_refines) (simp_all add: sets)
qed

text \<open>
  C15. Every run of the iterating goroutine and its consumer ends: its steps are at most those
  of a full iteration, whose number \<open>level_cost\<close> gives in terms of the lengths of the lists.
\<close>

theorem iterator_terminates:
  "(iter_step extra nil P ^^ n) (iter_start params) st \<Longrightarrow>
   n \<le> (case params of [] \<Rightarrow> 2 | p # ps \<Rightarrow> level_cost p ps + 3)"
  using run_cost [of n extra nil P "iter_start params" st]
  by (cases params) (simp_all add: iter_start_def new_slice_def)

lemma iterator_terminates_witness:
  "(iter_step (\<lambda>_. 0) 0 (\<lambda>c. c = [1]) ^^ Suc (Suc 0)) (iter_start [[1 :: nat]])
     ([[], [], [1]], [([], (0, 0), [])], None, False, False, Testing (2, 1)) \<and> Suc (Suc 0) \<le> 7"
  using iterator_terminates [OF item_sent [of "\<lambda>c. c = [1]"]] item_sent [of "\<lambda>c. c = [1]"]
  by (intro conjI) simp_all

text \<open>
  C14. The two never wait for each other for ever and no goroutine is left behind: a run can
  only stop when the consumer has answered, the context is cancelled, the goroutine has
  returned from every activation of \<^verbatim>\<open>iterate\<close> and the channel is closed.
\<close>

theorem iterator_no_leak:
  assumes "(iter_step extra nil P)\<^sup>*\<^sup>* (iter_start params) st"
  shows "(\<nexists>st'. iter_step extra nil P st st') \<longleftrightarrow>
    (\<exists>h. st = (h, [], None, True, True, Returned (list_ex P (IterWithContext params))))"
proof
  assume "\<nexists>st'. iter_step extra nil P st st'"
  then obtain b h where "st = (h, [], None, True, True, Returned b)" using iter_progress [OF run_answer [OF assms]] by blast
  then show "\<exists>h. st = (h, [], None, True, True, Returned (list_ex P (IterWithContext params)))" using run_answer [OF assms] by simp
qed (auto simp: iter_final)

lemma iterator_no_leak_witness:
  "\<nexists>st'. iter_step (\<lambda>_. 0) 0 (\<lambda>c. c = [1 :: nat]) ([[], [], [1]], [], None, True, True, Returned True) st'"
  using iterator_no_leak [OF complete_run] by (simp add: IterWithContext_def)

end
