(* ===== verification/Server_Types.thy ===== *)
theory Server_Types
  imports Api
begin

text \<open>
  The configuration records of \<^verbatim>\<open>server/config.go\<close> that the request handlers read, and the
  request types of \<^verbatim>\<open>server/server.go\<close>. The key types of \<^verbatim>\<open>libtrust\<close> are the type variables
  \<open>'pub\<close> and \<open>'prv\<close>; a nil key is \<open>None\<close>. A nil slice of strings is \<open>None\<close>.
\<close>

type_synonym i64 = "64 word"

record ('pub, 'prv) server_config =
  sc_ListenAddress :: string
  sc_Net :: string
  sc_PathPrefix :: string
  sc_RealIPHeader :: string
  sc_RealIPPos :: int
  sc_CertFile :: string
  sc_KeyFile :: string
  sc_HSTS :: bool
  sc_TLSMinVersion :: string
  sc_TLSCurvePreferences :: "string list option"
  sc_TLSCipherSuites :: "string list option"
  sc_publicKey :: "'pub option"
  sc_privateKey :: "'prv option"
  sc_sigAlg :: string

record ('pub, 'prv) token_config =
  tc_Issuer :: string
  tc_CertFile :: string
  tc_KeyFile :: string
  tc_Expiration :: i64
  tc_DisableLegacyKeyID :: bool
  tc_publicKey :: "'pub option"
  tc_privateKey :: "'prv option"
  tc_sigAlg :: string
  tc_keyID :: string

record auth_scope =
  as_Type :: string
  as_Class :: string
  as_Name :: string
  as_Actions :: "string list"

record auth_request =
  rq_RemoteConnAddr :: string
  rq_RemoteAddr :: string
  rq_RemoteIP :: ip
  rq_User :: string
  rq_Password :: string
  rq_Account :: string
  rq_Service :: string
  rq_Scopes :: "auth_scope list"
  rq_Labels :: labels
  rq_AuthenticatorData :: go_any

record authz_result =
  az_scope :: auth_scope
  az_actions :: "string list option"

text \<open>
  \<^verbatim>\<open>authRequest.String\<close>, which the log shows; \<^verbatim>\<open>fmt\<close> prints a slice in brackets and a struct in
  braces, with spaces in between.
\<close>

definition slice_text :: "string list \<Rightarrow> string" where
  "slice_text xs = ''['' @ join_with (CHR '' '') xs @ '']''"

definition logged_scope :: "auth_scope \<Rightarrow> string" where
  "logged_scope sc =
     ''{'' @ join_with (CHR '' '') [as_Type sc, as_Class sc, as_Name sc, slice_text (as_Actions sc)] @ ''}''"

definition auth_request_text :: "auth_request \<Rightarrow> string" where
  "auth_request_text ar =
     ''{'' @ rq_User ar @ '':'' @ password_string (rq_Password ar) @ ''@'' @ rq_RemoteAddr ar @ '' '' @
     slice_text (map logged_scope (rq_Scopes ar)) @ ''}''"

text \<open>The log does not tell two passwords apart.\<close>

lemma auth_request_text_masked:
  "p \<noteq> [] \<Longrightarrow> q \<noteq> [] \<Longrightarrow> auth_request_text (ar\<lparr>rq_Password := p\<rparr>) = auth_request_text (ar\<lparr>rq_Password := q\<rparr>)"
  by (simp add: auth_request_text_def password_string_def)

end
