(* ===== verification/Server_Request.thy ===== *)
theory Server_Request
  imports Server_Types Go_Regexp Go_Http
begin

text \<open>
  \<^verbatim>\<open>ParseRequest\<close> of \<^verbatim>\<open>server/server.go\<close> with \<^verbatim>\<open>parseRemoteAddr\<close> and \<^verbatim>\<open>parseScope\<close>: the
  client's address, the credentials, and the scopes of a token request.
\<close>

section \<open>Remote addresses and scope types\<close>

definition hostPortRegex :: "rx \<times> nat" where
  "hostPortRegex = must_compile
     (''^(?:'' @ [CHR 0x5C] @ ''[(.+)'' @ [CHR 0x5C] @ '']:'' @ [CHR 0x5C] @ ''d+|([^:]+):'' @ [CHR 0x5C] @ ''d+)$'')"

definition scopeRegex :: "rx \<times> nat" where
  "scopeRegex = must_compile (''([a-z0-9]+)('' @ [CHR 0x5C] @ ''([a-z0-9]+'' @ [CHR 0x5C] @ ''))?'')"

definition parseRemoteAddr :: "string \<Rightarrow> ip option" where
  "parseRemoteAddr ra0 =
     (let ra = (case find_string_submatch hostPortRegex ra0 of
            None \<Rightarrow> ra0
          | Some hp \<Rightarrow> (if hp ! 1 \<noteq> [] then hp ! 1 else if hp ! 2 \<noteq> [] then hp ! 2 else ra0))
      in parse_ip ra)"

definition malformed_scope :: go_error where
  "malformed_scope = Errorf ''malformed scope request'' []"

definition parseScope :: "string \<Rightarrow> go_error + string \<times> string" where
  "parseScope scope =
     (case find_string_submatch scopeRegex scope of
        None \<Rightarrow> Inl malformed_scope
      | Some parts \<Rightarrow>
          (if length parts = 3 then Inr (parts ! 1, [])
           else if length parts = 4 then Inr (parts ! 1, parts ! 3)
           else Inl malformed_scope))"

section \<open>Requests\<close>

text \<open>The client address: the connection's, or an entry of the configured header.\<close>

definition request_addr :: "('pub, 'prv) server_config \<Rightarrow> http_request \<Rightarrow> string go" where
  "request_addr sc req =
     (if sc_RealIPHeader sc \<noteq> [] then
        (let hv = header_get req (sc_RealIPHeader sc);
             ips = split_on CHR '','' hv;
             pos0 = sc_RealIPPos sc;
             pos = (if pos0 < 0 then (let p = int (length ips) + pos0 in if p < 0 then 0 else p) else pos0)
         in if int (length ips) \<le> pos then Inl (Panic ''index out of range'')
            else let addr = trim_space (ips ! nat pos) in
              if addr = [] then Inl (Err (Errorf ''client address not provided'' [])) else Inr addr)
      else Inr (hr_RemoteAddr req))"

text \<open>The credentials: from the header, or from the form of a POST request.\<close>

definition request_credentials ::
  "http_request \<Rightarrow> form_state \<Rightarrow> string \<times> string \<times> bool \<times> form_state" where
  "request_credentials req fs =
     (case basic_auth req of
        Some (user, password) \<Rightarrow> (user, password, True, fs)
      | None \<Rightarrow>
          (if hr_Method req = ''POST'' then
             (let (username, fs1) = form_value req ''username'' fs;
                  (password, fs2) = form_value req ''password'' fs1
              in if username \<noteq> [] \<and> password \<noteq> [] then (username, password, False, fs2)
                 else ([], [], False, fs2))
           else ([], [], False, fs)))"

definition parse_scope_string :: "string \<Rightarrow> auth_scope go" where
  "parse_scope_string scopeStr =
     (let parts = split_on CHR '':'' scopeStr in
      case parseScope (parts ! 0) of
        Inl e \<Rightarrow> Inl (Err e)
      | Inr (scopeType, scopeClass) \<Rightarrow>
          (if length parts = 3 then
             Inr \<lparr>as_Type = scopeType, as_Class = scopeClass, as_Name = parts ! 1,
                  as_Actions = sort (split_on CHR '','' (parts ! 2))\<rparr>
           else if length parts = 4 then
             Inr \<lparr>as_Type = scopeType, as_Class = scopeClass, as_Name = parts ! 1 @ CHR '':'' # parts ! 2,
                  as_Actions = sort (split_on CHR '','' (parts ! 3))\<rparr>
           else Inl (Err (Errorf ''invalid scope'' []))))"

definition request_scopes :: "form_state \<Rightarrow> auth_scope list go" where
  "request_scopes fs =
     go_map parse_scope_string (concat (map (split_on CHR '' '') (form_list fs ''scope'')))"

definition ParseRequest :: "('pub, 'prv) server_config \<Rightarrow> http_request \<Rightarrow> auth_request go" where
  "ParseRequest sc req =
     (case request_addr sc req of
        Inl st \<Rightarrow> Inl st
      | Inr remoteAddr \<Rightarrow>
          (case parseRemoteAddr remoteAddr of
             None \<Rightarrow> Inl (Err (Errorf ''unable to parse remote addr'' []))
           | Some remoteIP \<Rightarrow>
               (let (user, password, haveBasicAuth, fs1) = request_credentials req no_form;
                    (account0, fs2) = form_value req ''account'' fs1
                in if account0 \<noteq> [] \<and> haveBasicAuth \<and> account0 \<noteq> user
                   then Inl (Err (Errorf ''user and account are not the same'' []))
                   else
                     (let account = (if account0 = [] then user else account0);
                          (service, fs3) = form_value req ''service'' fs2;
                          (fs4, bad) = parse_form req fs3
                      in if bad then Inl (Err (Errorf ''invalid form value'' []))
                         else
                           (let (scope, fs5) = form_value req ''scope'' fs4
                            in case (if scope \<noteq> [] then request_scopes fs5 else Inr []) of
                                 Inl st \<Rightarrow> Inl st
                               | Inr scopes \<Rightarrow>
                                   Inr \<lparr>rq_RemoteConnAddr = hr_RemoteAddr req, rq_RemoteAddr = remoteAddr,
                                        rq_RemoteIP = remoteIP, rq_User = user, rq_Password = password,
                                        rq_Account = account, rq_Service = service, rq_Scopes = scopes,
                                        rq_Labels = [], rq_AuthenticatorData = AnyNil\<rparr>)))))"

section \<open>Searching\<close>

lemma rx_search_skip: "\<forall>p \<in> set ps. rx_runs r s (p, []) = [] \<Longrightarrow> rx_search r s (ps @ qs) = rx_search r s qs"
  by (induction ps) auto

lemma rx_find_first:
  assumes "\<forall>p < p0. rx_runs r s (p, []) = []" "rx_runs r s (p0, []) = st # sts" "p0 \<le> length s"
  shows "rx_find_from r s 0 = Some (p0, st)"
proof -
  have "[0..<Suc (length s)] = [0..<p0] @ p0 # [Suc p0..<Suc (length s)]"
    using assms(3) upt_add_eq_append [of 0 p0 "Suc (length s) - p0"]
    by (simp add: upt_conv_Cons del: upt_Suc)
  then show ?thesis using assms(1,2) by (simp add: rx_find_from_def rx_search_skip del: upt_Suc)
qed

lemma rx_find_none:
  "\<forall>p \<le> length s. rx_runs r s (p, []) = [] \<Longrightarrow> rx_find_from r s 0 = None"
  by (simp add: rx_find_from_def rx_search_None less_Suc_eq_le del: upt_Suc)

section \<open>The type of a scope\<close>

definition scope_char :: "char \<Rightarrow> bool" where
  "scope_char c = (is_lower c \<or> is_digit c)"

definition scope_cls :: cls where
  "scope_cls = Cls False False [(97, 122), (48, 57)]"

definition scope_class_part :: rx where
  "scope_class_part = RGroup 2 (RCat (lit_rx CHR ''('') (RCat (RPlus True (RSet scope_cls)) (lit_rx CHR '')'')))"

lemma scope_cls_mem [simp]: "cls_mem scope_cls = scope_char"
  by (rule ext) (auto simp: scope_cls_def scope_char_def is_lower_def is_digit_def)

lemma scopeRegex_eq:
  "scopeRegex = (RCat (RGroup 1 (RPlus True (RSet scope_cls))) (ROpt True scope_class_part), 2)"
  unfolding scopeRegex_def scope_class_part_def by code_simp

lemma scope_class_part_caps:
  "(e, cs') \<in> set (rx_runs scope_class_part s (q, cs)) \<Longrightarrow> \<exists>q'. cs' = (2, q, q') # cs"
  unfolding scope_class_part_def rx_runs.simps(9,14)
  by (auto simp: lit_member greedy_class_member simp del: rx_runs.simps)

lemma scope_runs_none:
  "\<not> (p < length s \<and> scope_char (s ! p)) \<Longrightarrow> rx_runs (fst scopeRegex) s (p, []) = []"
  by (simp add: scopeRegex_eq greedy_class_runs class_run_stop del: rx_runs.simps(12))

lemma scope_runs_some:
  assumes "p < length s" "scope_char (s ! p)"
  shows "\<exists>e cs sts. rx_runs (fst scopeRegex) s (p, []) = (e, cs) # sts \<and>
    map_of cs 1 = Some (p, p + class_run scope_cls s p)"
proof -
  let ?q = "p + class_run scope_cls s p"
  have "class_run scope_cls s p \<noteq> 0" using assms by (simp add: class_run_step)
  then have "[Suc p..<Suc ?q] = [Suc p..<?q] @ [?q]" by simp
  then obtain sts where runs: "rx_runs (fst scopeRegex) s (p, []) =
      rx_runs (ROpt True scope_class_part) s (?q, [(1, p, ?q)]) @ sts"
    by (simp add: scopeRegex_eq greedy_class_runs del: rx_runs.simps(12) upt_Suc rx_runs.simps(13))
  show ?thesis
  proof (cases "rx_runs scope_class_part s (?q, [(1, p, ?q)])")
    case Nil
    then show ?thesis using runs by simp
  next
    case (Cons m ms)
    obtain e cs where m: "m = (e, cs)" by (cases m)
    then have "\<exists>q'. cs = (2, ?q, q') # [(1, p, ?q)]"
      using Cons scope_class_part_caps [of e cs s ?q "[(1, p, ?q)]"] by simp
    then show ?thesis using runs Cons m by auto
  qed
qed

lemma parseScope_eq:
  "parseScope s =
     (if \<exists>c \<in> set s. scope_char c
      then Inr (takeWhile scope_char (dropWhile (\<lambda>c. \<not> scope_char c) s), [])
      else Inl malformed_scope)"
proof (cases "\<exists>c \<in> set s. scope_char c")
  case True
  let ?p = "length (takeWhile (\<lambda>c. \<not> scope_char c) s)"
  have "takeWhile (\<lambda>c. \<not> scope_char c) s \<noteq> s"
    using True takeWhile_eq_all_conv [of "\<lambda>c. \<not> scope_char c" s] by blast
  then have "length (takeWhile (\<lambda>c. \<not> scope_char c) s) \<noteq> length s"
    using takeWhile_dropWhile_id [of "\<lambda>c. \<not> scope_char c" s]
    by (metis append_self_conv length_0_conv length_append add_cancel_left_right)
  then have lt: "?p < length s"
    using length_takeWhile_le [of "\<lambda>c. \<not> scope_char c" s] by simp
  have p: "?p < length s" "scope_char (s ! ?p)" "drop ?p s = dropWhile (\<lambda>c. \<not> scope_char c) s"
    using lt nth_length_takeWhile [OF lt] by (auto simp: dropWhile_eq_drop)
  have none: "\<forall>q < ?p. rx_runs (fst scopeRegex) s (q, []) = []"
    using takeWhile_nth [of _ "\<lambda>c. \<not> scope_char c" s] set_takeWhileD nth_mem
    by (metis scope_runs_none)
  obtain e cs sts where run: "rx_runs (fst scopeRegex) s (?p, []) = (e, cs) # sts"
    "map_of cs 1 = Some (?p, ?p + class_run scope_cls s ?p)"
    using scope_runs_some [OF p(1,2)] by blast
  have "rx_find_from (fst scopeRegex) s 0 = Some (?p, e, cs)"
    using rx_find_first [OF none run(1)] p(1) by simp
  then have f: "find_string_submatch scopeRegex s = Some (submatches (snd scopeRegex) s (?p, e, cs))"
    by (simp add: find_string_submatch_def)
  have "length (submatches (snd scopeRegex) s (?p, e, cs)) = 3"
    by (simp add: submatches_def scopeRegex_eq)
  moreover have "submatches (snd scopeRegex) s (?p, e, cs) ! 1 =
      takeWhile scope_char (dropWhile (\<lambda>c. \<not> scope_char c) s)"
    using run(2) p(3)
    by (simp add: submatches_def scopeRegex_eq substr_def class_run_def takeWhile_eq_take [symmetric])
  ultimately show ?thesis using True by (simp add: parseScope_def f)
next
  case False
  then have "rx_find_from (fst scopeRegex) s 0 = None"
    by (intro rx_find_none allI impI scope_runs_none) (use nth_mem in blast)
  then show ?thesis using False by (simp add: parseScope_def find_string_submatch_def)
qed

section \<open>Addresses with ports\<close>

definition digit_cls :: cls where "digit_cls = Cls False False [(48, 57)]"
definition any_cls :: cls where "any_cls = Cls False False [(0, 9), (11, 255)]"
definition no_colon_cls :: cls where "no_colon_cls = Cls False True [(58, 58)]"

lemma cls_mems [simp]:
  "cls_mem digit_cls = is_digit" "cls_mem any_cls = (\<lambda>c. code c \<noteq> 10)" "cls_mem no_colon_cls = (\<lambda>c. c \<noteq> CHR '':'')"
proof -
  show "cls_mem digit_cls = is_digit" by (rule ext) (auto simp: digit_cls_def is_digit_def)
  show "cls_mem any_cls = (\<lambda>c. code c \<noteq> 10)"
  proof
    fix c have "code c \<le> 255" using code_less [of c] by linarith
    then show "cls_mem any_cls c \<longleftrightarrow> code c \<noteq> 10" by (auto simp: any_cls_def)
  qed
  show "cls_mem no_colon_cls = (\<lambda>c. c \<noteq> CHR '':'')"
  proof
    fix c show "cls_mem no_colon_cls c \<longleftrightarrow> c \<noteq> CHR '':''"
      using cls_mem_lit [of "CHR '':''" c] by (auto simp: no_colon_cls_def lit_cls_def)
  qed
qed

definition port_part :: rx where
  "port_part = RCat (lit_rx CHR '':'') (RPlus True (RSet digit_cls))"

definition bracketed_part :: rx where
  "bracketed_part = RCat (lit_rx CHR ''['') (RCat (RGroup 1 (RPlus True (RSet any_cls)))
     (RCat (lit_rx CHR '']'') port_part))"

definition plain_part :: rx where
  "plain_part = RCat (RGroup 2 (RPlus True (RSet no_colon_cls))) port_part"

lemma hostPortRegex_eq:
  "hostPortRegex = (RCat RBeg (RCat (RAlt bracketed_part plain_part) REnd), 2)"
  unfolding hostPortRegex_def bracketed_part_def plain_part_def port_part_def by code_simp

lemma rcat_member:
  "(e, cs') \<in> set (rx_runs (RCat a b) s st) \<longleftrightarrow>
     (\<exists>q cs. (q, cs) \<in> set (rx_runs a s st) \<and> (e, cs') \<in> set (rx_runs b s (q, cs)))"
  by (simp only: rx_runs.simps(9) set_concat set_map UN_iff bex_simps Union_iff image_iff) force

lemma rgroup_member:
  "(e, cs') \<in> set (rx_runs (RGroup g a) s (p, cs)) \<longleftrightarrow>
     (\<exists>cs0. (e, cs0) \<in> set (rx_runs a s (p, cs)) \<and> cs' = (g, p, e) # cs0)"
  by (simp only: rx_runs.simps(14) set_map image_iff fst_conv) force

lemma lit_pair:
  "(e, cs') \<in> set (rx_runs (lit_rx c) s (p, cs)) \<longleftrightarrow> p < length s \<and> s ! p = c \<and> e = Suc p \<and> cs' = cs"
  unfolding lit_member by auto

lemma class_pair:
  "(e, cs') \<in> set (rx_runs (RPlus True (RSet k)) s (p, cs)) \<longleftrightarrow>
     p < e \<and> e \<le> length s \<and> (\<forall>i. p \<le> i \<and> i < e \<longrightarrow> cls_mem k (s ! i)) \<and> cs' = cs"
  unfolding greedy_class_member by auto

lemma port_member:
  "(e, cs') \<in> set (rx_runs port_part s (p, cs)) \<longleftrightarrow>
     cs' = cs \<and> p < length s \<and> s ! p = CHR '':'' \<and> Suc p < e \<and> e \<le> length s \<and>
        (\<forall>i. Suc p \<le> i \<and> i < e \<longrightarrow> is_digit (s ! i))"
  unfolding port_part_def rcat_member lit_pair class_pair cls_mems by blast

lemma plain_member:
  "(e, cs') \<in> set (rx_runs plain_part s (p, cs)) \<longleftrightarrow>
     (\<exists>q. cs' = (2, p, q) # cs \<and> p < q \<and> (\<forall>i. p \<le> i \<and> i < q \<longrightarrow> s ! i \<noteq> CHR '':'') \<and>
        q < length s \<and> s ! q = CHR '':'' \<and> Suc q < e \<and> e \<le> length s \<and>
        (\<forall>i. Suc q \<le> i \<and> i < e \<longrightarrow> is_digit (s ! i)))"
  unfolding plain_part_def rcat_member rgroup_member class_pair port_member cls_mems
  by (auto intro: less_imp_le)

lemma bracketed_member:
  "(e, cs') \<in> set (rx_runs bracketed_part s (p, cs)) \<longleftrightarrow>
     (\<exists>q. cs' = (1, Suc p, q) # cs \<and> p < length s \<and> s ! p = CHR ''['' \<and> Suc p < q \<and>
        (\<forall>i. Suc p \<le> i \<and> i < q \<longrightarrow> code (s ! i) \<noteq> 10) \<and>
        Suc q < length s \<and> s ! q = CHR '']'' \<and> s ! Suc q = CHR '':'' \<and> Suc (Suc q) < e \<and> e \<le> length s \<and>
        (\<forall>i. Suc (Suc q) \<le> i \<and> i < e \<longrightarrow> is_digit (s ! i)))"
  unfolding bracketed_part_def rcat_member rgroup_member class_pair lit_pair port_member cls_mems
  by (auto intro: less_imp_le)

definition host_runs :: "rx \<Rightarrow> string \<Rightarrow> mstate list" where
  "host_runs a s = filter (\<lambda>st. fst st = length s) (rx_runs a s (0, []))"

lemma concat_end: "concat (map (rx_runs REnd s) ms) = filter (\<lambda>st. fst st = length s) ms"
  by (induction ms) auto

lemma host_port_runs:
  "rx_runs (fst hostPortRegex) s (0, []) = host_runs bracketed_part s @ host_runs plain_part s"
  by (simp add: hostPortRegex_eq host_runs_def concat_end del: rx_runs.simps(4))

lemma host_port_later: "0 < p \<Longrightarrow> rx_runs (fst hostPortRegex) s (p, []) = []"
  by (simp add: hostPortRegex_eq)

lemma find_host_port:
  "find_string_submatch hostPortRegex s =
     (case host_runs bracketed_part s @ host_runs plain_part s of
        [] \<Rightarrow> None
      | st # _ \<Rightarrow> Some (submatches 2 s (0, st)))"
proof (cases "host_runs bracketed_part s @ host_runs plain_part s")
  case Nil
  have "rx_find_from (fst hostPortRegex) s 0 = None"
  proof (rule rx_find_none, intro allI impI)
    fix p show "rx_runs (fst hostPortRegex) s (p, []) = []"
      using host_port_later [of p s] host_port_runs [of s] Nil by (cases p) auto
  qed
  then show ?thesis unfolding Nil by (simp add: find_string_submatch_def)
next
  case (Cons st sts)
  have "rx_find_from (fst hostPortRegex) s 0 = Some (0, st)"
    by (rule rx_find_first [where sts = sts]) (simp_all only: host_port_runs Cons, simp_all)
  then show ?thesis unfolding Cons by (simp add: find_string_submatch_def hostPortRegex_eq)
qed

lemma host_runs_member:
  "(e, cs) \<in> set (host_runs a s) \<longleftrightarrow> e = length s \<and> (length s, cs) \<in> set (rx_runs a s (0, []))"
  by (auto simp: host_runs_def)

lemma only_run:
  "x \<in> set xs \<Longrightarrow> \<forall>y \<in> set xs. y = x \<Longrightarrow> \<exists>ys. xs = x # ys"
  by (cases xs) auto

lemma no_run: "(\<And>e cs. (e, cs) \<notin> set xs) \<Longrightarrow> xs = []"
  by (cases xs) auto

definition all_digits :: "string \<Rightarrow> bool" where
  "all_digits d = (d \<noteq> [] \<and> list_all is_digit d)"

lemma plain_host_runs:
  assumes "h \<noteq> []" "CHR '':'' \<notin> set h" "all_digits d"
  shows "\<exists>ys. host_runs plain_part (h @ CHR '':'' # d) = (length (h @ CHR '':'' # d), [(2, 0, length h)]) # ys"
    (is "\<exists>ys. host_runs plain_part ?s = (length ?s, [(2, 0, ?q)]) # ys")
proof (rule only_run)
  have d: "is_digit (?s ! i)" if "Suc ?q \<le> i" "i < length ?s" for i
    using that assms(3) by (auto simp: all_digits_def list_all_length nth_append nth_Cons')
  have h: "?s ! i \<noteq> CHR '':''" if "i < ?q" for i
    using that assms(2) by (metis nth_append nth_mem)
  show "(length ?s, [(2, 0, ?q)]) \<in> set (host_runs plain_part ?s)"
    unfolding host_runs_member plain_member
    using assms d h by (auto simp: all_digits_def nth_append)
  show "\<forall>y \<in> set (host_runs plain_part ?s). y = (length ?s, [(2, 0, ?q)])"
  proof
    fix y assume y: "y \<in> set (host_runs plain_part ?s)"
    obtain e cs where yp: "y = (e, cs)" by (cases y)
    then obtain q where q: "e = length ?s" "cs = [(2, 0, q)]" "\<forall>i. 0 \<le> i \<and> i < q \<longrightarrow> ?s ! i \<noteq> CHR '':''"
      "q < length ?s" "?s ! q = CHR '':''"
      using y unfolding yp host_runs_member plain_member by blast
    have "?s ! ?q = CHR '':''" by simp
    then have "q \<le> ?q" using q(3) by (metis le_eq_less_or_eq linorder_le_less_linear zero_le)
    moreover have "?q \<le> q" using q(5) h [of q] by (metis linorder_le_less_linear)
    ultimately show "y = (length ?s, [(2, 0, ?q)])" using q yp by simp
  qed
qed

lemma bracketed_host_runs:
  assumes "h \<noteq> []" "\<forall>c \<in> set h. code c \<noteq> 10" "all_digits d"
  shows "\<exists>ys. host_runs bracketed_part (CHR ''['' # h @ '']:'' @ d) =
    (length (CHR ''['' # h @ '']:'' @ d), [(1, 1, Suc (length h))]) # ys"
    (is "\<exists>ys. host_runs bracketed_part ?s = (length ?s, [(1, 1, ?q)]) # ys")
proof (rule only_run)
  have d: "is_digit (?s ! i)" if "Suc (Suc ?q) \<le> i" "i < length ?s" for i
    using that assms(3) by (auto simp: all_digits_def list_all_length nth_append nth_Cons')
  have h: "code (?s ! i) \<noteq> 10" if "1 \<le> i" "i < ?q" for i
    using that assms(2) nth_mem [of "i - 1" h] by (auto simp: nth_append nth_Cons')
  have q: "?s ! ?q = CHR '']''" "?s ! Suc ?q = CHR '':''" by (simp_all add: nth_append)
  show "(length ?s, [(1, 1, ?q)]) \<in> set (host_runs bracketed_part ?s)"
    unfolding host_runs_member bracketed_member
    using assms(1,3) d h q by (auto simp: all_digits_def)
  show "\<forall>y \<in> set (host_runs bracketed_part ?s). y = (length ?s, [(1, 1, ?q)])"
  proof
    fix y assume y: "y \<in> set (host_runs bracketed_part ?s)"
    obtain e cs where yp: "y = (e, cs)" by (cases y)
    then obtain p where p: "e = length ?s" "cs = [(1, Suc 0, p)]" "Suc p < length ?s" "?s ! p = CHR '']''"
      "?s ! Suc p = CHR '':''" "\<forall>i. Suc (Suc p) \<le> i \<and> i < length ?s \<longrightarrow> is_digit (?s ! i)"
      using y unfolding yp host_runs_member bracketed_member by blast
    have nd: "\<not> is_digit CHR '':''" "\<not> is_digit CHR '']''" by (simp_all add: is_digit_def)
    have "?q \<le> p"
    proof (rule ccontr)
      assume "\<not> ?q \<le> p"
      then have "Suc (Suc p) \<le> Suc ?q" "Suc ?q < length ?s" by simp_all
      then have "is_digit (?s ! Suc ?q)" using p(6) by blast
      then show False using q(2) nd by simp
    qed
    moreover have "p \<le> ?q"
    proof (rule ccontr)
      assume "\<not> p \<le> ?q"
      then consider "p = Suc ?q" | "Suc (Suc ?q) \<le> p" by linarith
      then show False
      proof cases
        case 1
        then show ?thesis using p(4) q(2) by simp
      next
        case 2
        then show ?thesis using d [of p] p(3,4) nd by simp
      qed
    qed
    ultimately show "y = (length ?s, [(1, 1, ?q)])" using p yp by simp
  qed
qed

lemma no_colon_runs:
  assumes "CHR '':'' \<notin> set s"
  shows "host_runs bracketed_part s = []" "host_runs plain_part s = []"
proof -
  have c: "s ! i \<noteq> CHR '':''" if "i < length s" for i using that assms by (metis nth_mem)
  show "host_runs bracketed_part s = []"
    by (rule no_run) (use c in \<open>auto simp: host_runs_member bracketed_member\<close>)
  show "host_runs plain_part s = []"
    by (rule no_run) (use c in \<open>auto simp: host_runs_member plain_member\<close>)
qed

lemma no_bracket_runs:
  "s \<noteq> [] \<Longrightarrow> hd s \<noteq> CHR ''['' \<Longrightarrow> host_runs bracketed_part s = []"
  by (rule no_run) (auto simp: host_runs_member bracketed_member hd_conv_nth)

text \<open>
  A client address is read the same with and without a port: a host without colon before a
  port, a host in brackets before a port, and text without any colon are all parsed as the
  bare host.
\<close>

theorem parseRemoteAddr_ports:
  "(CHR '':'' \<notin> set s \<longrightarrow> parseRemoteAddr s = parse_ip s) \<and>
   (all_digits d \<and> h \<noteq> [] \<and> CHR '':'' \<notin> set h \<and> hd h \<noteq> CHR ''['' \<longrightarrow>
      parseRemoteAddr (h @ CHR '':'' # d) = parse_ip h) \<and>
   (all_digits d \<and> b \<noteq> [] \<and> (\<forall>c \<in> set b. code c \<noteq> 10) \<longrightarrow>
      parseRemoteAddr (CHR ''['' # b @ '']:'' @ d) = parse_ip b)"
proof (intro conjI impI)
  show "parseRemoteAddr s = parse_ip s" if "CHR '':'' \<notin> set s"
    using no_colon_runs [OF that] by (simp add: parseRemoteAddr_def find_host_port)
next
  assume a: "all_digits d \<and> h \<noteq> [] \<and> CHR '':'' \<notin> set h \<and> hd h \<noteq> CHR ''[''"
  let ?s = "h @ CHR '':'' # d"
  obtain ys where "host_runs plain_part ?s = (length ?s, [(2, 0, length h)]) # ys"
    using plain_host_runs a by blast
  moreover have "host_runs bracketed_part ?s = []" using a by (intro no_bracket_runs) auto
  ultimately have "find_string_submatch hostPortRegex ?s =
      Some (submatches 2 ?s (0, length ?s, [(2, 0, length h)]))" by (simp add: find_host_port)
  moreover have "submatches 2 ?s (0, length ?s, [(2, 0, length h)]) ! 1 = []"
    "submatches 2 ?s (0, length ?s, [(2, 0, length h)]) ! 2 = h"
    by (simp_all add: submatches_def substr_def upt_rec numeral_2_eq_2)
  ultimately show "parseRemoteAddr ?s = parse_ip h" using a by (simp add: parseRemoteAddr_def)
next
  assume a: "all_digits d \<and> b \<noteq> [] \<and> (\<forall>c \<in> set b. code c \<noteq> 10)"
  let ?s = "CHR ''['' # b @ '']:'' @ d"
  obtain ys where "host_runs bracketed_part ?s = (length ?s, [(1, 1, Suc (length b))]) # ys"
    using bracketed_host_runs a by blast
  then have "find_string_submatch hostPortRegex ?s =
      Some (submatches 2 ?s (0, length ?s, [(1, 1, Suc (length b))]))" by (simp add: find_host_port)
  moreover have "submatches 2 ?s (0, length ?s, [(1, 1, Suc (length b))]) ! 1 = b"
    by (simp add: submatches_def substr_def upt_rec numeral_2_eq_2)
  ultimately show "parseRemoteAddr ?s = parse_ip b" using a by (simp add: parseRemoteAddr_def)
qed

lemma parseRemoteAddr_ports_witness:
  "parseRemoteAddr ''10.1.2.3:5001'' = parse_ip ''10.1.2.3'' \<and>
   parseRemoteAddr ''[fe80::1]:5001'' = parse_ip ''fe80::1'' \<and>
   parseRemoteAddr ''10.1.2.3'' = parse_ip ''10.1.2.3''"
  using parseRemoteAddr_ports [of "''10.1.2.3''" "''5001''" "''10.1.2.3''" "''fe80::1''"]
  by (simp add: all_digits_def is_digit_def)

section \<open>Scopes\<close>

text \<open>
  The type of a scope is the first run of lower-case letters and digits in its first field,
  wherever it stands; anything else in the field is ignored, the class that the pattern
  captures is never returned, and a field without such a character is malformed.
\<close>

theorem parseScope_result:
  "parseScope s =
     (if \<exists>c \<in> set s. scope_char c
      then Inr (takeWhile scope_char (dropWhile (\<lambda>c. \<not> scope_char c) s), [])
      else Inl malformed_scope)"
  by (rule parseScope_eq)

definition scope_text :: "string \<Rightarrow> string \<Rightarrow> string list \<Rightarrow> string" where
  "scope_text t name actions = t @ CHR '':'' # name @ CHR '':'' # join_with CHR '','' actions"

lemma scope_type_only:
  "t \<noteq> [] \<Longrightarrow> list_all scope_char t \<Longrightarrow> parseScope t = Inr (t, [])"
  by (cases t) (auto simp: parseScope_eq list_all_iff takeWhile_eq_all_conv)

lemma no_char_join: "\<forall>a \<in> set actions. c \<notin> set a \<Longrightarrow> c \<noteq> d \<Longrightarrow> c \<notin> set (join_with d actions)"
  by (induction d actions rule: join_with.induct) auto

lemma scope_char_no_colon: "list_all scope_char t \<Longrightarrow> CHR '':'' \<notin> set t"
  by (auto simp: list_all_iff scope_char_def is_lower_def is_digit_def)

text \<open>
  C32. A scope written as type, name and actions comes back from the parser: the type and the name
  as they were, also when the name carries the port of a registry host, and the actions
  sorted.
\<close>

theorem scope_round_trip:
  assumes "t \<noteq> []" "list_all scope_char t"
    and "count_list name CHR '':'' \<le> 1"
    and "actions \<noteq> []" "\<forall>a \<in> set actions. CHR '':'' \<notin> set a \<and> CHR '','' \<notin> set a"
  shows "parse_scope_string (scope_text t name actions) =
    Inr \<lparr>as_Type = t, as_Class = [], as_Name = name, as_Actions = sort actions\<rparr>"
proof -
  let ?acts = "join_with CHR '','' actions"
  have "CHR '':'' \<notin> set ?acts" using assms(5) by (intro no_char_join) auto
  then have acts: "split_on CHR '':'' ?acts = [?acts]" by simp
  have s: "split_on CHR '','' ?acts = actions" using assms(4,5) by (intro split_join) auto
  show ?thesis
  proof (cases "CHR '':'' \<in> set name")
    case False
    then have "split_on CHR '':'' (scope_text t name actions) = [t, name, ?acts]"
      using scope_char_no_colon [OF assms(2)] acts by (simp add: scope_text_def split_on_append_sep)
    then show ?thesis
      using scope_type_only [OF assms(1,2)] s by (simp add: parse_scope_string_def)
  next
    case True
    then obtain a b where n: "name = a @ CHR '':'' # b" "CHR '':'' \<notin> set a" by (metis split_list_first)
    then have b: "CHR '':'' \<notin> set b" using assms(3) by (simp add: count_list_0_iff)
    then have "split_on CHR '':'' (scope_text t name actions) = [t, a, b, ?acts]"
      using scope_char_no_colon [OF assms(2)] acts n by (simp add: scope_text_def split_on_append_sep)
    then show ?thesis
      using scope_type_only [OF assms(1,2)] s n by (simp add: parse_scope_string_def)
  qed
qed

lemma scope_round_trip_witness:
  "parse_scope_string ''repository:hub:5000/app:push,pull'' =
     Inr \<lparr>as_Type = ''repository'', as_Class = [], as_Name = ''hub:5000/app'', as_Actions = [''pull'', ''push'']\<rparr>"
proof -
  have "list_all scope_char ''repository''" "count_list ''hub:5000/app'' CHR '':'' \<le> 1"
    by code_simp+
  then have "parse_scope_string (scope_text ''repository'' ''hub:5000/app'' [''push'', ''pull'']) =
      Inr \<lparr>as_Type = ''repository'', as_Class = [], as_Name = ''hub:5000/app'',
        as_Actions = sort [''push'', ''pull'']\<rparr>"
    by (intro scope_round_trip) simp_all
  moreover have "sort [''push'', ''pull''] = [''pull'', ''push'']" by code_simp
  ultimately show ?thesis by (simp add: scope_text_def)
qed

section \<open>Requests\<close>

text \<open>The parser without the threading of the forms.\<close>

definition request_user :: "http_request \<Rightarrow> string \<times> string" where
  "request_user req =
     (case basic_auth req of
        Some up \<Rightarrow> up
      | None \<Rightarrow>
          (if hr_Method req = ''POST'' \<and> form_first req ''username'' \<noteq> [] \<and> form_first req ''password'' \<noteq> []
           then (form_first req ''username'', form_first req ''password'') else ([], [])))"

lemma form_value_start:
  "fs = no_form \<or> fs = request_forms rq \<Longrightarrow> form_value rq key fs = (form_first rq key, request_forms rq)"
  by (auto simp: form_rules)

lemma request_credentials_eq:
  "\<exists>fs. (fs = no_form \<or> fs = request_forms req) \<and>
     request_credentials req no_form =
       (fst (request_user req), snd (request_user req), basic_auth req \<noteq> None, fs)"
  by (auto simp: request_credentials_def request_user_def form_rules split: option.split)

lemma ParseRequest_eq:
  "ParseRequest sc req =
     (case request_addr sc req of
        Inl st \<Rightarrow> Inl st
      | Inr addr \<Rightarrow>
          (case parseRemoteAddr addr of
             None \<Rightarrow> Inl (Err (Errorf ''unable to parse remote addr'' []))
           | Some remote \<Rightarrow>
               (let user = fst (request_user req); acct = form_first req ''account'' in
                if acct \<noteq> [] \<and> basic_auth req \<noteq> None \<and> acct \<noteq> user
                then Inl (Err (Errorf ''user and account are not the same'' []))
                else case (if form_first req ''scope'' \<noteq> [] then request_scopes (request_forms req) else Inr []) of
                    Inl st \<Rightarrow> Inl st
                  | Inr scopes \<Rightarrow>
                      Inr \<lparr>rq_RemoteConnAddr = hr_RemoteAddr req, rq_RemoteAddr = addr, rq_RemoteIP = remote,
                           rq_User = user, rq_Password = snd (request_user req),
                           rq_Account = (if acct = [] then user else acct),
                           rq_Service = form_first req ''service'', rq_Scopes = scopes,
                           rq_Labels = [], rq_AuthenticatorData = AnyNil\<rparr>)))"
proof -
  obtain fs where fs: "fs = no_form \<or> fs = request_forms req"
    and c: "request_credentials req no_form =
      (fst (request_user req), snd (request_user req), basic_auth req \<noteq> None, fs)"
    using request_credentials_eq by blast
  show ?thesis
    unfolding ParseRequest_def c prod.case Let_def form_value_start [OF fs] form_rules if_False ..
qed

lemma parse_scope_errors:
  "parse_scope_string s = Inl st \<Longrightarrow> st \<in> {Err malformed_scope, Err (Errorf ''invalid scope'' [])}"
  by (auto simp: parse_scope_string_def parseScope_eq Let_def split: if_splits)

lemma request_scopes_errors:
  "request_scopes fs = Inl st \<Longrightarrow> st \<in> {Err malformed_scope, Err (Errorf ''invalid scope'' [])}"
  unfolding request_scopes_def using go_map_Inl parse_scope_errors by metis

text \<open>
  A request is never refused for a malformed form: reading the account has already parsed
  the forms and kept the result, so the later explicit parse cannot report an error, and
  the parameters that did decode are used.
\<close>

theorem form_errors_unreachable:
  "ParseRequest sc req \<noteq> Inl (Err (Errorf ''invalid form value'' []))"
proof -
  have "request_addr sc req \<noteq> Inl (Err (Errorf ''invalid form value'' []))"
    by (simp add: request_addr_def Let_def)
  moreover have "request_scopes fs \<noteq> Inl (Err (Errorf ''invalid form value'' []))" for fs
    using request_scopes_errors [of fs] by (fastforce simp: malformed_scope_def)
  ultimately show ?thesis
    by (auto simp: ParseRequest_eq Let_def split: sum.split option.split)
qed

text \<open>
  C9. With basic authentication the account of an accepted request is the authenticated user
  itself, and user and password are those of the header: a client cannot have another
  account authorized by naming it in the form.
\<close>

theorem basic_auth_account:
  assumes "ParseRequest sc req = Inr ar" and "basic_auth req = Some (u, p)"
  shows "rq_User ar = u \<and> rq_Password ar = p \<and> rq_Account ar = u"
  using assms by (auto simp: ParseRequest_eq request_user_def Let_def split: sum.splits option.splits if_splits)

lemma ParseRequest_panic:
  "(\<exists>m. ParseRequest sc req = Inl (Panic m)) \<longleftrightarrow>
     sc_RealIPHeader sc \<noteq> [] \<and>
     int (Suc (count_list (header_get req (sc_RealIPHeader sc)) CHR '','')) \<le> sc_RealIPPos sc"
proof -
  let ?n = "length (split_on CHR '','' (header_get req (sc_RealIPHeader sc)))"
  have n: "0 < ?n" by (simp add: length_greater_0_conv)
  have "(\<exists>m. request_addr sc req = Inl (Panic m)) \<longleftrightarrow> sc_RealIPHeader sc \<noteq> [] \<and> int ?n \<le> sc_RealIPPos sc"
    using n by (auto simp: request_addr_def Let_def)
  moreover have "request_scopes fs \<noteq> Inl (Panic m)" for fs m
    using request_scopes_errors [of fs] by blast
  ultimately show ?thesis
    unfolding length_split_on [symmetric]
    by (auto simp: ParseRequest_eq Let_def split: sum.split option.split if_splits)
qed

text \<open>
  C33. Parsing panics exactly when a header is configured for the client address and the
  configured position is not below the number of comma-separated entries of that header, which
  the client chooses; positions counted from the end never do.
\<close>

theorem real_ip_panic:
  "(\<exists>m. ParseRequest sc req = Inl (Panic m)) \<longleftrightarrow>
     sc_RealIPHeader sc \<noteq> [] \<and>
     int (Suc (count_list (header_get req (sc_RealIPHeader sc)) CHR '','')) \<le> sc_RealIPPos sc"
  by (rule ParseRequest_panic)

definition test_server :: "(unit, unit) server_config" where
  "test_server = \<lparr>sc_ListenAddress = '':5001'', sc_Net = ''tcp'', sc_PathPrefix = [], sc_RealIPHeader = [],
     sc_RealIPPos = 0, sc_CertFile = [], sc_KeyFile = [], sc_HSTS = False, sc_TLSMinVersion = [],
     sc_TLSCurvePreferences = None, sc_TLSCipherSuites = None, sc_publicKey = None,
     sc_privateKey = None, sc_sigAlg = []\<rparr>"

definition bob_request :: http_request where
  "bob_request = \<lparr>hr_RemoteAddr = ''10.0.0.7'', hr_Method = ''GET'', hr_Path = ''/auth'',
     hr_RawQuery = ''service=reg&account=bob'',
     hr_Header = [(''Authorization'', [basic_header ''bob'' ''pw''])],
     hr_MediaType = ''application/octet-stream'', hr_MediaErr = False, hr_Body = [], hr_Multipart = None\<rparr>"

lemma bob_basic_auth: "basic_auth bob_request = Some (''bob'', ''pw'')"
proof -
  have "canonical_header_key ''Authorization'' = ''Authorization''" by code_simp
  then have "header_get bob_request ''Authorization'' = basic_header ''bob'' ''pw''"
    unfolding header_get_def by (simp only:) (simp add: bob_request_def map_get_def del: b64_encode.simps)
  moreover have "basic_header ''bob'' ''pw'' \<noteq> []" by (simp add: basic_header_def)
  ultimately show ?thesis
    using parse_basic_header [of "''bob''" "''pw''"] by (simp add: basic_auth_def Let_def)
qed

lemma bob_forms:
  "form_first bob_request ''account'' = ''bob''" "form_first bob_request ''service'' = ''reg''"
  "form_first bob_request ''scope'' = []"
  by code_simp+

lemma bob_parsed:
  "ParseRequest test_server bob_request = Inr \<lparr>rq_RemoteConnAddr = ''10.0.0.7'', rq_RemoteAddr = ''10.0.0.7'',
     rq_RemoteIP = v4_in_v6_prefix @ [10, 0, 0, 7], rq_User = ''bob'', rq_Password = ''pw'', rq_Account = ''bob'',
     rq_Service = ''reg'', rq_Scopes = [], rq_Labels = [], rq_AuthenticatorData = AnyNil\<rparr>"
proof -
  have "parse_ip ''10.0.0.7'' = Some (v4_in_v6_prefix @ [10, 0, 0, 7])" by code_simp
  then have "parseRemoteAddr ''10.0.0.7'' = Some (v4_in_v6_prefix @ [10, 0, 0, 7])"
    using no_colon_runs [of "''10.0.0.7''"] by (simp add: parseRemoteAddr_def find_host_port)
  moreover have "request_addr test_server bob_request = Inr ''10.0.0.7''"
    by (simp add: request_addr_def test_server_def bob_request_def)
  moreover have "hr_RemoteAddr bob_request = ''10.0.0.7''" by (simp add: bob_request_def)
  ultimately show ?thesis
    by (simp add: ParseRequest_eq bob_forms request_user_def bob_basic_auth Let_def)
qed

lemma basic_auth_account_witness:
  "\<exists>ar. ParseRequest test_server bob_request = Inr ar \<and> rq_Account ar = ''bob''"
  using basic_auth_account [OF bob_parsed bob_basic_auth] bob_parsed by blast

end
