(* ===== verification/Server_Auth.thy ===== *)
theory Server_Auth
  imports Server_Request
begin

text \<open>
  The authentication server of \<^verbatim>\<open>server/server.go\<close>: the chains of authenticators and
  authorizers, the token, and the HTTP handlers.

  Third-party code is a parameter: the JSON form of docker's \<^verbatim>\<open>token.Header\<close> and
  \<^verbatim>\<open>token.ClaimSet\<close> and the signature of \<^verbatim>\<open>libtrust\<close>, with the clock and the random number of
  a request in one record.
\<close>

section \<open>Chains\<close>

text \<open>
  The loop of \<^verbatim>\<open>Authenticate\<close> and \<^verbatim>\<open>authorizeScope\<close>: calls in order, going on after a
  \<^verbatim>\<open>NoMatch\<close>; any other error is wrapped and returned; a default when none decides.
\<close>

fun try_in_order :: "string \<Rightarrow> ('w \<Rightarrow> 'r go \<times> 'w) list \<Rightarrow> 'r \<Rightarrow> 'w \<Rightarrow> 'r go \<times> 'w" where
  "try_in_order stem [] dflt w = (Inr dflt, w)"
| "try_in_order stem (f # fs) dflt w =
     (case f w of
        (Inr r, w') \<Rightarrow> (Inr r, w')
      | (Inl (Panic m), w') \<Rightarrow> (Inl (Panic m), w')
      | (Inl (Err e), w') \<Rightarrow>
          (if errors_is e NoMatch then try_in_order stem fs dflt w'
           else (Inl (Err (Errorf stem [e])), w')))"

definition Authenticate :: "'w authn_fn list \<Rightarrow> auth_request \<Rightarrow> 'w \<Rightarrow> auth_result go \<times> 'w" where
  "Authenticate authenticators ar w =
     try_in_order ''authn returned error''
       (map (\<lambda>a. a (rq_Account ar) (rq_Password ar)) authenticators) zero_result w"

definition authorizeScope :: "'w authz_fn list \<Rightarrow> 'w authz_fn" where
  "authorizeScope authorizers ai w =
     try_in_order ''authz returned error'' (map (\<lambda>a. a ai) authorizers) None w"

definition scope_info :: "auth_request \<Rightarrow> auth_scope \<Rightarrow> auth_request_info" where
  "scope_info ar scope =
     \<lparr>ai_Account = rq_Account ar, ai_Type = as_Type scope, ai_Name = as_Name scope,
      ai_Service = rq_Service ar, ai_IP = rq_RemoteIP ar, ai_Actions = as_Actions scope,
      ai_Labels = rq_Labels ar, ai_AuthenticatorData = rq_AuthenticatorData ar\<rparr>"

fun authorize_scopes ::
  "'w authz_fn list \<Rightarrow> auth_request \<Rightarrow> auth_scope list \<Rightarrow> 'w \<Rightarrow> authz_result list go \<times> 'w" where
  "authorize_scopes authorizers ar [] w = (Inr [], w)"
| "authorize_scopes authorizers ar (scope # scopes) w =
     (case authorizeScope authorizers (scope_info ar scope) w of
        (Inl st, w') \<Rightarrow> (Inl st, w')
      | (Inr actions, w') \<Rightarrow>
          (case authorize_scopes authorizers ar scopes w' of
             (Inl st, w'') \<Rightarrow> (Inl st, w'')
           | (Inr ares, w'') \<Rightarrow> (Inr (\<lparr>az_scope = scope, az_actions = actions\<rparr> # ares), w'')))"

definition Authorize :: "'w authz_fn list \<Rightarrow> auth_request \<Rightarrow> 'w \<Rightarrow> authz_result list go \<times> 'w" where
  "Authorize authorizers ar w = authorize_scopes authorizers ar (rq_Scopes ar) w"

section \<open>Tokens\<close>

record token_header =
  th_Type :: string
  th_SigningAlg :: string
  th_KeyID :: string

record resource_actions =
  ra_Type :: string
  ra_Name :: string
  ra_Actions :: "string list"

record claim_set =
  cs_Issuer :: string
  cs_Subject :: string
  cs_Audience :: string
  cs_Expiration :: i64
  cs_NotBefore :: i64
  cs_IssuedAt :: i64
  cs_JWTID :: string
  cs_Access :: "resource_actions list"

record 'prv token_env =
  te_now :: i64
  te_random :: int
  te_marshal_header :: "token_header \<Rightarrow> go_error + string"
  te_marshal_claims :: "claim_set \<Rightarrow> go_error + string"
  te_sign :: "'prv \<Rightarrow> string \<Rightarrow> go_error + string \<times> string"

text \<open>\<^verbatim>\<open>TokenSeparator\<close> is the dot.\<close>

definition joseBase64UrlEncode :: "string \<Rightarrow> string" where
  "joseBase64UrlEncode b = trim_right (\<lambda>c. c = CHR ''='') (b64_encode URLEncoding b)"

definition token_access :: "authz_result \<Rightarrow> resource_actions" where
  "token_access a =
     \<lparr>ra_Type = as_Type (az_scope a), ra_Name = as_Name (az_scope a),
      ra_Actions = sort (case az_actions a of None \<Rightarrow> [] | Some acts \<Rightarrow> acts)\<rparr>"

definition token_claims ::
  "('pub, 'prv) token_config \<Rightarrow> 'prv token_env \<Rightarrow> auth_request \<Rightarrow> authz_result list \<Rightarrow> claim_set" where
  "token_claims tc env ar ares =
     \<lparr>cs_Issuer = tc_Issuer tc, cs_Subject = rq_Account ar, cs_Audience = rq_Service ar,
      cs_Expiration = te_now env + tc_Expiration tc, cs_NotBefore = te_now env - 10,
      cs_IssuedAt = te_now env, cs_JWTID = dec_string (te_random env),
      cs_Access = map token_access ares\<rparr>"

definition CreateToken ::
  "('pub, 'prv) token_config \<Rightarrow> 'prv token_env \<Rightarrow> auth_request \<Rightarrow> authz_result list \<Rightarrow> string go" where
  "CreateToken tc env ar ares =
     (case te_marshal_header env \<lparr>th_Type = ''JWT'', th_SigningAlg = tc_sigAlg tc, th_KeyID = tc_keyID tc\<rparr> of
        Inl e \<Rightarrow> Inl (Err (Errorf ''failed to marshal header'' []))
      | Inr headerJSON \<Rightarrow>
          (case te_marshal_claims env (token_claims tc env ar ares) of
             Inl e \<Rightarrow> Inl (Err (Errorf ''failed to marshal claims'' []))
           | Inr claimsJSON \<Rightarrow>
               (let payload = joseBase64UrlEncode headerJSON @ CHR ''.'' # joseBase64UrlEncode claimsJSON in
                case tc_privateKey tc of
                  None \<Rightarrow> Inl (Panic nil_deref)
                | Some key \<Rightarrow>
                    (case te_sign env key payload of
                       Inl e \<Rightarrow> Inl (Err (Errorf ''failed to sign token'' []))
                     | Inr (sig, sigAlg2) \<Rightarrow>
                         (if sigAlg2 \<noteq> tc_sigAlg tc then Inl (Err (Errorf ''failed to sign token'' []))
                          else Inr (payload @ CHR ''.'' # joseBase64UrlEncode sig))))))"

section \<open>Responses\<close>

text \<open>
  The body of an error response is a fixed text, followed by the text of an error for
  \<open>ErrorBody\<close>.
\<close>

datatype response_body = NoBody | TextBody string | ErrorBody string "go_error option"

record http_response =
  rs_Status :: nat
  rs_Header :: url_values
  rs_Body :: response_body

definition new_response :: http_response where
  "new_response = \<lparr>rs_Status = 200, rs_Header = [], rs_Body = NoBody\<rparr>"

definition header_set :: "string \<Rightarrow> string \<Rightarrow> http_response \<Rightarrow> http_response" where
  "header_set k v rw = rw\<lparr>rs_Header := values_set k [v] (rs_Header rw)\<rparr>"

definition header_add :: "string \<Rightarrow> string \<Rightarrow> http_response \<Rightarrow> http_response" where
  "header_add k v rw = rw\<lparr>rs_Header := values_add k [v] (rs_Header rw)\<rparr>"

definition http_error :: "http_response \<Rightarrow> response_body \<Rightarrow> nat \<Rightarrow> http_response" where
  "http_error rw body status =
     (header_set ''X-Content-Type-Options'' ''nosniff''
       (header_set ''Content-Type'' ''text/plain; charset=utf-8'' rw))
     \<lparr>rs_Status := status, rs_Body := body\<rparr>"

text \<open>\<^verbatim>\<open>json.Marshal\<close> of the map with the keys \<^verbatim>\<open>access_token\<close> and \<^verbatim>\<open>token\<close>.\<close>

definition token_json :: "string \<Rightarrow> string" where
  "token_json tok =
     ''{'' @ json_string ''access_token'' @ '':'' @ json_string tok @ '','' @
     json_string ''token'' @ '':'' @ json_string tok @ ''}''"

section \<open>Handlers\<close>

record ('pub, 'prv, 'w) auth_server =
  sv_Server :: "('pub, 'prv) server_config"
  sv_Token :: "('pub, 'prv) token_config"
  sv_authenticators :: "'w authn_fn list"
  sv_authorizers :: "'w authz_fn list"
  sv_metrics :: "http_request \<Rightarrow> http_response \<Rightarrow> http_response"

definition basic_realm :: "string \<Rightarrow> string" where
  "basic_realm issuer = ''Basic realm='' @ CHR 0x22 # issuer @ [CHR 0x22]"

definition unauthorized ::
  "('pub, 'prv, 'w) auth_server \<Rightarrow> response_body \<Rightarrow> http_response \<Rightarrow> http_response" where
  "unauthorized as body rw =
     http_error (header_set ''WWW-Authenticate'' (basic_realm (tc_Issuer (sv_Token as))) rw) body 401"

definition authn_failure ::
  "('pub, 'prv, 'w) auth_server \<Rightarrow> go_error \<Rightarrow> http_response \<Rightarrow> http_response" where
  "authn_failure as err rw =
     (case as_auth_failed err of
        Some failed \<Rightarrow> unauthorized as (ErrorBody ''Auth failed'' (auth_failed_unwrap failed)) rw
      | None \<Rightarrow> http_error rw (ErrorBody ''Authentication failed'' (Some err)) 500)"

definition send_token ::
  "('pub, 'prv, 'w) auth_server \<Rightarrow> 'prv token_env \<Rightarrow> auth_request \<Rightarrow> authz_result list \<Rightarrow>
   http_response \<Rightarrow> http_response go" where
  "send_token as env ar ares rw =
     (case CreateToken (sv_Token as) env ar ares of
        Inl (Panic m) \<Rightarrow> Inl (Panic m)
      | Inl (Err e) \<Rightarrow> Inr (http_error rw (ErrorBody ''Failed to generate token'' (Some e)) 500)
      | Inr tok \<Rightarrow>
          Inr ((header_set ''Content-Type'' ''application/json'' rw)\<lparr>rs_Body := TextBody (token_json tok)\<rparr>))"

definition doAuth ::
  "('pub, 'prv, 'w) auth_server \<Rightarrow> 'prv token_env \<Rightarrow> http_request \<Rightarrow> http_response \<Rightarrow> 'w \<Rightarrow>
   http_response go \<times> 'w" where
  "doAuth as env req rw w =
     (case ParseRequest (sv_Server as) req of
        Inl (Panic m) \<Rightarrow> (Inl (Panic m), w)
      | Inl (Err e) \<Rightarrow> (Inr (http_error rw (ErrorBody ''Bad request'' (Some e)) 400), w)
      | Inr ar \<Rightarrow>
          (case Authenticate (sv_authenticators as) ar w of
             (Inl (Panic m), w1) \<Rightarrow> (Inl (Panic m), w1)
           | (Inl (Err e), w1) \<Rightarrow> (Inr (authn_failure as e rw), w1)
           | (Inr authnRes, w1) \<Rightarrow>
               (if \<not> ar_Authenticated authnRes then
                  (Inr (unauthorized as (TextBody ''Auth failed.'') rw), w1)
                else
                  (let ar1 = ar\<lparr>rq_Labels := ar_Labels authnRes, rq_AuthenticatorData := ar_Data authnRes\<rparr>
                   in case (if length (rq_Scopes ar1) > 0 then Authorize (sv_authorizers as) ar1 w1
                            else (Inr [], w1)) of
                        (Inl (Panic m), w2) \<Rightarrow> (Inl (Panic m), w2)
                      | (Inl (Err e), w2) \<Rightarrow>
                          (Inr (http_error rw (ErrorBody ''Authorization failed'' (Some e)) 500), w2)
                      | (Inr ares, w2) \<Rightarrow> (send_token as env ar1 ares rw, w2)))))"

definition doIndex :: "('pub, 'prv, 'w) auth_server \<Rightarrow> http_response \<Rightarrow> http_response" where
  "doIndex as rw =
     (header_set ''Content-Type'' ''text/html; charset=utf-8'' rw)
     \<lparr>rs_Body := TextBody (''<h1>'' @ tc_Issuer (sv_Token as) @ ''</h1>'' @ [CHR 0x0A])\<rparr>"

definition doMetrics ::
  "('pub, 'prv, 'w) auth_server \<Rightarrow> http_request \<Rightarrow> http_response \<Rightarrow> http_response" where
  "doMetrics as req rw = sv_metrics as req rw"

definition ServeHTTP ::
  "('pub, 'prv, 'w) auth_server \<Rightarrow> 'prv token_env \<Rightarrow> http_request \<Rightarrow> 'w \<Rightarrow> http_response go \<times> 'w" where
  "ServeHTTP as env req w =
     (let path_prefix = sc_PathPrefix (sv_Server as);
          rw = (if sc_HSTS (sv_Server as)
                then header_add ''Strict-Transport-Security'' ''max-age=63072000; includeSubDomains'' new_response
                else new_response)
      in if hr_Path req = path_prefix @ ''/'' then (Inr (doIndex as rw), w)
         else if hr_Path req = path_prefix @ ''/metrics'' then (Inr (doMetrics as req rw), w)
         else if hr_Path req = path_prefix @ ''/auth'' then doAuth as env req rw w
         else if hr_Path req = path_prefix @ ''/auth/token'' then doAuth as env req rw w
         else (Inr (http_error rw (TextBody ''Not found'') 404), w))"

section \<open>Laws of the chains\<close>

text \<open>The calls that answer \<^verbatim>\<open>NoMatch\<close> before a point of the chain, with the state they pass on.\<close>

inductive passed_over :: "('w \<Rightarrow> 'r go \<times> 'w) list \<Rightarrow> 'w \<Rightarrow> 'w \<Rightarrow> bool" where
  passed_none: "passed_over [] w w"
| passed_one: "f w = (Inl (Err e), w1) \<Longrightarrow> errors_is e NoMatch \<Longrightarrow> passed_over fs w1 w2 \<Longrightarrow>
    passed_over (f # fs) w w2"

inductive_simps passed_over_simps [simp]: "passed_over [] w w'" "passed_over (f # fs) w w'"

inductive_cases passed_overE: "passed_over fs w w'"

lemma passed_over_append:
  "passed_over (fs @ gs) w w' \<longleftrightarrow> (\<exists>w1. passed_over fs w w1 \<and> passed_over gs w1 w')"
  by (induction fs arbitrary: w) auto

lemma try_in_order_skip:
  "passed_over fs w w1 \<Longrightarrow> try_in_order stem (fs @ gs) dflt w = try_in_order stem gs dflt w1"
  by (induction rule: passed_over.induct) auto

text \<open>How a chain can end: at its default, at an answer, or at an error.\<close>

lemma try_in_order_cases:
  obtains (default) w' where "passed_over fs w w'" "try_in_order stem fs dflt w = (Inr dflt, w')"
  | (answer) pre f post w1 r w' where "fs = pre @ f # post" "passed_over pre w w1" "f w1 = (Inr r, w')"
      "try_in_order stem fs dflt w = (Inr r, w')"
  | (error) pre f post w1 e w' where "fs = pre @ f # post" "passed_over pre w w1" "f w1 = (Inl (Err e), w')"
      "\<not> errors_is e NoMatch" "try_in_order stem fs dflt w = (Inl (Err (Errorf stem [e])), w')"
  | (panic) pre f post w1 m w' where "fs = pre @ f # post" "passed_over pre w w1" "f w1 = (Inl (Panic m), w')"
      "try_in_order stem fs dflt w = (Inl (Panic m), w')"
proof -
  have "(\<exists>w'. passed_over fs w w') \<or> (\<exists>pre f post w1. fs = pre @ f # post \<and> passed_over pre w w1 \<and>
      \<not> (\<exists>e w2. f w1 = (Inl (Err e), w2) \<and> errors_is e NoMatch))"
  proof (induction fs arbitrary: w)
    case (Cons f fs)
    show ?case
    proof (cases "\<exists>e w2. f w = (Inl (Err e), w2) \<and> errors_is e NoMatch")
      case True
      then obtain e w2 where f: "f w = (Inl (Err e), w2)" "errors_is e NoMatch" by blast
      from Cons [of w2] show ?thesis
      proof (elim disjE exE conjE)
        fix w' assume "passed_over fs w2 w'"
        then have "passed_over (f # fs) w w'" using f by simp
        then show ?thesis by blast
      next
        fix pre g post w1
        assume "fs = pre @ g # post" "passed_over pre w2 w1"
          "\<not> (\<exists>e w2. g w1 = (Inl (Err e), w2) \<and> errors_is e NoMatch)"
        then have "f # fs = (f # pre) @ g # post \<and> passed_over (f # pre) w w1 \<and>
            \<not> (\<exists>e w2. g w1 = (Inl (Err e), w2) \<and> errors_is e NoMatch)" using f by simp
        then show ?thesis by blast
      qed
    next
      case False
      then have "f # fs = [] @ f # fs \<and> passed_over [] w w \<and>
          \<not> (\<exists>e w2. f w = (Inl (Err e), w2) \<and> errors_is e NoMatch)" by simp
      then show ?thesis by blast
    qed
  qed (blast intro: passed_none)
  then show ?thesis
  proof (elim disjE exE conjE)
    fix w' assume p: "passed_over fs w w'"
    then show ?thesis using default try_in_order_skip [OF p, of stem "[]" dflt] by simp
  next
    fix pre f post w1
    assume p: "fs = pre @ f # post" "passed_over pre w w1"
      and n: "\<not> (\<exists>e w2. f w1 = (Inl (Err e), w2) \<and> errors_is e NoMatch)"
    have t: "try_in_order stem fs dflt w = try_in_order stem (f # post) dflt w1"
      unfolding p(1) by (rule try_in_order_skip [OF p(2)])
    obtain x w' where f: "f w1 = (x, w')" by (cases "f w1")
    show ?thesis
    proof (cases x)
      case (Inr r)
      then show ?thesis using answer [OF p] f t by simp
    next
      case (Inl st)
      then show ?thesis
        using error [OF p] panic [OF p] f t n by (cases st) auto
    qed
  qed
qed

lemma try_in_order_Inr:
  "try_in_order stem (map g xs) dflt w = (Inr r, w') \<longleftrightarrow>
     (\<exists>pre a post w1. xs = pre @ a # post \<and> passed_over (map g pre) w w1 \<and> g a w1 = (Inr r, w')) \<or>
     (passed_over (map g xs) w w' \<and> r = dflt)"
    (is "?l \<longleftrightarrow> ?r")
proof
  assume l: ?l
  show ?r
  proof (cases rule: try_in_order_cases [where fs = "map g xs" and w = w and stem = stem and dflt = dflt])
    case (default w'')
    then show ?thesis using l by simp
  next
    case (answer pre f post w1 r w'')
    then obtain pre' a post' where "xs = pre' @ a # post'" "pre = map g pre'" "f = g a"
      by (auto simp: map_eq_append_conv map_eq_Cons_conv)
    then show ?thesis using answer l by fastforce
  qed (use l in simp_all)
next
  assume ?r
  then show ?l
  proof (elim disjE exE conjE)
    fix pre a post w1
    assume "xs = pre @ a # post" and p: "passed_over (map g pre) w w1" and "g a w1 = (Inr r, w')"
    then show ?l using try_in_order_skip [OF p, of stem "map g (a # post)"] by simp
  next
    assume p: "passed_over (map g xs) w w'" and "r = dflt"
    then show ?l using try_in_order_skip [OF p, of stem "[]"] by simp
  qed
qed

text \<open>
  A request is authenticated by the first authenticator that does not answer NoMatch: the
  outcome is that authenticator's result, and the later ones are not asked; when all answer
  NoMatch the outcome is the unauthenticated zero result.
\<close>

theorem Authenticate_first:
  "Authenticate authenticators ar w = (Inr res, w') \<longleftrightarrow>
     (\<exists>pre a post w1. authenticators = pre @ a # post \<and>
        passed_over (map (\<lambda>a. a (rq_Account ar) (rq_Password ar)) pre) w w1 \<and>
        a (rq_Account ar) (rq_Password ar) w1 = (Inr res, w')) \<or>
     (passed_over (map (\<lambda>a. a (rq_Account ar) (rq_Password ar)) authenticators) w w' \<and> res = zero_result)"
  unfolding Authenticate_def by (rule try_in_order_Inr)

text \<open>
  The decision for a scope is that of the first authorizer that does not answer NoMatch: later
  authorizers are never asked, so they can neither widen nor narrow it, also when it grants
  nothing. Without any decision nothing is granted.
\<close>

theorem authorizeScope_first:
  "authorizeScope authorizers ai w = (Inr acts, w') \<longleftrightarrow>
     (\<exists>pre a post w1. authorizers = pre @ a # post \<and>
        passed_over (map (\<lambda>a. a ai) pre) w w1 \<and> a ai w1 = (Inr acts, w')) \<or>
     (passed_over (map (\<lambda>a. a ai) authorizers) w w' \<and> acts = None)"
  unfolding authorizeScope_def by (rule try_in_order_Inr)

section \<open>The authorizers together are an authorizer\<close>

locale authorizer_list =
  fixes authorizers :: "'w authz_fn list"
  assumes members: "\<forall>a \<in> set authorizers. authorizer a"
begin

lemma scope_grants:
  assumes "authorizeScope authorizers ai w = (Inr acts, w')"
  shows "set (slice_items acts) \<subseteq> set (ai_Actions ai)"
  using assms unfolding authorizeScope_def try_in_order_Inr
proof (elim disjE exE conjE)
  fix pre a post w1
  assume "authorizers = pre @ a # post" and a: "a ai w1 = (Inr acts, w')"
  then have "authorizer a" using members by simp
  then show ?thesis using a by (rule authorizer.grants_requested)
qed simp

lemma scopes_grants:
  "authorize_scopes authorizers ar scopes w = (Inr ares, w') \<Longrightarrow>
   map az_scope ares = scopes \<and>
   (\<forall>a \<in> set ares. set (slice_items (az_actions a)) \<subseteq> set (as_Actions (az_scope a)))"
proof (induction scopes arbitrary: w ares)
  case (Cons sc scopes)
  obtain acts w1 where h: "authorizeScope authorizers (scope_info ar sc) w = (Inr acts, w1)"
    using Cons.prems by (auto split: prod.splits sum.splits)
  obtain rest where r: "authorize_scopes authorizers ar scopes w1 = (Inr rest, w')"
    and ares: "ares = \<lparr>az_scope = sc, az_actions = acts\<rparr> # rest"
    using Cons.prems h by (auto split: prod.splits sum.splits)
  show ?case
    using Cons.IH [OF r] scope_grants [OF h] ares by (simp add: scope_info_def)
qed simp

end

sublocale authorizer_list \<subseteq> chain: authorizer "authorizeScope authorizers"
  by unfold_locales (rule scope_grants)

section \<open>The encoding of tokens\<close>

lemma jose_raw: "joseBase64UrlEncode b = raw_encode URLEncoding b"
  by (simp add: joseBase64UrlEncode_def raw_encode_def)

lemma jose_padding: "raw_pad (joseBase64UrlEncode b) = b64_encode URLEncoding b"
  by (simp add: jose_raw raw_padding)

lemma jose_no_dot: "CHR ''.'' \<notin> set (joseBase64UrlEncode b)"
  using raw_encode_chars [of b] b64_val_not [OF URL_alphabet] by (auto simp: jose_raw list_all_iff)

text \<open>
  The unpadded encoding of a token's parts loses nothing: putting the padding back and
  decoding with the URL alphabet returns the bytes, and the text has no dot, the separator.
\<close>

theorem jose_round_trip:
  "b64_decode URLEncoding (raw_pad (joseBase64UrlEncode b)) = Some b \<and>
   CHR ''.'' \<notin> set (joseBase64UrlEncode b)"
  by (simp add: jose_padding jose_no_dot)

lemma CreateToken_Inr:
  "CreateToken tc env ar ares = Inr tok \<longleftrightarrow>
     (\<exists>hj cj key sig.
        te_marshal_header env \<lparr>th_Type = ''JWT'', th_SigningAlg = tc_sigAlg tc, th_KeyID = tc_keyID tc\<rparr> = Inr hj \<and>
        te_marshal_claims env (token_claims tc env ar ares) = Inr cj \<and> tc_privateKey tc = Some key \<and>
        te_sign env key (joseBase64UrlEncode hj @ CHR ''.'' # joseBase64UrlEncode cj) = Inr (sig, tc_sigAlg tc) \<and>
        tok = joseBase64UrlEncode hj @ CHR ''.'' # joseBase64UrlEncode cj @ CHR ''.'' # joseBase64UrlEncode sig)"
  by (auto simp: CreateToken_def Let_def split: sum.split option.split)

text \<open>
  C25. A token has exactly three parts between dots. They decode to the JSON of the header, the JSON
  of the claims and a signature made with the configured key and algorithm over the first two
  parts as they stand in the token.
\<close>

theorem token_parts:
  assumes "CreateToken tc env ar ares = Inr tok"
  shows "\<exists>h c s key sig hj cj. split_on CHR ''.'' tok = [h, c, s] \<and>
    b64_decode URLEncoding (raw_pad h) = Some hj \<and>
    te_marshal_header env \<lparr>th_Type = ''JWT'', th_SigningAlg = tc_sigAlg tc, th_KeyID = tc_keyID tc\<rparr> = Inr hj \<and>
    b64_decode URLEncoding (raw_pad c) = Some cj \<and>
    te_marshal_claims env (token_claims tc env ar ares) = Inr cj \<and>
    b64_decode URLEncoding (raw_pad s) = Some sig \<and>
    tc_privateKey tc = Some key \<and> te_sign env key (h @ CHR ''.'' # c) = Inr (sig, tc_sigAlg tc)"
proof -
  obtain hj cj key sig where t:
    "te_marshal_header env \<lparr>th_Type = ''JWT'', th_SigningAlg = tc_sigAlg tc, th_KeyID = tc_keyID tc\<rparr> = Inr hj"
    "te_marshal_claims env (token_claims tc env ar ares) = Inr cj" "tc_privateKey tc = Some key"
    "te_sign env key (joseBase64UrlEncode hj @ CHR ''.'' # joseBase64UrlEncode cj) = Inr (sig, tc_sigAlg tc)"
    "tok = joseBase64UrlEncode hj @ CHR ''.'' # joseBase64UrlEncode cj @ CHR ''.'' # joseBase64UrlEncode sig"
    using assms unfolding CreateToken_Inr by blast
  have "split_on CHR ''.'' tok = [joseBase64UrlEncode hj, joseBase64UrlEncode cj, joseBase64UrlEncode sig]"
    by (simp add: t(5) split_on_append_sep jose_no_dot)
  then show ?thesis using t(1-4) by (metis jose_padding b64_decode_encode URL_alphabet)
qed

section \<open>Times\<close>

lemma sint_add_no_overflow:
  fixes x y :: i64
  assumes "0 < sint y"
  shows "sint x < sint (x + y) \<longleftrightarrow> sint x + sint y < 2 ^ 63"
    and "sint x + sint y < 2 ^ 63 \<Longrightarrow> sint (x + y) = sint x + sint y"
proof -
  have b: "- (2 ^ 63) \<le> sint x" "sint x < 2 ^ 63" "sint y < 2 ^ 63"
    using sint_range_size [of x] sint_range_size [of y] by (simp_all add: word_size)
  have s: "sint (x + y) = (sint x + sint y + 2 ^ 63) mod 2 ^ 64 - 2 ^ 63"
    by (simp add: sint_word_ariths signed_take_bit_eq_take_bit_shift take_bit_eq_mod)
  show eq: "sint x + sint y < 2 ^ 63 \<Longrightarrow> sint (x + y) = sint x + sint y"
    unfolding s using b assms by (subst mod_pos_pos_trivial) simp_all
  show "sint x < sint (x + y) \<longleftrightarrow> sint x + sint y < 2 ^ 63"
  proof
    show "sint x < sint (x + y)" if "sint x + sint y < 2 ^ 63" using eq that assms by simp
    show "sint x + sint y < 2 ^ 63" if "sint x < sint (x + y)"
    proof (rule ccontr)
      assume "\<not> sint x + sint y < 2 ^ 63"
      then have "(sint x + sint y + 2 ^ 63 - 2 ^ 64) mod 2 ^ 64 = sint x + sint y + 2 ^ 63 - 2 ^ 64"
        using b by (intro mod_pos_pos_trivial) simp_all
      then have "(sint x + sint y + 2 ^ 63) mod 2 ^ 64 = sint x + sint y + 2 ^ 63 - 2 ^ 64"
        by (simp only: minus_mod_self2)
      then show False using that b unfolding s by simp
    qed
  qed
qed

text \<open>
  C34. With a positive lifetime a token expires after it is issued exactly when the current time plus
  the lifetime fits in 64 bits, and then the lifetime is exact; beyond that the expiration
  wraps around to the past. It is always valid from ten seconds before it is issued, as long as
  that does not wrap.
\<close>

theorem token_times:
  assumes "0 < sint (tc_Expiration tc)" and cs: "cs = token_claims tc env ar ares"
  shows "(sint (cs_IssuedAt cs) < sint (cs_Expiration cs) \<longleftrightarrow>
            sint (te_now env) + sint (tc_Expiration tc) < 2 ^ 63) \<and>
    (sint (te_now env) + sint (tc_Expiration tc) < 2 ^ 63 \<longrightarrow>
       sint (cs_Expiration cs) - sint (cs_IssuedAt cs) = sint (tc_Expiration tc)) \<and>
    (cs_IssuedAt cs = te_now env \<and> cs_NotBefore cs + 10 = cs_IssuedAt cs)"
  using sint_add_no_overflow [OF assms(1), of "te_now env"] by (simp add: cs token_claims_def)

definition test_token :: "(unit, unit) token_config" where
  "test_token = \<lparr>tc_Issuer = ''Acme'', tc_CertFile = [], tc_KeyFile = [], tc_Expiration = 900,
     tc_DisableLegacyKeyID = False, tc_publicKey = Some (), tc_privateKey = Some (), tc_sigAlg = ''RS256'',
     tc_keyID = ''K''\<rparr>"

definition test_env :: "unit token_env" where
  "test_env = \<lparr>te_now = 1700000000, te_random = 7, te_marshal_header = (\<lambda>h. Inr (th_Type h)),
     te_marshal_claims = (\<lambda>c. Inr (cs_Subject c)), te_sign = (\<lambda>k s. Inr (''sig'', ''RS256''))\<rparr>"

definition bob_ar :: auth_request where
  "bob_ar = \<lparr>rq_RemoteConnAddr = ''10.0.0.7'', rq_RemoteAddr = ''10.0.0.7'',
     rq_RemoteIP = v4_in_v6_prefix @ [10, 0, 0, 7], rq_User = ''bob'', rq_Password = ''pw'', rq_Account = ''bob'',
     rq_Service = ''reg'', rq_Scopes = [], rq_Labels = [], rq_AuthenticatorData = AnyNil\<rparr>"

definition bob_token :: string where
  "bob_token = joseBase64UrlEncode ''JWT'' @ CHR ''.'' # joseBase64UrlEncode ''bob'' @ CHR ''.'' #
     joseBase64UrlEncode ''sig''"

lemma bob_token_created: "CreateToken test_token test_env bob_ar [] = Inr bob_token"
  by (simp add: CreateToken_Inr test_token_def test_env_def bob_token_def token_claims_def bob_ar_def)

lemma token_parts_witness:
  "\<exists>h c s. split_on CHR ''.'' bob_token = [h, c, s] \<and> b64_decode URLEncoding (raw_pad c) = Some ''bob''"
  using token_parts [OF bob_token_created] by (auto simp: test_env_def token_claims_def bob_ar_def)

lemma token_times_witness:
  "sint (cs_Expiration (token_claims test_token test_env bob_ar [])) -
   sint (cs_IssuedAt (token_claims test_token test_env bob_ar [])) = 900"
proof -
  have "0 < sint (tc_Expiration test_token)" by (simp add: test_token_def)
  note t = token_times [OF this refl, THEN conjunct2, THEN conjunct1, rule_format]
  have "sint (te_now test_env) + sint (tc_Expiration test_token) < 2 ^ 63"
    by (simp add: test_token_def test_env_def)
  from t [OF this] show ?thesis by (simp add: test_token_def)
qed

section \<open>The handlers\<close>

lemma token_grants:
  assumes "Authorize authorizers ar w = (Inr ares, w')" and "\<forall>a \<in> set authorizers. authorizer a"
  shows "list_all2 (\<lambda>ra sc. ra_Type ra = as_Type sc \<and> ra_Name ra = as_Name sc \<and>
      set (ra_Actions ra) \<subseteq> set (as_Actions sc) \<and> sorted (ra_Actions ra))
    (cs_Access (token_claims tc env ar ares)) (rq_Scopes ar)"
proof -
  have "map az_scope ares = rq_Scopes ar \<and>
      (\<forall>a \<in> set ares. set (slice_items (az_actions a)) \<subseteq> set (as_Actions (az_scope a)))"
    using authorizer_list.scopes_grants [OF authorizer_list.intro [OF assms(2)]] assms(1)
    by (simp add: Authorize_def)
  then have "rq_Scopes ar = map az_scope ares"
    and g: "\<forall>a \<in> set ares. set (slice_items (az_actions a)) \<subseteq> set (as_Actions (az_scope a))" by auto
  then show ?thesis
    by (auto simp: token_claims_def list_all2_conv_all_nth token_access_def slice_items_def
        dest!: nth_mem split: option.splits)
qed

text \<open>
  The claims of a token repeat the scopes of the request in order, and for each of them grant
  only actions that were requested for it, sorted, provided every authorizer keeps to its
  contract.
\<close>

theorem token_grants_requested:
  assumes "Authorize authorizers ar w = (Inr ares, w')" and "\<forall>a \<in> set authorizers. authorizer a"
  shows "list_all2 (\<lambda>ra sc. ra_Type ra = as_Type sc \<and> ra_Name ra = as_Name sc \<and>
      set (ra_Actions ra) \<subseteq> set (as_Actions sc) \<and> sorted (ra_Actions ra))
    (cs_Access (token_claims tc env ar ares)) (rq_Scopes ar)"
  using assms by (rule token_grants)

lemma doAuth_200:
  assumes "doAuth as env req new_response w = (Inr resp, w')" and "rs_Status resp = 200"
  shows "\<exists>ar res a w0 w1 ares tok. ParseRequest (sv_Server as) req = Inr ar \<and>
    a \<in> set (sv_authenticators as) \<and> a (rq_Account ar) (rq_Password ar) w0 = (Inr res, w1) \<and>
    ar_Authenticated res \<and>
    (let ar1 = ar\<lparr>rq_Labels := ar_Labels res, rq_AuthenticatorData := ar_Data res\<rparr> in
       (if rq_Scopes ar = [] then ares = [] \<and> w' = w1
        else Authorize (sv_authorizers as) ar1 w1 = (Inr ares, w')) \<and>
       CreateToken (sv_Token as) env ar1 ares = Inr tok) \<and>
    rs_Body resp = TextBody (token_json tok)"
proof -
  obtain ar where ar: "ParseRequest (sv_Server as) req = Inr ar"
    using assms by (auto simp: doAuth_def http_error_def split: sum.splits go_stop.splits)
  obtain res w1 where res: "Authenticate (sv_authenticators as) ar w = (Inr res, w1)" and ok: "ar_Authenticated res"
    using assms ar
    by (auto simp: doAuth_def http_error_def authn_failure_def unauthorized_def
        split: sum.splits go_stop.splits prod.splits if_splits option.splits)
  have "res \<noteq> zero_result" using ok by (auto simp: zero_result_def)
  then obtain a w0 where a: "a \<in> set (sv_authenticators as)"
    "a (rq_Account ar) (rq_Password ar) w0 = (Inr res, w1)"
    using res unfolding Authenticate_def try_in_order_Inr by (metis in_set_conv_decomp)
  let ?ar1 = "ar\<lparr>rq_Labels := ar_Labels res, rq_AuthenticatorData := ar_Data res\<rparr>"
  obtain ares where ares: "(if rq_Scopes ar = [] then ares = [] \<and> w' = w1
      else Authorize (sv_authorizers as) ?ar1 w1 = (Inr ares, w'))"
    and send: "send_token as env ?ar1 ares new_response = Inr resp"
    using assms ar res ok
    by (auto simp: doAuth_def http_error_def Let_def split: sum.splits go_stop.splits prod.splits if_splits)
  obtain tok where "CreateToken (sv_Token as) env ?ar1 ares = Inr tok"
    "rs_Body resp = TextBody (token_json tok)"
    using send assms(2) by (auto simp: send_token_def http_error_def split: sum.splits go_stop.splits)
  then show ?thesis using ar a ok ares unfolding Let_def by blast
qed

text \<open>
  C17. A token is sent only after authentication: when the handler answers with status 200, the
  request was parsed, one of the authenticators accepted the very account and password of
  that request, and the body is the token made for that account from what the authorizers
  granted (nothing when no scope was asked for).
\<close>

theorem token_only_after_authentication:
  assumes "doAuth as env req new_response w = (Inr resp, w')" and "rs_Status resp = 200"
  shows "\<exists>ar res a w0 w1 ares tok. ParseRequest (sv_Server as) req = Inr ar \<and>
    a \<in> set (sv_authenticators as) \<and> a (rq_Account ar) (rq_Password ar) w0 = (Inr res, w1) \<and>
    ar_Authenticated res \<and>
    (let ar1 = ar\<lparr>rq_Labels := ar_Labels res, rq_AuthenticatorData := ar_Data res\<rparr> in
       (if rq_Scopes ar = [] then ares = [] \<and> w' = w1
        else Authorize (sv_authorizers as) ar1 w1 = (Inr ares, w')) \<and>
       CreateToken (sv_Token as) env ar1 ares = Inr tok) \<and>
    rs_Body resp = TextBody (token_json tok)"
  using assms by (rule doAuth_200)


definition hsts_value :: string where
  "hsts_value = ''max-age=63072000; includeSubDomains''"

lemma header_kept [simp]:
  "map_get (rs_Header (header_set k v rw)) k' = (if k' = k then [v] else map_get (rs_Header rw) k')"
  by (simp add: header_set_def)

lemma http_error_header [simp]:
  "map_get (rs_Header (http_error rw b st)) k =
     (if k = ''X-Content-Type-Options'' then [''nosniff'']
      else if k = ''Content-Type'' then [''text/plain; charset=utf-8''] else map_get (rs_Header rw) k)"
  by (simp add: http_error_def)

definition sts_key :: string where
  "sts_key = ''Strict-Transport-Security''"

lemma sts_key_other [simp]:
  "sts_key \<noteq> ''Content-Type''" "sts_key \<noteq> ''WWW-Authenticate''" "sts_key \<noteq> ''X-Content-Type-Options''"
  by (simp_all add: sts_key_def)

lemma doAuth_keeps_sts:
  "doAuth as env req rw w = (Inr resp, w') \<Longrightarrow> map_get (rs_Header resp) sts_key = map_get (rs_Header rw) sts_key"
  by (auto simp: doAuth_def authn_failure_def unauthorized_def send_token_def Let_def
      split: sum.splits go_stop.splits prod.splits if_splits option.splits)

text \<open>
  C20. Only the two token paths under the configured prefix reach the authenticators and the authorizers: on any
  other path the answer is the same whichever they are, and no state changes. A path other than these, the
  index and the metrics gets 404. With HSTS configured every answer of the server's own handlers carries
  the header.
\<close>

theorem ServeHTTP_routes:
  assumes "ServeHTTP as env req w = (Inr resp, w')"
  shows "(hr_Path req \<notin> {sc_PathPrefix (sv_Server as) @ p | p. p \<in> {''/auth'', ''/auth/token''}} \<longrightarrow>
       w' = w \<and>
       ServeHTTP (as\<lparr>sv_authenticators := authenticators, sv_authorizers := authorizers\<rparr>) env req w = (Inr resp, w)) \<and>
    (hr_Path req \<notin> {sc_PathPrefix (sv_Server as) @ p | p. p \<in> {''/'', ''/metrics'', ''/auth'', ''/auth/token''}} \<longrightarrow>
       rs_Status resp = 404) \<and>
    (sc_HSTS (sv_Server as) \<and> hr_Path req \<noteq> sc_PathPrefix (sv_Server as) @ ''/metrics'' \<longrightarrow>
       map_get (rs_Header resp) ''Strict-Transport-Security'' = [hsts_value])"
proof (intro conjI impI)
  assume "hr_Path req \<notin> {sc_PathPrefix (sv_Server as) @ p | p. p \<in> {''/auth'', ''/auth/token''}}"
  then have "hr_Path req \<noteq> sc_PathPrefix (sv_Server as) @ ''/auth'' \<and> hr_Path req \<noteq> sc_PathPrefix (sv_Server as) @ ''/auth/token''"
    by blast
  then show "w' = w"
    "ServeHTTP (as\<lparr>sv_authenticators := authenticators, sv_authorizers := authorizers\<rparr>) env req w = (Inr resp, w)"
    using assms by (auto simp: ServeHTTP_def Let_def doIndex_def doMetrics_def split: if_splits)
next
  assume "hr_Path req \<notin> {sc_PathPrefix (sv_Server as) @ p | p. p \<in> {''/'', ''/metrics'', ''/auth'', ''/auth/token''}}"
  then show "rs_Status resp = 404"
    using assms by (auto simp: ServeHTTP_def Let_def http_error_def split: if_splits)
next
  assume h: "sc_HSTS (sv_Server as) \<and> hr_Path req \<noteq> sc_PathPrefix (sv_Server as) @ ''/metrics''"
  let ?rw = "header_add sts_key hsts_value new_response"
  have "map_get (rs_Header ?rw) sts_key = [hsts_value]"
    by (simp add: header_add_def map_get_values_add) (simp add: map_get_def new_response_def)
  moreover have "map_get (rs_Header resp) sts_key = map_get (rs_Header ?rw) sts_key"
    using assms h doAuth_keeps_sts [of as env req ?rw w resp w']
    unfolding ServeHTTP_def Let_def sts_key_def [symmetric] hsts_value_def [symmetric]
    by (auto simp: doIndex_def split: if_splits)
  ultimately show "map_get (rs_Header resp) ''Strict-Transport-Security'' = [hsts_value]"
    by (simp add: sts_key_def)
qed

section \<open>A concrete server\<close>

definition bob_only :: "unit authn_fn" where
  "bob_only u p w =
     (if u = ''bob'' then
        (if p = ''pw'' then (Inr \<lparr>ar_Authenticated = True, ar_Labels = [], ar_Data = AnyNil\<rparr>, w)
         else (Inl (Err wrong_pass), w))
      else (Inl (Err NoMatch), w))"

definition grant_all :: "'w authz_fn" where
  "grant_all ai w = (Inr (Some (ai_Actions ai)), w)"

lemma grant_all_authorizer: "authorizer grant_all"
  by unfold_locales (auto simp: grant_all_def)

definition test_sv :: "(unit, unit, unit) auth_server" where
  "test_sv = \<lparr>sv_Server = test_server, sv_Token = test_token, sv_authenticators = [bob_only],
     sv_authorizers = [grant_all], sv_metrics = (\<lambda>req rw. rw)\<rparr>"

definition pull_ar :: auth_request where
  "pull_ar = bob_ar\<lparr>rq_Scopes := [\<lparr>as_Type = ''repository'', as_Class = [], as_Name = ''app'',
     as_Actions = [''pull'', ''push'']\<rparr>]\<rparr>"

lemma token_grants_requested_witness:
  "\<exists>ares. Authorize [grant_all] pull_ar () = (Inr ares, ()) \<and>
     list_all2 (\<lambda>ra sc. ra_Type ra = as_Type sc \<and> ra_Name ra = as_Name sc \<and>
      set (ra_Actions ra) \<subseteq> set (as_Actions sc) \<and> sorted (ra_Actions ra))
    (cs_Access (token_claims test_token test_env pull_ar ares)) (rq_Scopes pull_ar)"
proof -
  let ?sc = "\<lparr>as_Type = ''repository'', as_Class = [], as_Name = ''app'', as_Actions = [''pull'', ''push'']\<rparr>"
  have a: "Authorize [grant_all] pull_ar () =
      (Inr [\<lparr>az_scope = ?sc, az_actions = Some [''pull'', ''push'']\<rparr>], ())"
    by (simp add: Authorize_def authorizeScope_def pull_ar_def grant_all_def scope_info_def)
  have "\<forall>a \<in> set [grant_all :: unit authz_fn]. authorizer a" by (simp add: grant_all_authorizer)
  from token_grants_requested [OF a this] show ?thesis using a by blast
qed

lemma bob_answer:
  "doAuth test_sv test_env bob_request new_response () =
     (Inr \<lparr>rs_Status = 200, rs_Header = [(''Content-Type'', [''application/json''])],
           rs_Body = TextBody (token_json bob_token)\<rparr>, ())"
proof -
  have p: "ParseRequest test_server bob_request = Inr bob_ar"
    using bob_parsed by (simp add: bob_ar_def)
  have a: "Authenticate [bob_only] bob_ar () =
      (Inr \<lparr>ar_Authenticated = True, ar_Labels = [], ar_Data = AnyNil\<rparr>, ())"
    by (simp add: Authenticate_def bob_only_def bob_ar_def)
  have l: "bob_ar\<lparr>rq_Labels := [], rq_AuthenticatorData := AnyNil\<rparr> = bob_ar" "rq_Scopes bob_ar = []"
    by (simp_all add: bob_ar_def)
  show ?thesis
    unfolding doAuth_def test_sv_def auth_server.select_convs p a sum.case prod.case auth_result.select_convs
      Let_def l send_token_def
    by (simp add: bob_token_created header_set_def new_response_def)
qed

lemma token_only_after_authentication_witness:
  "\<exists>ar a w0. ParseRequest test_server bob_request = Inr ar \<and> a \<in> set [bob_only] \<and>
     fst (a (rq_Account ar) (rq_Password ar) w0) = Inr \<lparr>ar_Authenticated = True, ar_Labels = [], ar_Data = AnyNil\<rparr>"
proof -
  from token_only_after_authentication [OF bob_answer] obtain ar res a w0 w1 where
    h: "ParseRequest (sv_Server test_sv) bob_request = Inr ar" "a \<in> set (sv_authenticators test_sv)"
    "a (rq_Account ar) (rq_Password ar) w0 = (Inr res, w1)" "ar_Authenticated res" by auto
  then have "res = \<lparr>ar_Authenticated = True, ar_Labels = [], ar_Data = AnyNil\<rparr>"
    by (auto simp: test_sv_def bob_only_def split: if_splits)
  then show ?thesis using h by (auto simp: test_sv_def)
qed


lemma ServeHTTP_routes_witness:
  "\<exists>resp. ServeHTTP test_sv test_env (bob_request\<lparr>hr_Path := ''/nothing''\<rparr>) () = (Inr resp, ()) \<and>
     ServeHTTP (test_sv\<lparr>sv_authenticators := []\<rparr>) test_env (bob_request\<lparr>hr_Path := ''/nothing''\<rparr>) () = (Inr resp, ()) \<and>
     rs_Status resp = 404"
proof -
  let ?req = "bob_request\<lparr>hr_Path := ''/nothing''\<rparr>"
  have s: "ServeHTTP test_sv test_env ?req () = (Inr (http_error new_response (TextBody ''Not found'') 404), ())"
    by (simp add: ServeHTTP_def test_sv_def test_server_def)
  have p: "hr_Path ?req \<notin> {sc_PathPrefix (sv_Server test_sv) @ p | p. p \<in> {''/'', ''/metrics'', ''/auth'', ''/auth/token''}}"
    "hr_Path ?req \<notin> {sc_PathPrefix (sv_Server test_sv) @ p | p. p \<in> {''/auth'', ''/auth/token''}}"
    by (simp_all add: test_sv_def test_server_def)
  have same: "test_sv\<lparr>sv_authenticators := [], sv_authorizers := sv_authorizers test_sv\<rparr> = test_sv\<lparr>sv_authenticators := []\<rparr>"
    by (simp add: test_sv_def)
  from ServeHTTP_routes [OF s, where authenticators = "[]" and authorizers = "sv_authorizers test_sv", unfolded same] p show ?thesis using s by blast
qed

end
