(* ===== verification/Authn_Static.thy ===== *)
theory Authn_Static
  imports Api
begin

text \<open>
  \<^verbatim>\<open>authn/static_auth.go\<close> and the plugins of \<^verbatim>\<open>authn/plugin_authn.go\<close> and
  \<^verbatim>\<open>authz/plugin_authz.go\<close>.

  The comparison of \<^verbatim>\<open>bcrypt\<close> is the argument \<open>compare\<close> (the error for a hash and a password,
  if any). The plugin loader is an argument: opening the file, looking up a symbol, and whether
  the symbol has the type of the interface.
\<close>

section \<open>Static users\<close>

record requirements =
  rq_PasswordHash :: "string option"
  rq_ReqLabels :: labels

type_synonym static_users = "(string \<times> requirements option) list"

definition NewStaticUserAuth :: "static_users \<Rightarrow> static_users" where
  "NewStaticUserAuth users = users"

text \<open>A missing user reads as a nil pointer, like a user configured with nothing.\<close>

definition static_result ::
  "(string \<Rightarrow> string \<Rightarrow> go_error option) \<Rightarrow> static_users \<Rightarrow> string \<Rightarrow> string \<Rightarrow> auth_result go" where
  "static_result compare users user password =
     (case (case map_of users user of Some r \<Rightarrow> r | None \<Rightarrow> None) of
        None \<Rightarrow> Inl (Err NoMatch)
      | Some reqs \<Rightarrow>
          (if (case rq_PasswordHash reqs of None \<Rightarrow> False | Some h \<Rightarrow> compare h password \<noteq> None)
           then Inr zero_result
           else Inr \<lparr>ar_Authenticated = True, ar_Labels = rq_ReqLabels reqs, ar_Data = AnyNil\<rparr>))"

definition static_Authenticate ::
  "(string \<Rightarrow> string \<Rightarrow> go_error option) \<Rightarrow> static_users \<Rightarrow> 'w authn_fn" where
  "static_Authenticate compare users user password w = (static_result compare users user password, w)"

text \<open>\<^verbatim>\<open>Requirements.String\<close> marshals a copy with the password masked.\<close>

definition requirements_masked :: "requirements \<Rightarrow> requirements" where
  "requirements_masked r =
     (case rq_PasswordHash r of None \<Rightarrow> r | Some _ \<Rightarrow> r\<lparr>rq_PasswordHash := Some ''***''\<rparr>)"

text \<open>
  A static user is authenticated exactly when the configuration has requirements for the name and
  either no password or a hash that the password passes, with the configured labels; an unknown
  name is left to the next authenticator, and a wrong password is a final refusal.
\<close>

theorem static_authentication:
  "(static_Authenticate compare users user password w =
      (Inr \<lparr>ar_Authenticated = True, ar_Labels = ls, ar_Data = AnyNil\<rparr>, w) \<longleftrightarrow>
     (\<exists>reqs. map_of users user = Some (Some reqs) \<and> ls = rq_ReqLabels reqs \<and>
        (rq_PasswordHash reqs = None \<or>
         (\<exists>h. rq_PasswordHash reqs = Some h \<and> compare h password = None)))) \<and>
   (static_Authenticate compare users user password w = (Inl (Err NoMatch), w) \<longleftrightarrow>
     map_of users user \<in> {None, Some None}) \<and>
   (static_Authenticate compare users user password w = (Inr zero_result, w) \<longleftrightarrow>
     (\<exists>reqs h. map_of users user = Some (Some reqs) \<and> rq_PasswordHash reqs = Some h \<and>
        compare h password \<noteq> None))"
  by (auto simp: static_Authenticate_def static_result_def zero_result_def split: option.splits)

text \<open>The text of a user's requirements never depends on the hash.\<close>

lemma masked_hides_hash:
  "requirements_masked (r\<lparr>rq_PasswordHash := Some h\<rparr>) = requirements_masked (r\<lparr>rq_PasswordHash := Some h'\<rparr>)"
  by (simp add: requirements_masked_def)

section \<open>Plugins\<close>

record plugin_config =
  pl_Path :: string

text \<open>What the loader provides for a file: an error, or its symbols.\<close>

type_synonym 'f plugin_loader = "string \<Rightarrow> go_error + (string \<Rightarrow> go_error + 'f option)"

definition lookupAuthnSymbol :: "'f plugin_loader \<Rightarrow> plugin_config \<Rightarrow> go_error + 'f" where
  "lookupAuthnSymbol open cfg =
     (case open (pl_Path cfg) of
        Inl e \<Rightarrow> Inl (Errorf ''error while loading authn plugin'' [])
      | Inr lookup \<Rightarrow>
          (case lookup ''Authn'' of
             Inl e \<Rightarrow> Inl (Errorf ''error while loading authn exporting the variable'' [])
           | Inr None \<Rightarrow> Inl (Errorf ''unexpected type from module symbol. Unable to cast Authn module'' [])
           | Inr (Some authn) \<Rightarrow> Inr authn))"

definition lookupAuthzSymbol :: "'f plugin_loader \<Rightarrow> plugin_config \<Rightarrow> go_error + 'f" where
  "lookupAuthzSymbol open cfg =
     (case open (pl_Path cfg) of
        Inl e \<Rightarrow> Inl (Errorf ''error while loading authz plugin'' [])
      | Inr lookup \<Rightarrow>
          (case lookup ''Authz'' of
             Inl e \<Rightarrow> Inl (Errorf ''error while loading authz exporting the variable'' [])
           | Inr None \<Rightarrow> Inl (Errorf ''unexpected type from module symbol. Unable to cast Authz module'' [])
           | Inr (Some authz) \<Rightarrow> Inr authz))"

definition plugin_authn_Validate :: "'f plugin_loader \<Rightarrow> plugin_config \<Rightarrow> go_error option" where
  "plugin_authn_Validate open c = (case lookupAuthnSymbol open c of Inl e \<Rightarrow> Some e | Inr _ \<Rightarrow> None)"

definition plugin_authz_Validate :: "'f plugin_loader \<Rightarrow> plugin_config \<Rightarrow> go_error option" where
  "plugin_authz_Validate open c = (case lookupAuthzSymbol open c of Inl e \<Rightarrow> Some e | Inr _ \<Rightarrow> None)"

definition plugin_Authenticate :: "'w authn_fn \<Rightarrow> 'w authn_fn" where
  "plugin_Authenticate authn user password w = authn user password w"

definition plugin_Authorize :: "'w authz_fn \<Rightarrow> 'w authz_fn" where
  "plugin_Authorize authz ai w = authz ai w"

definition NewPluginAuthn :: "'w authn_fn plugin_loader \<Rightarrow> plugin_config \<Rightarrow> go_error + 'w authn_fn" where
  "NewPluginAuthn open cfg =
     (case lookupAuthnSymbol open cfg of Inl e \<Rightarrow> Inl e | Inr authn \<Rightarrow> Inr (plugin_Authenticate authn))"

definition NewPluginAuthzAuthorizer :: "'w authz_fn plugin_loader \<Rightarrow> plugin_config \<Rightarrow> go_error + 'w authz_fn" where
  "NewPluginAuthzAuthorizer open cfg =
     (case lookupAuthzSymbol open cfg of Inl e \<Rightarrow> Inl e | Inr authz \<Rightarrow> Inr (plugin_Authorize authz))"

lemma validated_plugin_loads:
  "plugin_authn_Validate open c = None \<Longrightarrow> \<exists>a. NewPluginAuthn open c = Inr a"
  "plugin_authz_Validate load c = None \<Longrightarrow> \<exists>a. NewPluginAuthzAuthorizer load c = Inr a"
  by (auto simp: plugin_authn_Validate_def plugin_authz_Validate_def NewPluginAuthn_def
      NewPluginAuthzAuthorizer_def split: sum.splits)

end
