(* ===== verification/K8s_Hash.thy ===== *)
theory K8s_Hash
  imports Go_Encoding "HOL-Library.Word"
begin

text \<open>
  \<^verbatim>\<open>k8s/hash.go\<close>: the keys of the caches, a SHA-256 over the JSON of the parts. SHA-256 of
  Go's standard library is modelled on 32-bit words (FIPS 180-4).
\<close>

unbundle bit_operations_syntax

section \<open>SHA-256\<close>

type_synonym u32 = "32 word"

text \<open>The round constants and the initial state, in decimal.\<close>

definition sha_K :: "u32 list" where
  "sha_K =
    [1116352408, 1899447441, 3049323471, 3921009573, 961987163, 1508970993,
     2453635748, 2870763221, 3624381080, 310598401, 607225278, 1426881987,
     1925078388, 2162078206, 2614888103, 3248222580, 3835390401, 4022224774,
     264347078, 604807628, 770255983, 1249150122, 1555081692, 1996064986,
     2554220882, 2821834349, 2952996808, 3210313671, 3336571891, 3584528711,
     113926993, 338241895, 666307205, 773529912, 1294757372, 1396182291,
     1695183700, 1986661051, 2177026350, 2456956037, 2730485921, 2820302411,
     3259730800, 3345764771, 3516065817, 3600352804, 4094571909, 275423344,
     430227734, 506948616, 659060556, 883997877, 958139571, 1322822218,
     1537002063, 1747873779, 1955562222, 2024104815, 2227730452, 2361852424,
     2428436474, 2756734187, 3204031479, 3329325298]"

definition sha_init :: "u32 list" where
  "sha_init =
    [1779033703, 3144134277, 1013904242, 2773480762,
     1359893119, 2600822924, 528734635, 1541459225]"

definition rotr :: "nat \<Rightarrow> u32 \<Rightarrow> u32" where
  "rotr n x = drop_bit n x OR push_bit (32 - n) x"

text \<open>Big-endian words of a block of bytes.\<close>

fun be_words :: "nat list \<Rightarrow> u32 list" where
  "be_words (a # b # c # d # r) = (((of_nat a * 256 + of_nat b) * 256 + of_nat c) * 256 + of_nat d) # be_words r"
| "be_words _ = []"

fun be_bytes :: "nat \<Rightarrow> nat \<Rightarrow> nat list" where
  "be_bytes 0 v = []"
| "be_bytes (Suc k) v = be_bytes k (v div 256) @ [v mod 256]"

definition sha_pad :: "nat list \<Rightarrow> nat list" where
  "sha_pad m = m @ [0x80] @ replicate ((119 - length m mod 64) mod 64) 0 @ be_bytes 8 (8 * length m)"

text \<open>The message schedule, latest word first.\<close>

fun sha_extend :: "nat \<Rightarrow> u32 list \<Rightarrow> u32 list" where
  "sha_extend 0 w = w"
| "sha_extend (Suc n) w =
     (let w15 = w ! 14; w2 = w ! 1;
          s0 = rotr 7 w15 XOR rotr 18 w15 XOR drop_bit 3 w15;
          s1 = rotr 17 w2 XOR rotr 19 w2 XOR drop_bit 10 w2
      in sha_extend n ((w ! 15 + s0 + w ! 6 + s1) # w))"

fun sha_round :: "u32 \<times> u32 \<Rightarrow> u32 list \<Rightarrow> u32 list" where
  "sha_round (k, w) [a, b, c, d, e, f, g, h] =
     (let S1 = rotr 6 e XOR rotr 11 e XOR rotr 25 e;
          ch = (e AND f) XOR (NOT e AND g);
          t1 = h + S1 + ch + k + w;
          S0 = rotr 2 a XOR rotr 13 a XOR rotr 22 a;
          maj = (a AND b) XOR (a AND c) XOR (b AND c);
          t2 = S0 + maj
      in [t1 + t2, a, b, c, d + t1, e, f, g])"
| "sha_round kw st = st"

definition sha_block :: "nat list \<Rightarrow> u32 list \<Rightarrow> u32 list" where
  "sha_block block st =
     (let w = rev (sha_extend 48 (rev (be_words block)))
      in map2 (+) st (fold sha_round (zip sha_K w) st))"

fun sha_blocks :: "nat \<Rightarrow> nat list \<Rightarrow> u32 list \<Rightarrow> u32 list" where
  "sha_blocks 0 m st = st"
| "sha_blocks (Suc n) m st = sha_blocks n (drop 64 m) (sha_block (take 64 m) st)"

definition word_bytes :: "u32 \<Rightarrow> nat list" where
  "word_bytes w = map (\<lambda>n. unat (drop_bit n w AND 255)) [24, 16, 8, 0]"

definition sha256 :: "string \<Rightarrow> nat list" where
  "sha256 s =
     (let m = sha_pad (map code s)
      in concat (map word_bytes (sha_blocks (length m div 64) m sha_init)))"

definition hex_encode :: "nat list \<Rightarrow> string" where
  "hex_encode bs = concat (map (\<lambda>b. [hex_char (b div 16), hex_char (b mod 16)]) bs)"

section \<open>Cache keys\<close>

text \<open>
  \<^verbatim>\<open>ComputeHash\<close> on strings, the only values it is given; \<^verbatim>\<open>json.Marshal\<close> of a string cannot
  fail.
\<close>

definition ComputeHash :: "string list \<Rightarrow> go_error + string" where
  "ComputeHash values =
     (if length values = 0 then Inr []
      else Inr (hex_encode (sha256 (fold (\<lambda>v written. written @ json_string v) values []))))"

section \<open>Laws\<close>

text \<open>A reader for JSON strings, after the opening quote: the string and the text after it.\<close>

definition json_escape :: "char \<Rightarrow> char" where
  "json_escape x =
     (if x = CHR ''b'' then char_of (8 :: nat) else if x = CHR ''f'' then char_of (12 :: nat)
      else if x = CHR ''n'' then char_of (10 :: nat) else if x = CHR ''r'' then char_of (13 :: nat)
      else if x = CHR ''t'' then char_of (9 :: nat) else x)"

abbreviation read_unit :: "string option \<Rightarrow> (string option list \<times> string) option \<Rightarrow> (string option list \<times> string) option" where
  "read_unit u \<equiv> map_option (map_prod ((#) u) id)"

text \<open>
  It gives the string as characters, with \<open>None\<close> for a replacement character that was written with an escape.
\<close>

function json_units :: "string \<Rightarrow> (string option list \<times> string) option" where
  "json_units s =
     (case s of
        [] \<Rightarrow> None
      | c # r \<Rightarrow>
          (if c = CHR 0x22 then Some ([], r)
           else if c \<noteq> CHR 0x5C then
             read_unit (Some (take (max 1 (utf8_size s)) s)) (json_units (drop (max 1 (utf8_size s)) s))
           else case r of
               [] \<Rightarrow> None
             | x # t \<Rightarrow>
                 (if x \<noteq> CHR ''u'' then read_unit (Some [json_escape x]) (json_units t)
                  else if take 4 t = ''fffd'' then read_unit None (json_units (drop 4 t))
                  else if take 4 t = ''2028'' then read_unit (Some [CHR 0xE2, CHR 0x80, CHR 0xA8]) (json_units (drop 4 t))
                  else if take 4 t = ''2029'' then read_unit (Some [CHR 0xE2, CHR 0x80, CHR 0xA9]) (json_units (drop 4 t))
                  else if length t < 4 then None
                  else case (hex_digit (t ! 2), hex_digit (t ! 3)) of
                      (Some h, Some l) \<Rightarrow> read_unit (Some [char_of (16 * h + l)]) (json_units (drop 4 t))
                    | _ \<Rightarrow> None)))"
  by pat_completeness auto
termination by (relation "measure length") auto

declare json_units.simps [simp del]

lemma hex_digit_char: "n < 16 \<Longrightarrow> hex_digit (hex_char n) = Some n"
  by (cases "n < 10") (simp_all add: hex_digit_def hex_char_def is_digit_def)

lemma char_of_code: "code c = n \<Longrightarrow> c = char_of n"
  by auto

lemma json_units_char:
  assumes "code c < 128"
  shows "json_units (json_char c @ t) = read_unit (Some [c]) (json_units t)"
proof -
  consider "c = CHR 0x22" | "c = CHR 0x5C" | "code c = 8" | "code c = 12" | "code c = 10" | "code c = 13" | "code c = 9"
    | "c \<noteq> CHR 0x22" "c \<noteq> CHR 0x5C" "code c \<notin> {8, 9, 10, 12, 13}"
      "code c < 32 \<or> c = CHR ''<'' \<or> c = CHR ''>'' \<or> c = CHR ''&''"
    | "c \<noteq> CHR 0x22" "c \<noteq> CHR 0x5C" "code c \<notin> {8, 9, 10, 12, 13}"
      "\<not> (code c < 32 \<or> c = CHR ''<'' \<or> c = CHR ''>'' \<or> c = CHR ''&'')"
    by blast
  then show ?thesis
  proof cases
    case 8
    have "16 * (code c div 16) + code c mod 16 = code c" by simp
    moreover have "hex_digit (hex_char (code c div 16)) = Some (code c div 16)"
      "hex_digit (hex_char (code c mod 16)) = Some (code c mod 16)"
      using assms by (simp_all add: hex_digit_char)
    ultimately show ?thesis
      using 8 by (simp add: json_char_def Let_def json_units.simps [of "CHR 0x5C # _"])
  next
    case 9
    then have "json_char c = [c]" unfolding json_char_def Let_def by simp
    then show ?thesis using 9 assms by (simp add: json_units.simps [of "c # _"])
  qed (auto simp: json_char_def Let_def json_escape_def json_units.simps [of "CHR 0x5C # _"] dest!: char_of_code)
qed

lemma json_units_wide:
  assumes w: "utf8_size w = length w" "1 < length w"
  shows "json_units (w @ t) = read_unit (Some w) (json_units t)"
proof -
  obtain c r where c: "w = c # r" using w(2) by (cases w) auto
  have size: "utf8_size (w @ t) = length w" using w by (intro utf8_size_append) auto
  have "128 \<le> code c" using utf8_size_high [of c r] w unfolding c by simp
  then have "c \<noteq> CHR 0x22" "c \<noteq> CHR 0x5C" by auto
  then have "json_units (w @ t) = read_unit (Some (take (max 1 (utf8_size (w @ t))) (w @ t)))
    (json_units (drop (max 1 (utf8_size (w @ t))) (w @ t)))"
    unfolding c append_Cons by (subst json_units.simps) simp
  moreover have "max 1 (length w) = length w" using w(2) by simp
  ultimately show ?thesis unfolding size by simp
qed

text \<open>Every unit of a string is read as it was.\<close>

definition good_unit :: "string option \<Rightarrow> bool" where
  "good_unit u = (case u of None \<Rightarrow> True | Some w \<Rightarrow> w \<noteq> [] \<and> utf8_size w = length w)"

lemma good_units: "\<forall>u \<in> set (utf8_units s). good_unit u"
  using utf8_units_size [of _ s] by (auto simp: good_unit_def split: option.splits)

lemma json_units_unit:
  assumes "good_unit u"
  shows "json_units (json_unit u @ t) = read_unit u (json_units t)"
proof (cases u)
  case None
  then show ?thesis by (simp add: json_unit_def json_units.simps [of "CHR 0x5C # _"])
next
  case (Some w)
  then have w: "w \<noteq> []" "utf8_size w = length w" using assms by (simp_all add: good_unit_def)
  show ?thesis
  proof (cases "length w = 1")
    case True
    then obtain c where c: "w = [c]" by (cases w) auto
    then show ?thesis using Some w json_units_char utf8_size_low [of c] by (simp add: json_unit_def)
  next
    case False
    then obtain a b r where ab: "w = a # b # r" using w(1) by (cases w rule: remdups_adj.cases) auto
    show ?thesis
    proof (cases "w = [CHR 0xE2, CHR 0x80, CHR 0xA8] \<or> w = [CHR 0xE2, CHR 0x80, CHR 0xA9]")
      case True
      then show ?thesis
        unfolding Some by (elim disjE) (simp_all add: json_unit_def json_units.simps [of "CHR 0x5C # _"])
    next
      case False
      then have "json_unit (Some w) = w" unfolding ab by (simp add: json_unit_def)
      moreover have "1 < length w" unfolding ab by simp
      ultimately show ?thesis unfolding Some using json_units_wide [OF w(2)] by simp
    qed
  qed
qed

lemma json_units_string: "\<forall>u \<in> set us. good_unit u \<Longrightarrow> json_units (concat (map json_unit us) @ CHR 0x22 # r) = Some (us, r)"
  by (induction us) (simp_all add: json_units_unit json_units.simps [of "CHR 0x22 # _"])

definition key_text :: "string list \<Rightarrow> string" where
  "key_text values = concat (map json_string values)"

text \<open>The text of a list of strings determines their units, and so the strings that are UTF-8.\<close>

lemma key_text_units: "key_text xs = key_text ys \<Longrightarrow> map utf8_units xs = map utf8_units ys"
proof (induction xs arbitrary: ys)
  case (Cons x xs)
  then obtain y ys' where ys: "ys = y # ys'" by (cases ys) (auto simp: key_text_def json_string_def)
  have "concat (map json_unit (utf8_units x)) @ CHR 0x22 # key_text xs =
      concat (map json_unit (utf8_units y)) @ CHR 0x22 # key_text ys'"
    using Cons.prems ys by (simp add: key_text_def json_string_def)
  then have "Some (utf8_units x, key_text xs) = Some (utf8_units y, key_text ys')"
    by (metis json_units_string [OF good_units])
  then show ?case using Cons.IH ys by simp
qed (auto simp: key_text_def json_string_def)

lemma key_text_of_units:
  assumes "map utf8_units xs = map utf8_units ys"
  shows "key_text xs = key_text ys"
proof -
  have "key_text zs = concat (map (\<lambda>us. CHR 0x22 # concat (map json_unit us) @ [CHR 0x22]) (map utf8_units zs))" for zs
    by (simp add: key_text_def json_string_def comp_def cong: map_cong)
  then show ?thesis using assms by presburger
qed

lemma utf8_units_inj: "utf8_valid x \<Longrightarrow> utf8_valid y \<Longrightarrow> utf8_units x = utf8_units y \<Longrightarrow> x = y"
  using utf8_units_join [of x] utf8_units_join [of y] by argo

lemma key_text_inj:
  assumes "list_all utf8_valid xs" "list_all utf8_valid ys" "key_text xs = key_text ys"
  shows "xs = ys"
proof -
  have "inj_on utf8_units (set xs \<union> set ys)"
    using assms(1,2) by (intro inj_onI utf8_units_inj) (auto simp: list_all_iff)
  then show ?thesis using key_text_units [OF assms(3)] by (rule map_inj_on [rotated])
qed

lemma ComputeHash_eq: "values \<noteq> [] \<Longrightarrow> ComputeHash values = Inr (hex_encode (sha256 (key_text values)))"
proof -
  have "fold (\<lambda>v written. written @ json_string v) vs acc = acc @ key_text vs" for vs acc
    by (induction vs arbitrary: acc) (auto simp: key_text_def)
  then show "values \<noteq> [] \<Longrightarrow> ?thesis" by (simp add: ComputeHash_def)
qed

lemma hex_pair_inj:
  "a < 256 \<Longrightarrow> b < 256 \<Longrightarrow> hex_char (a div 16) = hex_char (b div 16) \<Longrightarrow>
   hex_char (a mod 16) = hex_char (b mod 16) \<Longrightarrow> a = b"
proof -
  assume a: "a < 256" "b < 256" "hex_char (a div 16) = hex_char (b div 16)"
    "hex_char (a mod 16) = hex_char (b mod 16)"
  have "Some (a div 16) = Some (b div 16)"
  proof -
    have "a div 16 < 16" "b div 16 < 16" using a(1,2) by linarith+
    then show ?thesis using a(3) by (metis hex_digit_char)
  qed
  moreover have "Some (a mod 16) = Some (b mod 16)"
  proof -
    have "a mod 16 < 16" "b mod 16 < 16" by simp_all
    then show ?thesis using a(4) by (metis hex_digit_char)
  qed
  ultimately have "a div 16 = b div 16" "a mod 16 = b mod 16" by blast+
  then show "a = b" using div_mult_mod_eq [of a 16] div_mult_mod_eq [of b 16] by argo
qed

lemma hex_encode_inj:
  "\<forall>b \<in> set xs \<union> set ys. b < 256 \<Longrightarrow> hex_encode xs = hex_encode ys \<Longrightarrow> xs = ys"
proof (induction xs arbitrary: ys)
  case (Cons x xs)
  then obtain y ys' where ys: "ys = y # ys'" by (cases ys) (auto simp: hex_encode_def)
  then have "x = y" using Cons.prems hex_pair_inj [of x y] by (simp add: hex_encode_def)
  moreover have "xs = ys'" using Cons.prems ys by (intro Cons.IH) (auto simp: hex_encode_def)
  ultimately show ?case using ys by simp
qed (auto simp: hex_encode_def)

lemma word_bytes_bound: "\<forall>b \<in> set (word_bytes w). b < 256"
proof
  fix b assume "b \<in> set (word_bytes w)"
  then obtain n where b: "b = unat (drop_bit n w AND 255)" unfolding word_bytes_def set_map by blast
  have "drop_bit n w AND 255 \<le> (255 :: u32)" by (rule word_and_le1)
  then have "b \<le> unat (255 :: u32)" unfolding b by (simp only: word_le_nat_alt)
  then show "b < 256" by simp
qed

lemma sha256_bytes: "\<forall>b \<in> set (sha256 s). b < 256"
  using word_bytes_bound by (auto simp: sha256_def Let_def)

lemma ComputeHash_same:
  "ComputeHash (x # xs) = ComputeHash (y # ys) \<longleftrightarrow> sha256 (key_text (x # xs)) = sha256 (key_text (y # ys))"
proof -
  have "hex_encode (sha256 a) = hex_encode (sha256 b) \<longleftrightarrow> sha256 a = sha256 b" for a b
    using sha256_bytes [of a] sha256_bytes [of b] hex_encode_inj [of "sha256 a" "sha256 b"]
    by (metis Un_iff)
  then show ?thesis by (simp add: ComputeHash_eq)
qed

text \<open>
  C37. The keys of the caches keep different requests apart: two keys are equal exactly when SHA-256
  agrees on the texts that are hashed, and two lists of parts have the same text exactly when they have
  the same characters, part by part. For parts that are UTF-8 the text determines the parts, so two
  such requests can share a key only through a collision of SHA-256. A byte that belongs to no
  character is written as a replacement, so parts that differ only in such bytes share their key, for
  every hash: that is all that is lost.
\<close>

theorem cache_keys_distinct:
  "(ComputeHash (x # xs) = ComputeHash (y # ys) \<longleftrightarrow>
      sha256 (key_text (x # xs)) = sha256 (key_text (y # ys))) \<and>
   (key_text xs = key_text ys \<longleftrightarrow> map utf8_units xs = map utf8_units ys) \<and>
   (list_all utf8_valid xs \<and> list_all utf8_valid ys \<longrightarrow> (key_text xs = key_text ys \<longleftrightarrow> xs = ys)) \<and>
   key_text [[CHR 0x80]] = key_text [[CHR 0xFF]]"
proof (intro conjI impI)
  show "ComputeHash (x # xs) = ComputeHash (y # ys) \<longleftrightarrow>
      sha256 (key_text (x # xs)) = sha256 (key_text (y # ys))" by (rule ComputeHash_same)
  show "key_text xs = key_text ys \<longleftrightarrow> map utf8_units xs = map utf8_units ys"
    using key_text_units key_text_of_units by blast
  show "list_all utf8_valid xs \<and> list_all utf8_valid ys \<Longrightarrow> key_text xs = key_text ys \<longleftrightarrow> xs = ys"
    using key_text_inj by blast
  show "key_text [[CHR 0x80]] = key_text [[CHR 0xFF]]"
    by (rule key_text_of_units) (simp add: utf8_size_def byte_in_def)
qed

text \<open>The account ''user1'' and its identifier and token, with a two-byte character in the second.\<close>

lemma cache_keys_distinct_witness:
  "list_all utf8_valid [''user1'', [CHR 0xC3, CHR 0xA9]] \<and>
   key_text [''user1'', [CHR 0xC3, CHR 0xA9]] \<noteq> key_text [''user1'', [CHR 0xC3, CHR 0xA8]]"
proof -
  have "utf8_valid ''user1''" by (intro utf8_valid_ascii) simp
  moreover have "utf8_valid [CHR 0xC3, CHR 0xA9]" "utf8_valid [CHR 0xC3, CHR 0xA8]"
    by (simp_all add: utf8_valid_def utf8_size_def byte_in_def)
  moreover have "utf8_units [CHR 0xC3, CHR 0xA9] \<noteq> utf8_units [CHR 0xC3, CHR 0xA8]"
    by (simp add: utf8_size_def byte_in_def)
  ultimately show ?thesis
    using cache_keys_distinct
      [where xs = "[''user1'', [CHR 0xC3, CHR 0xA9]]" and ys = "[''user1'', [CHR 0xC3, CHR 0xA8]]"]
    by (simp del: utf8_units.simps)
qed

end
