(* ===== verification/K8s_Config.thy ===== *)
theory K8s_Config
  imports Api
begin

text \<open>
  Package \<^verbatim>\<open>k8s\<close>: the verbs of registry actions (\<^verbatim>\<open>const.go\<close>), repository names
  (\<^verbatim>\<open>helpers.go\<close>), access rules (\<^verbatim>\<open>rules.go\<close>) and the configuration (\<^verbatim>\<open>config.go\<close>).

  The matcher of \<^verbatim>\<open>doublestar\<close> is the parameter \<open>glob\<close>: whether it matched, and its error.
  Durations are nanoseconds.
\<close>

section \<open>Verbs and names\<close>

definition DefaultCacheSize :: nat where "DefaultCacheSize = 8192"

definition verbsMap :: "(string \<times> string) list" where
  "verbsMap = [(''pull'', ''get''), (''push'', ''create''), (''delete'', ''delete'')]"

definition GetK8sVerb :: "string \<Rightarrow> string option" where
  "GetK8sVerb dockerAction = map_of verbsMap dockerAction"

text \<open>\<^verbatim>\<open>strings.SplitN(name, "/", 2)\<close>: one part without a slash, two with one.\<close>

definition split_n2 :: "char \<Rightarrow> string \<Rightarrow> string list" where
  "split_n2 c s = (case cut_at c s of None \<Rightarrow> [s] | Some (a, b) \<Rightarrow> [a, b])"

definition SplitNamespaceAndPath :: "string \<Rightarrow> string \<times> string" where
  "SplitNamespaceAndPath name =
     (let parts = split_n2 CHR ''/'' name; ns = parts ! 0;
          relativePath = (if length parts = 2 then parts ! 1 else [])
      in (ns, relativePath))"

section \<open>Rules\<close>

record resource_rule =
  rr_Verbs :: "string list"
  rr_APIGroups :: "string list"
  rr_Resources :: "string list"
  rr_ResourceNames :: "string list"

type_synonym rules = "resource_rule list"
type_synonym glob_fn = "string \<Rightarrow> string \<Rightarrow> bool \<times> go_error option"

definition matchRule :: "glob_fn \<Rightarrow> resource_rule \<Rightarrow> string \<Rightarrow> string \<Rightarrow> bool" where
  "matchRule glob rule verb resourcePath =
     (if \<not> List.member (rr_Verbs rule) verb \<and> \<not> List.member (rr_Verbs rule) ''*'' then False
      else if length (rr_ResourceNames rule) = 0 then True
      else list_ex (\<lambda>pattern. fst (glob (to_lower pattern) resourcePath)) (rr_ResourceNames rule))"

definition IsActionAllowed :: "glob_fn \<Rightarrow> rules \<Rightarrow> string \<Rightarrow> string \<Rightarrow> bool" where
  "IsActionAllowed glob r verb resourcePath =
     (if resourcePath = [] \<or> length r = 0 then False
      else list_ex (\<lambda>rule. matchRule glob rule verb (to_lower resourcePath)) r)"

section \<open>Configuration\<close>

type_synonym duration = int

definition second :: duration where "second = 10 ^ 9"
definition minute :: duration where "minute = 60 * second"

definition defaultSuccessTTL :: duration where "defaultSuccessTTL = 1 * minute"
definition defaultFailureTTL :: duration where "defaultFailureTTL = 30 * second"
definition defaultUserName :: string where "defaultUserName = ''token''"
definition defaultRequestTimeout :: duration where "defaultRequestTimeout = 10 * second"

record authz_config =
  ac_APIGroup :: string
  ac_Resource :: string
  ac_NamespaceCheckVerbs :: "string list"

text \<open>The rate limit is a floating-point number that is only handed on; it has the type \<open>'q\<close>.\<close>

record 'q auth_config =
  kc_Kubeconfig :: string
  kc_UserName :: string
  kc_QPS :: 'q
  kc_Burst :: int
  kc_RequestTimeout :: duration
  kc_SuccessTTL :: duration
  kc_FailureTTL :: duration
  kc_Authz :: "authz_config option"

definition NeedsNamespaceCheck :: "authz_config \<Rightarrow> string list \<Rightarrow> bool" where
  "NeedsNamespaceCheck c actions =
     (if length (ac_NamespaceCheckVerbs c) = 0 then False
      else list_ex (\<lambda>a. List.member (ac_NamespaceCheckVerbs c) a) actions)"

text \<open>
  \<^verbatim>\<open>AuthzConfig.Validate\<close>: the fields that fail the rule \<^verbatim>\<open>Required\<close> of \<^verbatim>\<open>ozzo-validation\<close>, which is the
  argument \<open>required\<close> (the error for a field's value, if any), with their errors.
\<close>

definition authz_Validate :: "(string \<Rightarrow> go_error option) \<Rightarrow> authz_config \<Rightarrow> (string \<times> go_error) list" where
  "authz_Validate required c =
     concat (map (\<lambda>(name, v). case required v of None \<Rightarrow> [] | Some e \<Rightarrow> [(name, e)])
       [(''APIGroup'', ac_APIGroup c), (''Resource'', ac_Resource c)])"

definition rule_selected :: "authz_config \<Rightarrow> resource_rule \<Rightarrow> bool" where
  "rule_selected c rule =
     (if \<not> list_ex (\<lambda>g. g = ''*'' \<or> equal_fold g (ac_APIGroup c)) (rr_APIGroups rule) then False
      else if \<not> list_ex (\<lambda>r. r = ''*'' \<or> equal_fold r (ac_Resource c)) (rr_Resources rule) then False
      else True)"

definition FilterRules :: "authz_config \<Rightarrow> rules \<Rightarrow> rules" where
  "FilterRules c rules = fold (\<lambda>rule out. if rule_selected c rule then out @ [rule] else out) rules []"

definition ApplyDefaults :: "'q auth_config option \<Rightarrow> 'q auth_config option" where
  "ApplyDefaults pc =
     (case pc of
        None \<Rightarrow> None
      | Some c0 \<Rightarrow>
          (let c1 = (if kc_SuccessTTL c0 = 0 then c0\<lparr>kc_SuccessTTL := defaultSuccessTTL\<rparr> else c0);
               c2 = (if kc_FailureTTL c1 = 0 then c1\<lparr>kc_FailureTTL := defaultFailureTTL\<rparr> else c1);
               c3 = (if kc_UserName c2 = [] then c2\<lparr>kc_UserName := defaultUserName\<rparr> else c2);
               c4 = (if kc_RequestTimeout c3 \<le> 0 then c3\<lparr>kc_RequestTimeout := defaultRequestTimeout\<rparr> else c3)
           in Some c4))"

text \<open>
  \<^verbatim>\<open>AuthConfig.Validate\<close>: the nested configuration is validated when it is there; its errors are
  reported under the key of the section.
\<close>

definition auth_Validate :: "(string \<Rightarrow> go_error option) \<Rightarrow> 'q auth_config \<Rightarrow> string \<Rightarrow> go_error option" where
  "auth_Validate required c configKey =
     (case kc_Authz c of
        None \<Rightarrow> None
      | Some az \<Rightarrow>
          (if authz_Validate required az = [] then None else Some (Errorf (configKey @ ''.'' @ ''Authz'') [])))"

text \<open>
  The REST configuration of \<^verbatim>\<open>client-go\<close>: the credentials and the limits are the fields the
  program sets; everything else in it has the type \<open>'r\<close>. Files and \<^verbatim>\<open>client-go\<close> are the
  arguments \<open>stat\<close>, \<open>from_flags\<close> and \<open>in_cluster\<close>.
\<close>

record ('q, 'r) rest_config =
  rc_other :: 'r
  rc_BearerToken :: string
  rc_BearerTokenFile :: string
  rc_QPS :: 'q
  rc_Burst :: int

record ('q, 'r) rest_loader =
  rl_stat :: "string \<Rightarrow> go_error option"
  rl_from_flags :: "string \<Rightarrow> go_error + ('q, 'r) rest_config"
  rl_in_cluster :: "go_error + ('q, 'r) rest_config"

definition initRestConfig :: "('q, 'r) rest_loader \<Rightarrow> 'q auth_config \<Rightarrow> go_error + ('q, 'r) rest_config" where
  "initRestConfig loader c =
     (if kc_Kubeconfig c \<noteq> [] then
        (case rl_stat loader (kc_Kubeconfig c) of
           Some statErr \<Rightarrow> Inl (Errorf ''kubeconfig not accessible'' [statErr])
         | None \<Rightarrow> rl_from_flags loader (kc_Kubeconfig c))
      else rl_in_cluster loader)"

definition BuildRestConfig :: "('q, 'r) rest_loader \<Rightarrow> 'q auth_config \<Rightarrow> go_error + ('q, 'r) rest_config" where
  "BuildRestConfig loader c =
     (case initRestConfig loader c of
        Inl err \<Rightarrow> Inl (Errorf ''cannot initialize'' [err])
      | Inr rc \<Rightarrow> Inr (rc\<lparr>rc_QPS := kc_QPS c, rc_Burst := kc_Burst c\<rparr>))"

section \<open>Laws\<close>

lemma SplitNamespaceAndPath_eq:
  "SplitNamespaceAndPath name = (case cut_at CHR ''/'' name of None \<Rightarrow> (name, []) | Some p \<Rightarrow> p)"
  by (cases "cut_at CHR ''/'' name") (auto simp: SplitNamespaceAndPath_def split_n2_def simp del: cut_at_None)

lemma SplitNamespaceAndPath_split:
  "SplitNamespaceAndPath name = (ns, path) \<longleftrightarrow>
     (CHR ''/'' \<notin> set ns \<and> name = ns @ CHR ''/'' # path) \<or> (CHR ''/'' \<notin> set name \<and> ns = name \<and> path = [])"
proof (cases "cut_at CHR ''/'' name")
  case None
  then have "SplitNamespaceAndPath name = (name, [])" unfolding SplitNamespaceAndPath_eq None by simp
  moreover have "CHR ''/'' \<notin> set name" using None by simp
  ultimately show ?thesis by auto
next
  case (Some p)
  then obtain a b where p: "p = (a, b)" "name = a @ CHR ''/'' # b" "CHR ''/'' \<notin> set a"
    using cut_at_Some [of "CHR ''/''" name "fst p" "snd p"] by (cases p) auto
  have "cut_at CHR ''/'' name = Some (ns, path) \<longleftrightarrow> name = ns @ CHR ''/'' # path \<and> CHR ''/'' \<notin> set ns"
    by (rule cut_at_Some)
  then show ?thesis using Some p by (auto simp: SplitNamespaceAndPath_eq)
qed

text \<open>
  A repository name splits at its first slash: the namespace never holds a slash, the parts
  joined by the slash give the name back, and a name without a slash is a namespace without a
  path.
\<close>

theorem SplitNamespaceAndPath_spec:
  "SplitNamespaceAndPath name = (ns, path) \<longleftrightarrow>
     (CHR ''/'' \<notin> set ns \<and> name = ns @ CHR ''/'' # path) \<or> (CHR ''/'' \<notin> set name \<and> ns = name \<and> path = [])"
  by (rule SplitNamespaceAndPath_split)

lemma GetK8sVerb_Some:
  "GetK8sVerb a = Some v \<longleftrightarrow> (a, v) \<in> {(''pull'', ''get''), (''push'', ''create''), (''delete'', ''delete'')}"
  by (auto simp: GetK8sVerb_def verbsMap_def)

lemma FilterRules_eq: "FilterRules c rules = filter (rule_selected c) rules"
proof -
  have "fold (\<lambda>rule out. if P rule then out @ [rule] else out) rs acc = acc @ filter P rs" for P and rs acc :: rules
    by (induction rs arbitrary: acc) auto
  then show ?thesis by (simp add: FilterRules_def)
qed

text \<open>
  The rules kept for a registry are, in their order, exactly those that name its API group and
  its resource, in any letter case or by the star.
\<close>

theorem FilterRules_spec:
  "FilterRules c rules =
     filter (\<lambda>rule. (\<exists>g \<in> set (rr_APIGroups rule). g = ''*'' \<or> to_lower g = to_lower (ac_APIGroup c)) \<and>
                   (\<exists>r \<in> set (rr_Resources rule). r = ''*'' \<or> to_lower r = to_lower (ac_Resource c))) rules"
  unfolding FilterRules_eq rule_selected_def list_ex_iff equal_fold_def by (rule filter_cong) auto

text \<open>
  A verb is allowed on a path exactly when the path is not empty and some rule lists the verb or
  the star and either names no resource or one of its patterns, in lower case, matches the path
  in lower case. So the letter case of paths and patterns never matters.
\<close>

theorem IsActionAllowed_spec:
  "IsActionAllowed glob r verb path \<longleftrightarrow>
     path \<noteq> [] \<and>
     (\<exists>rule \<in> set r. (verb \<in> set (rr_Verbs rule) \<or> ''*'' \<in> set (rr_Verbs rule)) \<and>
        (rr_ResourceNames rule = [] \<or>
         (\<exists>p \<in> set (rr_ResourceNames rule). fst (glob (to_lower p) (to_lower path)))))"
  by (auto simp: IsActionAllowed_def matchRule_def list_ex_iff)

text \<open>
  The defaults fill exactly the settings that were left out: afterwards there is a user name, a
  positive timeout and nonzero lifetimes, every setting that was given is kept, a lifetime of
  zero is replaced too, so caching can only be switched off by a negative one, and applying them
  twice changes nothing.
\<close>

theorem ApplyDefaults_spec:
  "\<exists>c'. ApplyDefaults (Some c) = Some c' \<and>
     kc_SuccessTTL c' = (if kc_SuccessTTL c = 0 then defaultSuccessTTL else kc_SuccessTTL c) \<and>
     kc_FailureTTL c' = (if kc_FailureTTL c = 0 then defaultFailureTTL else kc_FailureTTL c) \<and>
     kc_UserName c' = (if kc_UserName c = [] then defaultUserName else kc_UserName c) \<and>
     kc_RequestTimeout c' = (if 0 < kc_RequestTimeout c then kc_RequestTimeout c else defaultRequestTimeout) \<and>
     kc_SuccessTTL c' \<noteq> 0 \<and> kc_FailureTTL c' \<noteq> 0 \<and> kc_UserName c' \<noteq> [] \<and> 0 < kc_RequestTimeout c' \<and>
     kc_Authz c' = kc_Authz c \<and> kc_Kubeconfig c' = kc_Kubeconfig c \<and>
     ApplyDefaults (Some c') = Some c'"
  by (simp add: ApplyDefaults_def Let_def defaultSuccessTTL_def defaultFailureTTL_def defaultUserName_def
      defaultRequestTimeout_def minute_def second_def)

text \<open>A configuration for the examples of the other theories.\<close>

definition test_config :: "unit auth_config" where
  "test_config = \<lparr>kc_Kubeconfig = [], kc_UserName = ''token'', kc_QPS = (), kc_Burst = 0,
     kc_RequestTimeout = second, kc_SuccessTTL = minute, kc_FailureTTL = second,
     kc_Authz = Some \<lparr>ac_APIGroup = ''registry.example.com'', ac_Resource = ''registries'',
       ac_NamespaceCheckVerbs = [''push'']\<rparr>\<rparr>"

end
