(* ===== verification/K8s_Namespace.thy ===== *)
theory K8s_Namespace
  imports K8s_Config
begin

text \<open>
  \<^verbatim>\<open>k8s/namespace_checker.go\<close>: whether a namespace exists, asked of the Kubernetes API and kept in
  a cache with an expiry for answers and one for errors.

  The cache of \<^verbatim>\<open>apimachinery\<close> holds entries until they expire, or are evicted: which entries it
  keeps at a time is the parameter \<open>keep\<close>. The API is the parameter \<open>get\<close> (an error or none) with
  \<open>is_not_found\<close>, the clock the parameter \<open>now\<close>, both on the state \<open>'x\<close> outside the program.
  Calls come one after the other here; \<open>K8s_Inflight\<close> has the interleavings of concurrent callers.
\<close>

section \<open>The cache\<close>

type_synonym ('k, 'v) cache = "('k \<times> 'v \<times> int) list"

definition cache_trim :: "(int \<Rightarrow> 'k \<Rightarrow> bool) \<Rightarrow> int \<Rightarrow> ('k, 'v) cache \<Rightarrow> ('k, 'v) cache" where
  "cache_trim keep t c = filter (\<lambda>(k, v, expiry). t \<le> expiry \<and> keep t k) c"

definition cache_get :: "(int \<Rightarrow> 'k \<Rightarrow> bool) \<Rightarrow> int \<Rightarrow> ('k, 'v) cache \<Rightarrow> 'k \<Rightarrow> 'v option" where
  "cache_get keep t c k = map_option fst (map_of (cache_trim keep t c) k)"

definition cache_add :: "'k \<Rightarrow> 'v \<Rightarrow> int \<Rightarrow> int \<Rightarrow> ('k, 'v) cache \<Rightarrow> ('k, 'v) cache" where
  "cache_add k v ttl t c = (k, v, t + ttl) # filter (\<lambda>(k', _). k' \<noteq> k) c"

lemma cache_get_member: "cache_get keep t c k = Some v \<Longrightarrow> \<exists>expiry. (k, v, expiry) \<in> set c \<and> t \<le> expiry"
  by (auto simp: cache_get_def cache_trim_def dest!: map_of_SomeD)

lemma cache_trim_subset: "set (cache_trim keep t c) \<subseteq> set c"
  by (auto simp: cache_trim_def)

lemma cache_add_member: "e \<in> set (cache_add k v ttl t c) \<Longrightarrow> e = (k, v, t + ttl) \<or> e \<in> set c"
  by (auto simp: cache_add_def)

lemma cache_get_add:
  "cache_get keep t' (cache_add k v ttl t c) k = (if t' \<le> t + ttl \<and> keep t' k then Some v else None)"
  by (auto simp: cache_get_def cache_add_def cache_trim_def map_of_eq_None_iff)

lemma cache_trim_get: "cache_get keep t (cache_trim keep t c) k = cache_get keep t c k"
  by (simp add: cache_get_def cache_trim_def)

section \<open>Checkers\<close>

type_synonym 'w ns_fn = "string \<Rightarrow> 'w \<Rightarrow> bool go \<times> 'w"

text \<open>The client is built once from the REST configuration, by the argument \<open>new_client\<close>.\<close>

record 'cl namespace_checker =
  nc_requestTimeout :: duration
  nc_client :: 'cl

definition NewNamespaceChecker ::
  "('rc \<Rightarrow> go_error + 'cl) \<Rightarrow> duration \<Rightarrow> 'rc option \<Rightarrow> go_error + 'cl namespace_checker" where
  "NewNamespaceChecker new_client requestTimeout restConfig =
     (case restConfig of
        None \<Rightarrow> Inl (Errorf ''restConfig is required'' [])
      | Some rc \<Rightarrow>
          (if requestTimeout \<le> 0 then Inl (Errorf ''requestTimeout must be positive'' [])
           else case new_client rc of
               Inl err \<Rightarrow> Inl (Errorf ''failed to create Kubernetes client'' [err])
             | Inr client \<Rightarrow> Inr \<lparr>nc_requestTimeout = requestTimeout, nc_client = client\<rparr>))"

definition ns_Exists :: "(string \<Rightarrow> 'x \<Rightarrow> go_error option \<times> 'x) \<Rightarrow> (go_error \<Rightarrow> bool) \<Rightarrow> 'x ns_fn" where
  "ns_Exists get is_not_found ns x =
     (if ns = [] then (Inr False, x)
      else case get ns x of
          (None, x') \<Rightarrow> (Inr True, x')
        | (Some err, x') \<Rightarrow>
            (if is_not_found err then (Inr False, x')
             else (Inl (Err (Errorf ''failed to get namespace'' [err])), x')))"

lemma ns_Exists_True: "fst (ns_Exists get nf ns x) = Inr True \<longleftrightarrow> ns \<noteq> [] \<and> (\<exists>x'. get ns x = (None, x'))"
  by (cases "get ns x"; cases "fst (get ns x)") (auto simp: ns_Exists_def)

definition cached_Exists ::
  "(int \<Rightarrow> string \<Rightarrow> bool) \<Rightarrow> ('x \<Rightarrow> int) \<Rightarrow> duration \<Rightarrow> duration \<Rightarrow> 'x ns_fn \<Rightarrow>
   ((string, bool go) cache \<times> 'x) ns_fn" where
  "cached_Exists keep now successTTL failureTTL inner ns st =
     (let (c, x) = st in
      if ns = [] then (Inr False, (c, x))
      else case cache_get keep (now x) c ns of
          Some r \<Rightarrow> (r, (cache_trim keep (now x) c, x))
        | None \<Rightarrow>
            (let c1 = cache_trim keep (now x) c; (r, x') = inner ns x in
             case r of
               Inl (Panic m) \<Rightarrow> (Inl (Panic m), (c1, x'))
             | Inl (Err e) \<Rightarrow>
                 (Inl (Err e), (if failureTTL > 0 then cache_add ns r failureTTL (now x') c1 else c1, x'))
             | Inr b \<Rightarrow>
                 (Inr b, (if successTTL > 0 then cache_add ns r successTTL (now x') c1 else c1, x'))))"

text \<open>The cached checker is known by its only method; it starts with an empty cache.\<close>

definition NewCachedNamespaceChecker ::
  "(int \<Rightarrow> string \<Rightarrow> bool) \<Rightarrow> ('x \<Rightarrow> int) \<Rightarrow> 'x ns_fn \<Rightarrow> duration \<Rightarrow> duration \<Rightarrow>
   ((string, bool go) cache \<times> 'x) ns_fn" where
  [simp]: "NewCachedNamespaceChecker keep now inner successTTL failureTTL =
     cached_Exists keep now successTTL failureTTL inner"

section \<open>The contract of a checker\<close>

text \<open>
  The answers a checker may give for a namespace are described by \<open>legit\<close>, the states in which it
  is called by \<open>ok\<close>.
\<close>

locale ns_checker =
  fixes exists :: "'w ns_fn" and ok :: "'w \<Rightarrow> bool" and legit :: "string \<Rightarrow> bool go \<Rightarrow> bool"
  assumes exists_ok: "ok w \<Longrightarrow> exists ns w = (r, w') \<Longrightarrow> ok w'"
    and exists_legit: "ok w \<Longrightarrow> ns \<noteq> [] \<Longrightarrow> exists ns w = (r, w') \<Longrightarrow> legit ns r"
    and exists_empty: "exists [] w = (Inr False, w)"

text \<open>The answers of a sequence of calls.\<close>

fun call_all :: "('a \<Rightarrow> 'w \<Rightarrow> 'r \<times> 'w) \<Rightarrow> 'a list \<Rightarrow> 'w \<Rightarrow> 'r list \<times> 'w" where
  "call_all f [] w = ([], w)"
| "call_all f (a # as) w =
     (let (r, w1) = f a w; (rs, w2) = call_all f as w1 in (r # rs, w2))"

context ns_checker begin

lemma answers_legit:
  "ok w \<Longrightarrow> list_all2 (\<lambda>ns r. if ns = [] then r = Inr False else legit ns r) nss (fst (call_all exists nss w))"
proof (induction nss arbitrary: w)
  case (Cons ns nss)
  obtain r w1 where e: "exists ns w = (r, w1)" by (cases "exists ns w")
  obtain rs w2 where c: "call_all exists nss w1 = (rs, w2)" by (cases "call_all exists nss w1")
  have "if ns = [] then r = Inr False else legit ns r"
    using exists_legit [OF Cons.prems _ e] exists_empty [of w] e by auto
  moreover have "list_all2 (\<lambda>ns r. if ns = [] then r = Inr False else legit ns r) nss rs"
    using Cons.IH [OF exists_ok [OF Cons.prems e]] c by simp
  ultimately show ?case by (simp add: e c)
qed simp

end

text \<open>A checker with a cache in front of it keeps the contract.\<close>

definition ns_cache_ok ::
  "('x \<Rightarrow> bool) \<Rightarrow> (string \<Rightarrow> bool go \<Rightarrow> bool) \<Rightarrow> (string, bool go) cache \<times> 'x \<Rightarrow> bool" where
  "ns_cache_ok ok legit st = (ok (snd st) \<and> (\<forall>(k, r, t) \<in> set (fst st). legit k r))"

locale cached_checker = ns_checker exists ok legit
  for exists :: "'x ns_fn" and ok :: "'x \<Rightarrow> bool" and legit :: "string \<Rightarrow> bool go \<Rightarrow> bool" +
  fixes keep :: "int \<Rightarrow> string \<Rightarrow> bool" and now :: "'x \<Rightarrow> int" and successTTL failureTTL :: duration
begin

lemma cached_step:
  assumes "ns_cache_ok ok legit (c, x)" "cached_Exists keep now successTTL failureTTL exists ns (c, x) = (r, st')"
  shows "ns_cache_ok ok legit st' \<and> (ns \<noteq> [] \<longrightarrow> legit ns r)"
proof (cases "ns = []")
  case True
  then show ?thesis using assms by (auto simp: cached_Exists_def)
next
  case ns: False
  have legit: "legit k v" if "(k, v, t) \<in> set c" for k v t
    using that assms(1) by (auto simp: ns_cache_ok_def)
  have x: "ok x" using assms(1) by (simp add: ns_cache_ok_def)
  let ?c1 = "cache_trim keep (now x) c"
  have trim: "\<forall>(k, r, t) \<in> set ?c1. legit k r" using legit cache_trim_subset by fast
  show ?thesis
  proof (cases "cache_get keep (now x) c ns")
    case (Some v)
    then have "r = v" "st' = (?c1, x)" using assms(2) ns by (auto simp: cached_Exists_def)
    then show ?thesis using cache_get_member [OF Some] legit trim x by (auto simp: ns_cache_ok_def)
  next
    case None
    obtain v x' where e: "exists ns x = (v, x')" by (cases "exists ns x")
    have ok': "ok x'" and v: "legit ns v" using exists_ok [OF x e] exists_legit [OF x ns e] by auto
    have add: "legit k r" if "(k, r, t) \<in> set (cache_add ns v ttl (now x') ?c1)" for ttl k r t
      using cache_add_member [OF that] trim v by auto
    show ?thesis
      using assms(2) ns None e ok' v trim add
      by (auto simp: cached_Exists_def ns_cache_ok_def Let_def split: sum.splits go_stop.splits if_splits)
  qed
qed

end

sublocale cached_checker \<subseteq> cached: ns_checker "cached_Exists keep now successTTL failureTTL exists" "ns_cache_ok ok legit" legit
proof
  fix w ns r w'
  assume "ns_cache_ok ok legit w" "cached_Exists keep now successTTL failureTTL exists ns w = (r, w')"
  then show "ns_cache_ok ok legit w'" using cached_step by (cases w) blast
next
  fix w ns r w'
  assume "ns_cache_ok ok legit w" "ns \<noteq> []" "cached_Exists keep now successTTL failureTTL exists ns w = (r, w')"
  then show "legit ns r" using cached_step by (cases w) blast
next
  fix w show "cached_Exists keep now successTTL failureTTL exists [] w = (Inr False, w)"
    by (cases w) (simp add: cached_Exists_def)
qed

interpretation api_checker: ns_checker "ns_Exists get is_not_found" "\<lambda>_. True"
  "\<lambda>ns r. \<exists>x. r = fst (ns_Exists get is_not_found ns x)" for get is_not_found
proof
  fix w ns r w'
  assume "ns_Exists get is_not_found ns w = (r, w')"
  then have "r = fst (ns_Exists get is_not_found ns w)" by simp
  then show "\<exists>x. r = fst (ns_Exists get is_not_found ns x)" by (rule exI)
qed (simp_all add: ns_Exists_def)

interpretation cached_api_checker: cached_checker "ns_Exists get is_not_found" "\<lambda>_. True"
  "\<lambda>ns r. \<exists>x. r = fst (ns_Exists get is_not_found ns x)" keep now successTTL failureTTL
  for get is_not_found keep now successTTL failureTTL
  by unfold_locales

text \<open>
  Starting from an empty cache, every answer of the cached checker, through any sequence of
  requests, is one that the API itself gives for that very namespace; the empty name never
  exists and is never asked for.
\<close>

theorem cached_namespace_answers:
  "list_all2 (\<lambda>ns r. if ns = [] then r = Inr False else \<exists>x'. r = fst (ns_Exists get is_not_found ns x'))
     nss (fst (call_all (cached_Exists keep now successTTL failureTTL (ns_Exists get is_not_found)) nss ([], x)))"
  by (rule cached_api_checker.cached.answers_legit) (simp add: ns_cache_ok_def)

text \<open>
  Within its lifetime an answer is served from the cache without another request, as long as
  it is not evicted; with a lifetime that is not positive nothing is kept and every call asks
  again.
\<close>

theorem cached_namespace_hit:
  assumes "ns \<noteq> []" and "cache_get keep (now x) c ns = None" and "inner ns x = (Inr b, x1)"
    and st: "snd (cached_Exists keep now successTTL failureTTL inner ns (c, x)) = (c1, x1)"
  shows "fst (cached_Exists keep now successTTL failureTTL inner ns (c, x)) = Inr b \<and>
    (0 < successTTL \<and> now x2 \<le> now x1 + successTTL \<and> keep (now x2) ns \<longrightarrow>
       fst (cached_Exists keep now successTTL failureTTL inner ns (c1, x2)) = Inr b \<and>
       snd (snd (cached_Exists keep now successTTL failureTTL inner ns (c1, x2))) = x2) \<and>
    (successTTL \<le> 0 \<longrightarrow> c1 = cache_trim keep (now x) c)"
  using assms by (auto simp: cached_Exists_def cache_get_add Let_def)

lemma cached_namespace_hit_witness:
  "fst (cached_Exists (\<lambda>_ _. True) id 60 30 (\<lambda>ns x. (Inr True, x + 1)) ''team''
     ([(''team'', Inr True, 61)], 50)) = Inr True"
proof -
  have "snd (cached_Exists (\<lambda>_ _. True) id 60 30 (\<lambda>ns x. (Inr True, x + 1)) ''team'' ([], 0)) =
      ([(''team'', Inr True, 61)], 1)"
    by (simp add: cached_Exists_def cache_get_def cache_trim_def cache_add_def)
  from cached_namespace_hit [of "''team''" "\<lambda>_ _. True" id 0 "[]" _ True 1 60 30, OF _ _ _ this]
  show ?thesis by (simp add: cache_get_def cache_trim_def)
qed

end
