(* ===== verification/K8s_Rules.thy ===== *)
theory K8s_Rules
  imports K8s_Namespace K8s_Hash
begin

text \<open>
  \<^verbatim>\<open>k8s/rules_fetcher.go\<close>: the rules of a user in a namespace, asked of the API with the user's
  own token, filtered, and kept in a cache keyed by namespace, user name and user id.

  The Kubernetes client is a record of arguments: building a client with a token, a request
  for a review on the outside state \<open>'x\<close>, the retries of \<^verbatim>\<open>WithExponentialBackoff\<close> as a
  transformation of one attempt, and the recording of metrics.
\<close>

section \<open>The fetcher\<close>

type_synonym 'x attempt = "'x \<Rightarrow> (go_error + rules) \<times> 'x"
type_synonym 'w rules_fn = "user_info \<Rightarrow> string \<Rightarrow> 'w \<Rightarrow> rules go \<times> 'w"

record ('q, 'r, 'cl, 'x) rules_api =
  ra_new_client :: "('q, 'r) rest_config \<Rightarrow> go_error + 'cl"
  ra_review :: "'cl \<Rightarrow> string \<Rightarrow> 'x attempt"
  ra_backoff :: "'x attempt \<Rightarrow> 'x attempt"
  ra_record :: "string \<Rightarrow> 'x \<Rightarrow> 'x"

text \<open>Metrics are configured with all fields or not at all; the flags say which fields are set.\<close>

record ('q, 'r) rules_fetcher =
  rf_requestTimeout :: duration
  rf_restConfig :: "('q, 'r) rest_config"
  rf_metrics :: bool
  rf_rulesFilter :: "(rules \<Rightarrow> rules) option"

definition NewRulesFetcher ::
  "duration \<Rightarrow> ('q, 'r) rest_config option \<Rightarrow> (bool \<times> bool) option \<Rightarrow> (rules \<Rightarrow> rules) option \<Rightarrow>
   go_error + ('q, 'r) rules_fetcher" where
  "NewRulesFetcher requestTimeout restConfig metrics rulesFilter =
     (case restConfig of
        None \<Rightarrow> Inl (Errorf ''restConfig is required'' [])
      | Some rc \<Rightarrow>
          (if requestTimeout \<le> 0 then Inl (Errorf ''requestTimeout must be positive'' [])
           else if (case metrics of None \<Rightarrow> False | Some (requests, latency) \<Rightarrow> \<not> requests \<or> \<not> latency)
           then Inl (Errorf ''metrics: all fields should be set'' [])
           else Inr \<lparr>rf_requestTimeout = requestTimeout, rf_restConfig = rc,
                     rf_metrics = (metrics \<noteq> None), rf_rulesFilter = rulesFilter\<rparr>))"

definition buildClient ::
  "('q, 'r, 'cl, 'x) rules_api \<Rightarrow> ('q, 'r) rules_fetcher \<Rightarrow> user_info \<Rightarrow> go_error + 'cl" where
  "buildClient api k userInfo =
     (if ui_BearerToken userInfo = [] then Inl (Errorf ''BearerToken is required for rules fetch'' [])
      else ra_new_client api
        ((rf_restConfig k)\<lparr>rc_BearerToken := ui_BearerToken userInfo, rc_BearerTokenFile := []\<rparr>))"

definition recordMetrics ::
  "('q, 'r, 'cl, 'x) rules_api \<Rightarrow> ('q, 'r) rules_fetcher \<Rightarrow> bool \<Rightarrow> 'x \<Rightarrow> 'x" where
  "recordMetrics api k ok x =
     (if \<not> rf_metrics k then x else ra_record api (if ok then ''ok'' else ''error'') x)"

definition fetch_attempt ::
  "('q, 'r, 'cl, 'x) rules_api \<Rightarrow> ('q, 'r) rules_fetcher \<Rightarrow> 'cl \<Rightarrow> string \<Rightarrow> 'x attempt" where
  "fetch_attempt api k client ns x =
     (let (res, x1) = ra_review api client ns x;
          x2 = recordMetrics api k (case res of Inl _ \<Rightarrow> False | Inr _ \<Rightarrow> True) x1
      in (res, x2))"

definition GetRules :: "('q, 'r, 'cl, 'x) rules_api \<Rightarrow> ('q, 'r) rules_fetcher \<Rightarrow> 'x rules_fn" where
  "GetRules api k userInfo ns x =
     (case buildClient api k userInfo of
        Inl err \<Rightarrow> (Inl (Err (Errorf ''failed to build kubernetes client'' [RulesInitError, err])), x)
      | Inr client \<Rightarrow>
          (case ra_backoff api (fetch_attempt api k client ns) x of
             (Inl err, x') \<Rightarrow> (Inl (Err err), x')
           | (Inr rules, x') \<Rightarrow>
               (Inr (case rf_rulesFilter k of None \<Rightarrow> rules | Some f \<Rightarrow> f rules), x')))"

text \<open>Rules come through a client with the user's own token, filtered.\<close>

lemma GetRules_Inr:
  "fst (GetRules api k u ns x) = Inr rules \<Longrightarrow>
   \<exists>client rules0 x'. ui_BearerToken u \<noteq> [] \<and>
     ra_new_client api ((rf_restConfig k)\<lparr>rc_BearerToken := ui_BearerToken u, rc_BearerTokenFile := []\<rparr>) = Inr client \<and>
     ra_backoff api (fetch_attempt api k client ns) x = (Inr rules0, x') \<and>
     rules = (case rf_rulesFilter k of None \<Rightarrow> rules0 | Some f \<Rightarrow> f rules0)"
  by (auto simp: GetRules_def buildClient_def split: if_splits sum.splits prod.splits)

section \<open>The cache\<close>

text \<open>An entry holds rules or an error.\<close>

definition cached_GetRules ::
  "(int \<Rightarrow> string \<Rightarrow> bool) \<Rightarrow> ('x \<Rightarrow> int) \<Rightarrow> duration \<Rightarrow> duration \<Rightarrow> 'x rules_fn \<Rightarrow>
   ((string, go_error + rules) cache \<times> 'x) rules_fn" where
  "cached_GetRules keep now successTTL failureTTL inner userInfo ns st =
     (let (c, x) = st in
      if ui_Name userInfo = [] \<and> ui_UID userInfo = []
      then (Inl (Err (Errorf ''userInfo.Name and userInfo.UID is required for rules cache key'' [])), (c, x))
      else case ComputeHash [ns, ui_Name userInfo, ui_UID userInfo] of
          Inl e \<Rightarrow> (Inl (Err (Errorf ''failed to compute cache key'' [e])), (c, x))
        | Inr key \<Rightarrow>
            (case cache_get keep (now x) c key of
               Some (Inr rules) \<Rightarrow> (Inr rules, (cache_trim keep (now x) c, x))
             | Some (Inl e) \<Rightarrow> (Inl (Err e), (cache_trim keep (now x) c, x))
             | None \<Rightarrow>
                 (let c1 = cache_trim keep (now x) c; (r, x') = inner userInfo ns x in
                  case r of
                    Inl (Panic m) \<Rightarrow> (Inl (Panic m), (c1, x'))
                  | Inl (Err e) \<Rightarrow>
                      (Inl (Err e),
                       (if failureTTL > 0 \<and> \<not> errors_is e RulesInitError
                        then cache_add key (Inl e) failureTTL (now x') c1 else c1, x'))
                  | Inr rules \<Rightarrow>
                      (Inr rules,
                       (if successTTL > 0 then cache_add key (Inr rules) successTTL (now x') c1 else c1, x')))))"

text \<open>The cached fetcher is known by its only method; it starts with an empty cache.\<close>

definition NewCachedRulesFetcher ::
  "(int \<Rightarrow> string \<Rightarrow> bool) \<Rightarrow> ('x \<Rightarrow> int) \<Rightarrow> 'x rules_fn \<Rightarrow> duration \<Rightarrow> duration \<Rightarrow>
   ((string, go_error + rules) cache \<times> 'x) rules_fn" where
  [simp]: "NewCachedRulesFetcher keep now inner successTTL failureTTL =
     cached_GetRules keep now successTTL failureTTL inner"

section \<open>The contract of a fetcher\<close>

text \<open>
  The answers that may be given to a request are described by \<open>legit\<close>, on a view of the request:
  two requests with the same view may be given each other's answers.
\<close>

locale rules_source =
  fixes fetch :: "'w rules_fn" and ok :: "'w \<Rightarrow> bool" and view :: "user_info \<Rightarrow> string \<Rightarrow> 'k"
    and legit :: "'k \<Rightarrow> rules go \<Rightarrow> bool"
  assumes fetch_ok: "ok w \<Longrightarrow> fetch u ns w = (r, w') \<Longrightarrow> ok w'"
    and fetch_legit: "ok w \<Longrightarrow> fetch u ns w = (r, w') \<Longrightarrow> legit (view u ns) r"
begin

lemma fetches_legit:
  "ok w \<Longrightarrow> list_all2 (\<lambda>(u, ns) r. legit (view u ns) r) reqs (fst (call_all (\<lambda>(u, ns). fetch u ns) reqs w))"
proof (induction reqs arbitrary: w)
  case (Cons q reqs)
  obtain u ns where q: "q = (u, ns)" by (cases q)
  obtain r w1 where e: "fetch u ns w = (r, w1)" by (cases "fetch u ns w")
  obtain rs w2 where c: "call_all (\<lambda>(u, ns). fetch u ns) reqs w1 = (rs, w2)"
    by (cases "call_all (\<lambda>(u, ns). fetch u ns) reqs w1")
  show ?case
    using fetch_legit [OF Cons.prems e] Cons.IH [OF fetch_ok [OF Cons.prems e]] c by (simp add: q e)
qed simp

end

definition rules_key :: "user_info \<Rightarrow> string \<Rightarrow> string" where
  "rules_key u ns = hex_encode (sha256 (key_text [ns, ui_Name u, ui_UID u]))"

lemma rules_key_hash: "ComputeHash [ns, ui_Name u, ui_UID u] = Inr (rules_key u ns)"
  by (simp add: ComputeHash_eq rules_key_def)

lemma rules_key_sha:
  "rules_key u' ns' = rules_key u ns \<longleftrightarrow>
     sha256 (key_text [ns', ui_Name u', ui_UID u']) = sha256 (key_text [ns, ui_Name u, ui_UID u])"
  unfolding rules_key_def using hex_encode_inj sha256_bytes by (metis Un_iff)

text \<open>A request without name and id is refused; any other is known to the cache by its key.\<close>

definition cache_view :: "user_info \<Rightarrow> string \<Rightarrow> string option" where
  "cache_view u ns = (if ui_Name u = [] \<and> ui_UID u = [] then None else Some (rules_key u ns))"

text \<open>The answers that may be given to a key, and the result an entry stands for.\<close>

definition key_legit ::
  "(user_info \<Rightarrow> string \<Rightarrow> 'k) \<Rightarrow> ('k \<Rightarrow> rules go \<Rightarrow> bool) \<Rightarrow> string option \<Rightarrow> rules go \<Rightarrow> bool" where
  "key_legit view legit k r =
     (case k of
        None \<Rightarrow> (\<exists>e. r = Inl (Err e))
      | Some key \<Rightarrow> (\<exists>u ns. rules_key u ns = key \<and> \<not> (ui_Name u = [] \<and> ui_UID u = []) \<and> legit (view u ns) r))"

definition entry_result :: "go_error + rules \<Rightarrow> rules go" where
  "entry_result v = (case v of Inl e \<Rightarrow> Inl (Err e) | Inr r \<Rightarrow> Inr r)"

definition rules_cache_ok ::
  "('x \<Rightarrow> bool) \<Rightarrow> (user_info \<Rightarrow> string \<Rightarrow> 'k) \<Rightarrow> ('k \<Rightarrow> rules go \<Rightarrow> bool) \<Rightarrow>
   (string, go_error + rules) cache \<times> 'x \<Rightarrow> bool" where
  "rules_cache_ok ok view legit st =
     (ok (snd st) \<and> (\<forall>(k, v, t) \<in> set (fst st). key_legit view legit (Some k) (entry_result v)))"

locale cached_rules = rules_source fetch ok view legit
  for fetch :: "'x rules_fn" and ok :: "'x \<Rightarrow> bool" and view :: "user_info \<Rightarrow> string \<Rightarrow> 'k"
    and legit :: "'k \<Rightarrow> rules go \<Rightarrow> bool" +
  fixes keep :: "int \<Rightarrow> string \<Rightarrow> bool" and now :: "'x \<Rightarrow> int" and successTTL failureTTL :: duration
begin

lemma cached_step:
  assumes "rules_cache_ok ok view legit (c, x)" "cached_GetRules keep now successTTL failureTTL fetch u ns (c, x) = (r, st')"
  shows "rules_cache_ok ok view legit st' \<and> key_legit view legit (cache_view u ns) r"
proof (cases "ui_Name u = [] \<and> ui_UID u = []")
  case True
  then show ?thesis using assms by (auto simp: cached_GetRules_def key_legit_def cache_view_def)
next
  case named: False
  let ?key = "rules_key u ns" and ?c1 = "cache_trim keep (now x) c"
  have x: "ok x" and held: "key_legit view legit (Some k) (entry_result v)" if "(k, v, t) \<in> set c" for k v t
    using that assms(1) by (auto simp: rules_cache_ok_def)
  have x: "ok x" using assms(1) by (simp add: rules_cache_ok_def)
  have trim: "key_legit view legit (Some k) (entry_result v)" if "(k, v, t) \<in> set ?c1" for k v t
    using held that cache_trim_subset by fast
  have view: "cache_view u ns = Some ?key" using named by (auto simp: cache_view_def)
  show ?thesis
  proof (cases "cache_get keep (now x) c ?key")
    case (Some v)
    then have "r = entry_result v" "st' = (?c1, x)"
      using assms(2) named
      by (auto simp: cached_GetRules_def rules_key_hash entry_result_def split: sum.splits)
    then show ?thesis
      using cache_get_member [OF Some] held trim x view by (auto simp: rules_cache_ok_def)
  next
    case None
    obtain v x' where e: "fetch u ns x = (v, x')" by (cases "fetch u ns x")
    have ok': "ok x'" and v: "legit (view u ns) v" using fetch_ok [OF x e] fetch_legit [OF x e] by auto
    then have v': "key_legit view legit (Some ?key) v" using named by (auto simp: key_legit_def)
    have add: "key_legit view legit (Some k) (entry_result w)"
      if "(k, w, t) \<in> set (cache_add ?key w' ttl (now x') ?c1)" "entry_result w' = v" for ttl k w t w'
      using cache_add_member [OF that(1)] trim v' that(2) by auto
    show ?thesis
      using assms(2) named None e ok' v' trim add view
      by (auto simp: cached_GetRules_def rules_key_hash rules_cache_ok_def Let_def entry_result_def
          split: sum.splits go_stop.splits if_splits)
  qed
qed

end

sublocale cached_rules \<subseteq> cached: rules_source "cached_GetRules keep now successTTL failureTTL fetch"
  "rules_cache_ok ok view legit" cache_view "key_legit view legit"
proof
  fix w u ns r w'
  assume "rules_cache_ok ok view legit w"
    "cached_GetRules keep now successTTL failureTTL fetch u ns w = (r, w')"
  then show "rules_cache_ok ok view legit w'" using cached_step by (cases w) blast
next
  fix w u ns r w'
  assume "rules_cache_ok ok view legit w"
    "cached_GetRules keep now successTTL failureTTL fetch u ns w = (r, w')"
  then show "key_legit view legit (cache_view u ns) r" using cached_step by (cases w) blast
qed

interpretation api_rules: rules_source "GetRules api k" "\<lambda>_. True" Pair
  "\<lambda>(u, ns) r. \<exists>x. r = fst (GetRules api k u ns x)" for api k
proof
  fix w u ns r w'
  assume "GetRules api k u ns w = (r, w')"
  then have "r = fst (GetRules api k u ns w)" by simp
  then show "(\<lambda>(u, ns) r. \<exists>x. r = fst (GetRules api k u ns x)) (u, ns) r" by auto
qed simp

interpretation cached_api_rules: cached_rules "GetRules api k" "\<lambda>_. True" Pair
  "\<lambda>(u, ns) r. \<exists>x. r = fst (GetRules api k u ns x)" keep now successTTL failureTTL
  for api k keep now successTTL failureTTL
  by unfold_locales

section \<open>Properties\<close>

text \<open>
  Starting from an empty cache, rules given to a user were, at some time, the API's answer for
  a user with the same name and id in the same namespace (up to collisions of SHA-256): the
  cache never gives one user the rules of another. A user without name and id gets an error and
  is never looked up.
\<close>

theorem cached_rules_answers:
  "list_all2 (\<lambda>(u, ns) r.
       if ui_Name u = [] \<and> ui_UID u = [] then \<exists>e. r = Inl (Err e)
       else \<exists>u' ns' x'. r = fst (GetRules api k u' ns' x') \<and>
              sha256 (key_text [ns', ui_Name u', ui_UID u']) = sha256 (key_text [ns, ui_Name u, ui_UID u]))
     reqs (fst (call_all (\<lambda>(u, ns). cached_GetRules keep now successTTL failureTTL (GetRules api k) u ns)
                  reqs ([], x)))"
proof -
  have "rules_cache_ok (\<lambda>_. True) Pair (\<lambda>(u, ns) r. \<exists>x. r = fst (GetRules api k u ns x)) ([], x)"
    by (simp add: rules_cache_ok_def)
  from cached_api_rules.cached.fetches_legit [OF this] show ?thesis
  proof (rule list_all2_mono)
    fix q r
    assume a: "(\<lambda>(u, ns) r. key_legit Pair (\<lambda>(u, ns) r. \<exists>x. r = fst (GetRules api k u ns x)) (cache_view u ns) r) q r"
    obtain u ns where q: "q = (u, ns)" by (cases q)
    show "(\<lambda>(u, ns) r. if ui_Name u = [] \<and> ui_UID u = [] then \<exists>e. r = Inl (Err e)
       else \<exists>u' ns' x'. r = fst (GetRules api k u' ns' x') \<and>
              sha256 (key_text [ns', ui_Name u', ui_UID u']) = sha256 (key_text [ns, ui_Name u, ui_UID u])) q r"
      using a unfolding q key_legit_def cache_view_def
      by (auto simp: rules_key_sha split: if_splits)
  qed
qed

text \<open>
  A failure to set up the request, such as a missing token, is never put into the cache: it
  reaches the caller, and the cache afterwards holds nothing it did not hold before.
\<close>

theorem init_errors_not_cached:
  assumes "buildClient api k u = Inl err"
    and "cached_GetRules keep now successTTL failureTTL (GetRules api k) u ns (c, x) = (r, (c', x'))"
  shows "set c' \<subseteq> set c \<and> x' = x"
proof -
  have g: "GetRules api k u ns x = (Inl (Err (Errorf ''failed to build kubernetes client'' [RulesInitError, err])), x)"
    using assms(1) by (simp add: GetRules_def)
  show ?thesis
    using assms(2) cache_trim_subset [of keep "now x" c]
    by (auto simp: cached_GetRules_def g rules_key_hash Let_def split: if_splits option.splits sum.splits)
qed

definition test_user :: user_info where
  "test_user = \<lparr>ui_Name = ''alice'', ui_UID = ''42'', ui_Groups = [], ui_BearerToken = []\<rparr>"

definition test_rules_api :: "(unit, unit, string, int) rules_api" where
  "test_rules_api = \<lparr>ra_new_client = (\<lambda>rc. Inr (rc_BearerToken rc)), ra_review = (\<lambda>t ns x. (Inr [], x + 1)),
     ra_backoff = (\<lambda>f. f), ra_record = (\<lambda>c x. x)\<rparr>"

definition test_rest_config :: "(unit, unit) rest_config" where
  "test_rest_config = \<lparr>rc_other = (), rc_BearerToken = ''sa-token'', rc_BearerTokenFile = ''/run/token'',
     rc_QPS = (), rc_Burst = 0\<rparr>"

definition test_fetcher :: "(unit, unit) rules_fetcher" where
  "test_fetcher = \<lparr>rf_requestTimeout = second, rf_restConfig = test_rest_config, rf_metrics = False,
     rf_rulesFilter = None\<rparr>"

lemma init_errors_not_cached_witness:
  "\<exists>r. cached_GetRules (\<lambda>_ _. True) id 60 30 (GetRules test_rules_api test_fetcher) test_user ''team'' ([], 5) =
     (r, ([], 5))"
proof -
  let ?run = "cached_GetRules (\<lambda>_ _. True) id 60 30 (GetRules test_rules_api test_fetcher) test_user ''team'' ([], 5)"
  obtain r c' x' where run: "?run = (r, (c', x'))" by (cases ?run) auto
  have "buildClient test_rules_api test_fetcher test_user = Inl (Errorf ''BearerToken is required for rules fetch'' [])"
    by (simp add: buildClient_def test_user_def)
  from init_errors_not_cached [OF this run] show ?thesis using run by simp
qed

text \<open>
  The rules of a user are fetched with that user's own token and nothing else: the server's own
  token and token file in the REST configuration never reach the API through a fetcher, so two
  fetchers that differ only in them do the same for every user. What the API returned is
  filtered before anybody sees it, and without a token nothing is asked and the error says so.
\<close>

theorem rules_with_own_token:
  "GetRules api k u ns x =
     (case (if ui_BearerToken u = [] then Inl (Errorf ''BearerToken is required for rules fetch'' [])
            else ra_new_client api ((rf_restConfig k)\<lparr>rc_BearerToken := ui_BearerToken u, rc_BearerTokenFile := []\<rparr>)) of
        Inl err \<Rightarrow> (Inl (Err (Errorf ''failed to build kubernetes client'' [RulesInitError, err])), x)
      | Inr client \<Rightarrow>
          apfst (map_sum Err (case rf_rulesFilter k of None \<Rightarrow> (\<lambda>r. r) | Some f \<Rightarrow> f))
            (ra_backoff api (fetch_attempt api k client ns) x)) \<and>
   GetRules api (k\<lparr>rf_restConfig := (rf_restConfig k)\<lparr>rc_BearerToken := tok, rc_BearerTokenFile := path\<rparr>\<rparr>) u ns x =
     GetRules api k u ns x"
proof -
  have same: "fetch_attempt api (k\<lparr>rf_restConfig := rc\<rparr>) = fetch_attempt api k" for rc
    by (simp add: fun_eq_iff fetch_attempt_def recordMetrics_def)
  show ?thesis
    by (auto simp: GetRules_def buildClient_def same split: option.split sum.split prod.split)
qed

end
