(* ===== verification/K8s_Token.thy ===== *)
theory K8s_Token
  imports K8s_Config Go_Encoding
begin

text \<open>
  \<^verbatim>\<open>k8s/token_reviewer.go\<close> and \<^verbatim>\<open>authn/kubernetes_auth.go\<close>: authentication of bearer tokens by
  the TokenReview API.

  The API is a record of arguments: one review request on the outside state \<open>'x\<close> (its result,
  the HTTP status, an error), the retries of \<^verbatim>\<open>WithExponentialBackoff\<close> as a transformation of
  one attempt, the intersection of audiences, and the recording of metrics. The cache of
  \<^verbatim>\<open>apiserver\<close> in front of the reviewer is a transformation of token functions.
\<close>

section \<open>Token reviews\<close>

record review_status =
  rs_Authenticated :: bool
  rs_Error :: string
  rs_Username :: string
  rs_UID :: string
  rs_Groups :: "string list"
  rs_Extra :: "(string \<times> string list) list option"
  rs_Audiences :: "string list"

record k8s_user =
  ku_Name :: string
  ku_UID :: string
  ku_Groups :: "string list"
  ku_Extra :: "(string \<times> string list) list option"

record token_response =
  tr_User :: "k8s_user option"
  tr_Audiences :: "string list"

type_synonym 'w token_fn = "string \<Rightarrow> 'w \<Rightarrow> (token_response option \<times> bool \<times> go_error option) \<times> 'w"

record ('cl, 'x) token_api =
  ta_rest :: "'cl \<Rightarrow> string \<Rightarrow> string list \<Rightarrow> 'x \<Rightarrow> (review_status \<times> nat \<times> go_error option) \<times> 'x"
  ta_backoff :: "('x \<Rightarrow> (go_error + review_status) \<times> 'x) \<Rightarrow> 'x \<Rightarrow> (go_error + review_status) \<times> 'x"
  ta_intersect :: "string list \<Rightarrow> string list \<Rightarrow> string list"
  ta_record :: "string \<Rightarrow> 'x \<Rightarrow> 'x"

record 'cl token_reviewer =
  tw_client :: 'cl
  tw_implicitAuds :: "string list"
  tw_requestTimeout :: duration

definition NewTokenReviewer :: "'cl \<Rightarrow> string list \<Rightarrow> duration \<Rightarrow> go_error + 'cl token_reviewer" where
  "NewTokenReviewer client implicitAuds requestTimeout =
     Inr \<lparr>tw_client = client, tw_implicitAuds = implicitAuds, tw_requestTimeout = requestTimeout\<rparr>"

definition reviewer_Create ::
  "('cl, 'x) token_api \<Rightarrow> 'cl token_reviewer \<Rightarrow> string \<Rightarrow> string list \<Rightarrow> 'x \<Rightarrow>
   (review_status \<times> nat \<times> go_error option) \<times> 'x" where
  "reviewer_Create api w token auds x = ta_rest api (tw_client w) token auds x"

text \<open>One attempt: the metrics get the status, or a blank when the request itself failed.\<close>

definition review_attempt ::
  "('cl, 'x) token_api \<Rightarrow> 'cl token_reviewer \<Rightarrow> string \<Rightarrow> string list \<Rightarrow> 'x \<Rightarrow>
   (go_error + review_status) \<times> 'x" where
  "review_attempt api w token wantAuds x =
     (let ((result, statusCode, err), x1) = reviewer_Create api w token wantAuds x;
          x2 = (if statusCode \<noteq> 0 then ta_record api (dec_string (int statusCode)) x1
                else if err \<noteq> None then ta_record api '' '' x1 else x1)
      in (case err of Some e \<Rightarrow> (Inl e, x2) | None \<Rightarrow> (Inr result, x2)))"

text \<open>
  The error of a rejected token wraps the sentinel; when the review gives a message, it is the
  stem of the error.
\<close>

definition rejection :: "review_status \<Rightarrow> go_error" where
  "rejection status =
     (if length (rs_Error status) \<noteq> 0 then Errorf (rs_Error status) [TokenNotAuthenticated]
      else TokenNotAuthenticated)"

text \<open>The audiences of the context are \<open>None\<close> when the caller asks for none.\<close>

definition AuthenticateToken :: "('cl, 'x) token_api \<Rightarrow> 'cl token_reviewer \<Rightarrow> string list option \<Rightarrow> 'x token_fn" where
  "AuthenticateToken api w audiences token x =
     (let wantAuds = (case audiences of None \<Rightarrow> [] | Some a \<Rightarrow> a);
          (r, x') = ta_backoff api (review_attempt api w token wantAuds) x
      in case r of
          Inl err \<Rightarrow> ((None, False, Some err), x')
        | Inr status \<Rightarrow>
            (let gotAuds = (if length (rs_Audiences status) > 0 then rs_Audiences status else tw_implicitAuds w);
                 auds = (if audiences \<noteq> None then ta_intersect api wantAuds gotAuds else [])
             in if audiences \<noteq> None \<and> length auds = 0
                then ((None, False, Some TokenNotAuthenticated), x')
                else if \<not> rs_Authenticated status then ((None, False, Some (rejection status)), x')
                else ((Some \<lparr>tr_User = Some \<lparr>ku_Name = rs_Username status, ku_UID = rs_UID status,
                        ku_Groups = rs_Groups status, ku_Extra = rs_Extra status\<rparr>, tr_Audiences = auds\<rparr>,
                      True, None), x')))"

section \<open>The authenticator\<close>

definition user_of_response :: "k8s_user \<Rightarrow> string \<Rightarrow> user_info" where
  "user_of_response u password =
     \<lparr>ui_Name = ku_Name u, ui_UID = ku_UID u, ui_Groups = ku_Groups u, ui_BearerToken = password\<rparr>"

definition k8s_Authenticate :: "'q auth_config \<Rightarrow> 'w token_fn \<Rightarrow> 'w authn_fn" where
  "k8s_Authenticate cfg tokenAuthenticator user password w =
     (if user \<noteq> kc_UserName cfg \<or> password = [] then (Inl (Err NoMatch), w)
      else case tokenAuthenticator password w of
          ((authResp, ok, Some err), w') \<Rightarrow>
            (if errors_is err TokenNotAuthenticated then (Inl (Err (new_auth_failed err)), w')
             else (Inl (Err err), w'))
        | ((authResp, ok, None), w') \<Rightarrow>
            (case (if ok then authResp else None) of
               None \<Rightarrow> (Inl (Err wrong_pass), w')
             | Some resp \<Rightarrow>
                 (case tr_User resp of
                    None \<Rightarrow> (Inl (Err wrong_pass), w')
                  | Some u \<Rightarrow>
                      (let userInfo = user_of_response u password in
                       (Inr \<lparr>ar_Authenticated = True, ar_Labels = to_labels userInfo,
                             ar_Data = AnyUserInfo userInfo\<rparr>, w')))))"

text \<open>
  \<^verbatim>\<open>NewKubernetesAuth\<close>: the client set is built by the argument \<open>new_client\<close>, and the cache of
  token results gets its two lifetimes.
\<close>

definition NewKubernetesAuth ::
  "('q, 'r) rest_loader \<Rightarrow> (('q, 'r) rest_config \<Rightarrow> go_error + 'cl) \<Rightarrow> ('cl, 'w) token_api \<Rightarrow>
   (duration \<Rightarrow> duration \<Rightarrow> 'w token_fn \<Rightarrow> 'w token_fn) \<Rightarrow> 'q auth_config option \<Rightarrow>
   go_error + 'w authn_fn" where
  "NewKubernetesAuth loader new_client api token_cache pconfig =
     (case pconfig of
        None \<Rightarrow> Inl (Errorf ''config is nil'' [])
      | Some config \<Rightarrow>
          (case BuildRestConfig loader config of
             Inl err \<Rightarrow> Inl (Errorf ''failed to build Kubernetes REST config'' [err])
           | Inr rc \<Rightarrow>
               (case new_client rc of
                  Inl err \<Rightarrow> Inl (Errorf ''failed to create k8s client'' [err])
                | Inr cs \<Rightarrow>
                    (case NewTokenReviewer cs [] (kc_RequestTimeout config) of
                       Inl err \<Rightarrow> Inl (Errorf ''failed to create webhook token authenticator'' [err])
                     | Inr tokenAuth \<Rightarrow>
                         Inr (k8s_Authenticate config
                           (token_cache (kc_SuccessTTL config) (kc_FailureTTL config)
                             (AuthenticateToken api tokenAuth None)))))))"

section \<open>Laws\<close>

text \<open>
  C35. A bearer token is accepted exactly when the account is the configured name, the token is not
  empty, and the token authenticator accepted that very token for a user. The result carries
  the labels of that user and, for the authorizer, the user with the token itself.
\<close>

theorem k8s_authentication:
  "k8s_Authenticate cfg ta user password w = (Inr res, w') \<longleftrightarrow>
     user = kc_UserName cfg \<and> password \<noteq> [] \<and>
     (\<exists>resp u. ta password w = ((Some resp, True, None), w') \<and> tr_User resp = Some u \<and>
        res = \<lparr>ar_Authenticated = True, ar_Labels = to_labels (user_of_response u password),
               ar_Data = AnyUserInfo (user_of_response u password)\<rparr>)"
  by (auto simp: k8s_Authenticate_def Let_def split: prod.splits option.splits if_splits)

text \<open>
  How \<^verbatim>\<open>WithExponentialBackoff\<close> fails: with the error of an attempt, or, when none was made before the
  time ran out, with an error that wraps that of the context.
\<close>

definition backoff_documented :: "('cl, 'x) token_api \<Rightarrow> bool" where
  "backoff_documented api \<longleftrightarrow>
     (\<forall>f x e x'. ta_backoff api f x = (Inl e, x') \<longrightarrow>
        (\<exists>y y'. f y = (Inl e, y')) \<or>
        (\<exists>cause. e = Errorf ''webhook call failed'' [cause] \<and>
           \<not> errors_is cause TokenNotAuthenticated \<and> as_auth_failed cause = None))"

text \<open>Errors of the HTTP client are not the sentinels of this program.\<close>

definition client_errors_foreign :: "('cl, 'x) token_api \<Rightarrow> bool" where
  "client_errors_foreign api \<longleftrightarrow>
     (\<forall>cl token auds x status code e x'. ta_rest api cl token auds x = ((status, code, Some e), x') \<longrightarrow>
        \<not> errors_is e TokenNotAuthenticated \<and> as_auth_failed e = None)"

lemma review_error:
  "review_attempt api tw token auds x = (Inl e, x') \<Longrightarrow>
   \<exists>status code x1. ta_rest api (tw_client tw) token auds x = ((status, code, Some e), x1)"
  by (auto simp: review_attempt_def reviewer_Create_def Let_def split: prod.splits option.splits)

lemma failed_review:
  assumes "backoff_documented api" "client_errors_foreign api"
    and "ta_backoff api (review_attempt api tw token auds) x = (Inl e, x')"
  shows "\<not> errors_is e TokenNotAuthenticated \<and> as_auth_failed e = None"
proof -
  consider y y' where "review_attempt api tw token auds y = (Inl e, y')"
    | cause where "e = Errorf ''webhook call failed'' [cause]" "\<not> errors_is cause TokenNotAuthenticated" "as_auth_failed cause = None"
    using assms(1,3) unfolding backoff_documented_def by blast
  then show ?thesis
  proof cases
    case 1
    from review_error [OF 1] obtain status code x1 where
      "ta_rest api (tw_client tw) token auds y = ((status, code, Some e), x1)" by (elim exE)
    then show ?thesis using assms(2) unfolding client_errors_foreign_def by blast
  qed simp
qed

text \<open>
  C36. A rejected token and a failing API are told apart. When the authenticator reports an error for a token, then
  either the review came back, and it did not authenticate the token or gave none of the audiences that were
  asked for, and the error is a failed authentication that wraps the rejection; or no review came back, and
  the very error of the API is passed on and does not count as a failed authentication, provided that the API
  client's own errors are none of this program's sentinels.
\<close>

theorem token_rejection_is_auth_failure:
  assumes "user = kc_UserName cfg" "password \<noteq> []" "backoff_documented api" "client_errors_foreign api"
    and run: "k8s_Authenticate cfg (AuthenticateToken api tw audiences) user password x = (Inl (Err e), x')"
  shows "(\<exists>status rejected.
      ta_backoff api (review_attempt api tw password (case audiences of None \<Rightarrow> [] | Some a \<Rightarrow> a)) x = (Inr status, x') \<and>
      (if \<exists>a. audiences = Some a \<and>
            ta_intersect api a (if rs_Audiences status = [] then tw_implicitAuds tw else rs_Audiences status) = []
       then rejected = TokenNotAuthenticated
       else \<not> rs_Authenticated status \<and> rejected = rejection status) \<and>
      e = new_auth_failed rejected \<and> as_auth_failed e = Some e) \<or>
    (ta_backoff api (review_attempt api tw password (case audiences of None \<Rightarrow> [] | Some a \<Rightarrow> a)) x = (Inl e, x') \<and>
      as_auth_failed e = None)"
proof (cases "ta_backoff api (review_attempt api tw password (case audiences of None \<Rightarrow> [] | Some a \<Rightarrow> a)) x")
  case (Pair r x1)
  show ?thesis
  proof (cases r)
    case (Inl err)
    then have "\<not> errors_is err TokenNotAuthenticated" "as_auth_failed err = None"
      using failed_review [OF assms(3,4)] Pair by blast+
    then show ?thesis
      using run assms(1,2) Pair Inl by (simp add: k8s_Authenticate_def AuthenticateToken_def)
  next
    case (Inr status)
    have "errors_is (rejection status) TokenNotAuthenticated" by (simp add: rejection_def)
    then show ?thesis
      using run assms(1,2) Pair Inr
      by (cases audiences)
         (auto simp: k8s_Authenticate_def AuthenticateToken_def Let_def new_auth_failed_def split: if_splits)
  qed
qed

definition expired :: review_status where
  "expired = \<lparr>rs_Authenticated = False, rs_Error = ''token expired'', rs_Username = [], rs_UID = [],
     rs_Groups = [], rs_Extra = None, rs_Audiences = []\<rparr>"

text \<open>An API that fails at first, and a backoff that tries a second time.\<close>

definition test_token_api :: "(unit, int) token_api" where
  "test_token_api =
     \<lparr>ta_rest = (\<lambda>c t a x. if x = 0 then ((expired, 0, Some (Errorf ''connection refused'' [])), 1) else ((expired, 201, None), x)),
      ta_backoff = (\<lambda>f x. case f x of (Inl e, x') \<Rightarrow> f x' | (Inr status, x') \<Rightarrow> (Inr status, x')),
      ta_intersect = (\<lambda>a b. filter (List.member b) a), ta_record = (\<lambda>c x. x)\<rparr>"

definition test_reviewer :: "unit token_reviewer" where
  "test_reviewer = \<lparr>tw_client = (), tw_implicitAuds = [], tw_requestTimeout = second\<rparr>"

lemma token_rejection_is_auth_failure_witness:
  "\<exists>e. k8s_Authenticate test_config (AuthenticateToken test_token_api test_reviewer None) ''token'' ''abc'' 0 =
     (Inl (Err e), 1) \<and> e = new_auth_failed (rejection expired) \<and> as_auth_failed e = Some e"
proof -
  have review: "ta_backoff test_token_api (review_attempt test_token_api test_reviewer ''abc'' []) 0 = (Inr expired, 1)"
    by (simp add: test_token_api_def review_attempt_def reviewer_Create_def)
  have run: "k8s_Authenticate test_config (AuthenticateToken test_token_api test_reviewer None) ''token'' ''abc'' 0 =
      (Inl (Err (new_auth_failed (Errorf ''token expired'' [TokenNotAuthenticated]))), 1)"
    by (simp add: k8s_Authenticate_def AuthenticateToken_def review test_config_def rejection_def)
       (simp add: expired_def)
  have "backoff_documented test_token_api"
    by (auto simp: backoff_documented_def test_token_api_def split: prod.splits sum.splits)
  moreover have "client_errors_foreign test_token_api"
    by (simp add: client_errors_foreign_def test_token_api_def)
  ultimately show ?thesis
    using token_rejection_is_auth_failure [OF _ _ _ _ run] run review
    by (auto simp: test_config_def)
qed

end
