(* ===== verification/K8s_Inflight.thy ===== *)
theory K8s_Inflight
  imports K8s_Rules
begin

text \<open>
  Concurrent callers of the two caches of \<^verbatim>\<open>k8s/namespace_checker.go\<close> and
  \<^verbatim>\<open>k8s/rules_fetcher.go\<close>. A call looks into the cache, and on a miss enters \<^verbatim>\<open>inflight.Do\<close>.
  \<^verbatim>\<open>singleflight\<close> is used as it is documented: for each key one caller runs the function, callers
  that come in the meantime wait and get its result. Everything else is the code: what is asked,
  what is cached and for how long.
\<close>

section \<open>Callers\<close>

datatype ('a, 'v) caller =
    Called 'a | Missed 'a | Leading 'a | Fetched 'a 'v | Awaiting 'a | Answered 'a 'v

record ('a, 'k, 'v, 'x) flight_env =
  fl_early :: "'a \<Rightarrow> 'v option"
  fl_key :: "'a \<Rightarrow> 'k"
  fl_inner :: "'a \<Rightarrow> 'x \<Rightarrow> 'v \<times> 'x"
  fl_lifetime :: "'v \<Rightarrow> duration"
  fl_now :: "'x \<Rightarrow> int"
  fl_keep :: "int \<Rightarrow> 'k \<Rightarrow> bool"

type_synonym ('a, 'k, 'v, 'x) flights = "('a, 'v) caller list \<times> ('k, 'v) cache \<times> 'x"

text \<open>The function passed to \<^verbatim>\<open>Do\<close> is running for a key.\<close>

fun flying :: "('a, 'k, 'v, 'x) flight_env \<Rightarrow> 'k \<Rightarrow> ('a, 'v) caller \<Rightarrow> bool" where
  "flying env k (Leading a) = (fl_key env a = k)"
| "flying env k (Fetched a v) = (fl_key env a = k)"
| "flying env k _ = False"

text \<open>The end of \<^verbatim>\<open>Do\<close>: whoever waits for the key gets the result.\<close>

fun deliver :: "('a, 'k, 'v, 'x) flight_env \<Rightarrow> 'k \<Rightarrow> 'v \<Rightarrow> ('a, 'v) caller \<Rightarrow> ('a, 'v) caller" where
  "deliver env k v (Awaiting a) = (if fl_key env a = k then Answered a v else Awaiting a)"
| "deliver env k v c = c"

inductive flight_step ::
  "('a, 'k, 'v, 'x) flight_env \<Rightarrow> ('a, 'k, 'v, 'x) flights \<Rightarrow> ('a, 'k, 'v, 'x) flights \<Rightarrow> bool"
  for env where
  early: "i < length cs \<Longrightarrow> cs ! i = Called a \<Longrightarrow> fl_early env a = Some v \<Longrightarrow>
    flight_step env (cs, c, x) (cs[i := Answered a v], c, x)"
| hit: "i < length cs \<Longrightarrow> cs ! i = Called a \<Longrightarrow> fl_early env a = None \<Longrightarrow>
    cache_get (fl_keep env) (fl_now env x) c (fl_key env a) = Some v \<Longrightarrow>
    flight_step env (cs, c, x) (cs[i := Answered a v], cache_trim (fl_keep env) (fl_now env x) c, x)"
| miss: "i < length cs \<Longrightarrow> cs ! i = Called a \<Longrightarrow> fl_early env a = None \<Longrightarrow>
    cache_get (fl_keep env) (fl_now env x) c (fl_key env a) = None \<Longrightarrow>
    flight_step env (cs, c, x) (cs[i := Missed a], cache_trim (fl_keep env) (fl_now env x) c, x)"
| lead: "i < length cs \<Longrightarrow> cs ! i = Missed a \<Longrightarrow> \<not> list_ex (flying env (fl_key env a)) cs \<Longrightarrow>
    flight_step env (cs, c, x) (cs[i := Leading a], c, x)"
| join: "i < length cs \<Longrightarrow> cs ! i = Missed a \<Longrightarrow> list_ex (flying env (fl_key env a)) cs \<Longrightarrow>
    flight_step env (cs, c, x) (cs[i := Awaiting a], c, x)"
| fetch: "i < length cs \<Longrightarrow> cs ! i = Leading a \<Longrightarrow> fl_inner env a x = (v, x') \<Longrightarrow>
    flight_step env (cs, c, x) (cs[i := Fetched a v], c, x')"
| finish: "i < length cs \<Longrightarrow> cs ! i = Fetched a v \<Longrightarrow>
    c' = (if fl_lifetime env v > 0 then cache_add (fl_key env a) v (fl_lifetime env v) (fl_now env x) c else c) \<Longrightarrow>
    flight_step env (cs, c, x) (map (deliver env (fl_key env a) v) (cs[i := Answered a v]), c', x)"

text \<open>Between the steps the world may change, and time pass.\<close>

inductive flight_run :: "('a, 'k, 'v, 'x) flight_env \<Rightarrow> ('a, 'k, 'v, 'x) flights \<Rightarrow> ('a, 'k, 'v, 'x) flights \<Rightarrow> bool"
  for env st where
  begun: "flight_run env st st"
| step: "flight_run env st st' \<Longrightarrow> flight_step env st' st'' \<Longrightarrow> flight_run env st st''"
| world: "flight_run env st (cs, c, x) \<Longrightarrow> flight_run env st (cs, c, x')"

definition all_called :: "'a list \<Rightarrow> ('a, 'v) caller list" where
  "all_called = map Called"

section \<open>What callers are told\<close>

fun caller_arg :: "('a, 'v) caller \<Rightarrow> 'a" where
  "caller_arg (Called a) = a"
| "caller_arg (Missed a) = a"
| "caller_arg (Leading a) = a"
| "caller_arg (Awaiting a) = a"
| "caller_arg (Fetched a v) = a"
| "caller_arg (Answered a v) = a"

text \<open>The callers are those of a set \<open>asked\<close>, and what is known under a key is legitimate for it.\<close>

fun caller_legit :: "('a, 'k, 'v, 'x) flight_env \<Rightarrow> ('k \<Rightarrow> 'v \<Rightarrow> bool) \<Rightarrow> ('a, 'v) caller \<Rightarrow> bool" where
  "caller_legit env legit (Called a) = True"
| "caller_legit env legit (Missed a) = (fl_early env a = None)"
| "caller_legit env legit (Leading a) = (fl_early env a = None)"
| "caller_legit env legit (Awaiting a) = (fl_early env a = None)"
| "caller_legit env legit (Fetched a v) = (fl_early env a = None \<and> legit (fl_key env a) v)"
| "caller_legit env legit (Answered a v) =
     (case fl_early env a of Some w \<Rightarrow> v = w | None \<Rightarrow> legit (fl_key env a) v)"

fun flights_ok ::
  "('a, 'k, 'v, 'x) flight_env \<Rightarrow> 'a set \<Rightarrow> ('k \<Rightarrow> 'v \<Rightarrow> bool) \<Rightarrow> ('a, 'k, 'v, 'x) flights \<Rightarrow> bool" where
  "flights_ok env asked legit (cs, c, x) =
     ((\<forall>d \<in> set cs. caller_arg d \<in> asked \<and> caller_legit env legit d) \<and> (\<forall>(k, v, t) \<in> set c. legit k v))"

lemma flights_ok_member:
  "flights_ok env asked legit (cs, c, x) \<Longrightarrow> d \<in> set cs \<Longrightarrow> caller_arg d \<in> asked \<and> caller_legit env legit d"
  by simp

lemma flights_ok_at:
  "flights_ok env asked legit (cs, c, x) \<Longrightarrow> i < length cs \<Longrightarrow> cs ! i = d \<Longrightarrow> caller_arg d \<in> asked \<and> caller_legit env legit d"
  by (rule flights_ok_member) (assumption, drule nth_mem, simp)

text \<open>One caller goes on.\<close>

lemma caller_step:
  assumes "flights_ok env asked legit (cs, c, x)" and "caller_arg d \<in> asked" "caller_legit env legit d"
    and "\<forall>(k, v, t) \<in> set c'. legit k v"
  shows "flights_ok env asked legit (cs[i := d], c', x')"
proof -
  have "e = d \<or> e \<in> set cs" if "e \<in> set (cs[i := d])" for e
    using that set_update_subset_insert [of cs i d] by blast
  then have "\<forall>e \<in> set (cs[i := d]). caller_arg e \<in> asked \<and> caller_legit env legit e"
    using flights_ok_member [OF assms(1)] assms(2,3) by blast
  then show ?thesis using assms(4) by simp
qed

lemma deliver_arg [simp]: "caller_arg (deliver env k v d) = caller_arg d"
  by (cases d) auto

lemma deliver_legit: "caller_legit env legit d \<Longrightarrow> legit k v \<Longrightarrow> caller_legit env legit (deliver env k v d)"
  by (cases d) auto

locale flight_group =
  fixes env :: "('a, 'k, 'v, 'x) flight_env" and asked :: "'a set" and legit :: "'k \<Rightarrow> 'v \<Rightarrow> bool"
  assumes inner_legit: "a \<in> asked \<Longrightarrow> fl_inner env a x = (v, x') \<Longrightarrow> legit (fl_key env a) v"
begin

lemma finish_ok:
  assumes ok: "flights_ok env asked legit (cs, c, x)" and i: "i < length cs" "cs ! i = Fetched a v"
    and c': "c' = (if fl_lifetime env v > 0 then cache_add (fl_key env a) v (fl_lifetime env v) (fl_now env x) c else c)"
  shows "flights_ok env asked legit (map (deliver env (fl_key env a) v) (cs[i := Answered a v]), c', x)"
proof -
  have a: "a \<in> asked" and v: "legit (fl_key env a) v" "fl_early env a = None" using flights_ok_at [OF ok i] by simp_all
  have "legit k w" if w: "(k, w, t) \<in> set c'" for k w t
  proof -
    have "(k, w, t) \<in> set c \<or> (k = fl_key env a \<and> w = v)"
      using w cache_add_member [of "(k, w, t)" "fl_key env a" v "fl_lifetime env v" "fl_now env x" c]
      unfolding c' by (auto split: if_splits)
    then show ?thesis using ok v by auto
  qed
  then have "flights_ok env asked legit (cs[i := Answered a v], c', x)" using a v by (intro caller_step [OF ok]) auto
  then show ?thesis using v(1) by (auto simp: deliver_legit)
qed

lemma step_ok: "flight_step env st st' \<Longrightarrow> flights_ok env asked legit st \<Longrightarrow> flights_ok env asked legit st'"
proof (induction rule: flight_step.induct)
  case (early i cs a v c x)
  then show ?case using flights_ok_at [OF early.prems early(1,2)] by (intro caller_step [OF early.prems]) auto
next
  case (hit i cs a x c v)
  have "legit (fl_key env a) v" using cache_get_member [OF hit(4)] hit.prems by fastforce
  then show ?case
    using hit flights_ok_at [OF hit.prems hit(1,2)] cache_trim_subset [of "fl_keep env" "fl_now env x" c]
    by (intro caller_step [OF hit.prems]) fastforce+
next
  case (miss i cs a x c)
  then show ?case
    using flights_ok_at [OF miss.prems miss(1,2)] cache_trim_subset [of "fl_keep env" "fl_now env x" c]
    by (intro caller_step [OF miss.prems]) fastforce+
next
  case (lead i cs a c x)
  then show ?case using flights_ok_at [OF lead.prems lead(1,2)] by (intro caller_step [OF lead.prems]) auto
next
  case (join i cs a c x)
  then show ?case using flights_ok_at [OF join.prems join(1,2)] by (intro caller_step [OF join.prems]) auto
next
  case (fetch i cs a x v x' c)
  then show ?case
    using flights_ok_at [OF fetch.prems fetch(1,2)] inner_legit [OF _ fetch(3)]
    by (intro caller_step [OF fetch.prems]) auto
next
  case finish
  then show ?case using finish_ok by blast
qed

lemma run_ok: "flight_run env (all_called as, [], x) st \<Longrightarrow> set as \<subseteq> asked \<Longrightarrow> flights_ok env asked legit st"
proof (induction rule: flight_run.induct)
  case begun
  then show ?case by (auto simp: all_called_def)
next
  case step
  then show ?case using step_ok by blast
next
  case (world cs c x x')
  then show ?case by simp
qed

end

section \<open>The two caches\<close>

text \<open>What a call of \<^verbatim>\<open>cachedNamespaceChecker.Exists\<close> does at each step.\<close>

definition ns_flights ::
  "(int \<Rightarrow> string \<Rightarrow> bool) \<Rightarrow> ('x \<Rightarrow> int) \<Rightarrow> duration \<Rightarrow> duration \<Rightarrow> 'x ns_fn \<Rightarrow> (string, string, bool go, 'x) flight_env" where
  "ns_flights keep now successTTL failureTTL inner =
     \<lparr>fl_early = (\<lambda>ns. if ns = [] then Some (Inr False) else None), fl_key = (\<lambda>ns. ns), fl_inner = inner,
      fl_lifetime = (\<lambda>r. case r of Inr b \<Rightarrow> successTTL | Inl (Err e) \<Rightarrow> failureTTL | Inl (Panic m) \<Rightarrow> 0),
      fl_now = now, fl_keep = keep\<rparr>"

text \<open>What a call of \<^verbatim>\<open>cachedRulesFetcher.GetRules\<close> does at each step.\<close>

definition rules_flights ::
  "(int \<Rightarrow> string \<Rightarrow> bool) \<Rightarrow> ('x \<Rightarrow> int) \<Rightarrow> duration \<Rightarrow> duration \<Rightarrow> 'x rules_fn \<Rightarrow>
   (user_info \<times> string, string, rules go, 'x) flight_env" where
  "rules_flights keep now successTTL failureTTL inner =
     \<lparr>fl_early = (\<lambda>(u, ns).
        if ui_Name u = [] \<and> ui_UID u = []
        then Some (Inl (Err (Errorf ''userInfo.Name and userInfo.UID is required for rules cache key'' []))) else None),
      fl_key = (\<lambda>(u, ns). rules_key u ns), fl_inner = (\<lambda>(u, ns). inner u ns),
      fl_lifetime = (\<lambda>r. case r of
          Inr rules \<Rightarrow> successTTL
        | Inl (Err e) \<Rightarrow> (if errors_is e RulesInitError then 0 else failureTTL)
        | Inl (Panic m) \<Rightarrow> 0),
      fl_now = now, fl_keep = keep\<rparr>"

text \<open>The answers of the API to those of \<open>asked\<close> with a key.\<close>

interpretation ns_group: flight_group "ns_flights keep now successTTL failureTTL (ns_Exists get is_not_found)" asked
  "\<lambda>ns r. ns \<in> asked \<and> (\<exists>y. r = fst (ns_Exists get is_not_found ns y))"
  for keep now successTTL failureTTL get is_not_found asked
  by unfold_locales (auto simp: ns_flights_def, metis fst_conv)

interpretation rules_group: flight_group "rules_flights keep now successTTL failureTTL (GetRules api k)" asked
  "\<lambda>key r. \<exists>(u, ns) \<in> asked. rules_key u ns = key \<and> (\<exists>y. r = fst (GetRules api k u ns y))"
  for keep now successTTL failureTTL api k asked
proof
  fix a x v x'
  assume a: "a \<in> asked" "fl_inner (rules_flights keep now successTTL failureTTL (GetRules api k)) a x = (v, x')"
  obtain u ns where u: "a = (u, ns)" by fastforce
  have "v = fst (GetRules api k u ns x)" using a(2) by (simp add: u rules_flights_def)
  then show "\<exists>(u, ns) \<in> asked. rules_key u ns = fl_key (rules_flights keep now successTTL failureTTL (GetRules api k)) a \<and>
      (\<exists>y. v = fst (GetRules api k u ns y))"
    using a(1) by (auto simp: u rules_flights_def intro!: bexI [of _ "(u, ns)"])
qed

section \<open>One caller alone\<close>

inductive_simps alone_called: "flight_step env ([Called a], c, x) st"
inductive_simps alone_missed: "flight_step env ([Missed a], c, x) st"
inductive_simps alone_leading: "flight_step env ([Leading a], c, x) st"
inductive_simps alone_fetched: "flight_step env ([Fetched a v], c, x) st"
inductive_simps alone_answered: "flight_step env ([Answered a v], c, x) st"

lemmas alone_steps = alone_called alone_missed alone_leading alone_fetched alone_answered

definition flight_alone ::
  "('a, 'k, 'v, 'x) flight_env \<Rightarrow> 'a \<Rightarrow> ('k, 'v) cache \<Rightarrow> 'x \<Rightarrow> 'v \<times> ('k, 'v) cache \<times> 'x" where
  "flight_alone env a c x =
     (case fl_early env a of
        Some v \<Rightarrow> (v, (c, x))
      | None \<Rightarrow>
          (let c1 = cache_trim (fl_keep env) (fl_now env x) c in
           case cache_get (fl_keep env) (fl_now env x) c (fl_key env a) of
             Some v \<Rightarrow> (v, (c1, x))
           | None \<Rightarrow>
               (let (v, x') = fl_inner env a x in
                (v, (if fl_lifetime env v > 0 then cache_add (fl_key env a) v (fl_lifetime env v) (fl_now env x') c1 else c1,
                     x')))))"

lemma alone_run:
  assumes "(flight_step env)\<^sup>*\<^sup>* ([Called a], c, x) st"
  shows "st = ([Called a], c, x) \<or> st = (let (v, c', x') = flight_alone env a c x in ([Answered a v], c', x')) \<or>
    (fl_early env a = None \<and> cache_get (fl_keep env) (fl_now env x) c (fl_key env a) = None \<and>
     (let c1 = cache_trim (fl_keep env) (fl_now env x) c; (v, x') = fl_inner env a x in
      st \<in> {([Missed a], c1, x), ([Leading a], c1, x), ([Fetched a v], c1, x')}))"
  using assms
proof (induction rule: rtranclp_induct)
  case (step u st)
  then show ?case by (auto simp: alone_steps flight_alone_def Let_def split: prod.splits)
qed simp

lemma alone_reaches:
  "(flight_step env)\<^sup>*\<^sup>* ([Called a], c, x) (let (v, c', x') = flight_alone env a c x in ([Answered a v], c', x'))"
proof (cases "fl_early env a")
  case (Some v)
  then show ?thesis by (intro r_into_rtranclp) (simp add: alone_called flight_alone_def)
next
  case early: None
  let ?c1 = "cache_trim (fl_keep env) (fl_now env x) c"
  show ?thesis
  proof (cases "cache_get (fl_keep env) (fl_now env x) c (fl_key env a)")
    case (Some v)
    then show ?thesis using early by (intro r_into_rtranclp) (simp add: alone_called flight_alone_def Let_def)
  next
    case miss: None
    obtain v x' where v: "fl_inner env a x = (v, x')" by fastforce
    have "(flight_step env)\<^sup>*\<^sup>* ([Called a], c, x) ([Missed a], ?c1, x)"
      using early miss by (intro r_into_rtranclp) (simp add: alone_called)
    also have "flight_step env ([Missed a], ?c1, x) ([Leading a], ?c1, x)" by (simp add: alone_missed)
    also have "flight_step env ([Leading a], ?c1, x) ([Fetched a v], ?c1, x')" using v by (simp add: alone_leading)
    also have "flight_step env ([Fetched a v], ?c1, x') (let (v, c', x') = flight_alone env a c x in ([Answered a v], c', x'))"
      using early miss v by (simp add: alone_fetched flight_alone_def Let_def)
    finally show ?thesis .
  qed
qed

lemma alone_iff:
  "(flight_step env)\<^sup>*\<^sup>* ([Called a], c, x) ([Answered a r], c', x') \<longleftrightarrow> flight_alone env a c x = (r, (c', x'))"
proof
  assume "(flight_step env)\<^sup>*\<^sup>* ([Called a], c, x) ([Answered a r], c', x')"
  from alone_run [OF this] show "flight_alone env a c x = (r, (c', x'))" by (auto simp: Let_def split: prod.splits)
next
  assume "flight_alone env a c x = (r, (c', x'))"
  then show "(flight_step env)\<^sup>*\<^sup>* ([Called a], c, x) ([Answered a r], c', x')" using alone_reaches [of env a c x] by simp
qed

lemma cached_Exists_alone:
  "cached_Exists keep now sTTL fTTL inner ns (c, x) = flight_alone (ns_flights keep now sTTL fTTL inner) ns c x"
  by (auto simp: cached_Exists_def flight_alone_def ns_flights_def Let_def split: option.split prod.split sum.split go_stop.split)

text \<open>The rules cache keeps rules or an error; here an entry is the result it stands for.\<close>

definition rules_entries :: "(string, go_error + rules) cache \<Rightarrow> (string, rules go) cache" where
  "rules_entries = map (\<lambda>(k, v, t). (k, entry_result v, t))"

lemma entries_trim: "cache_trim keep t (rules_entries c) = rules_entries (cache_trim keep t c)"
  by (induction c) (auto simp: cache_trim_def rules_entries_def)

lemma entries_get: "cache_get keep t (rules_entries c) k = map_option entry_result (cache_get keep t c k)"
proof -
  have "map_option fst (map_of (rules_entries c) k) = map_option entry_result (map_option fst (map_of c k))" for c
    by (induction c) (auto simp: rules_entries_def)
  then show ?thesis by (simp add: cache_get_def entries_trim)
qed

lemma entries_add: "rules_entries (cache_add k v ttl t c) = cache_add k (entry_result v) ttl t (rules_entries c)"
proof -
  have "rules_entries (filter (\<lambda>(k', _). k' \<noteq> k) c) = filter (\<lambda>(k', _). k' \<noteq> k) (rules_entries c)"
    by (induction c) (auto simp: rules_entries_def)
  then show ?thesis by (simp add: cache_add_def) (simp add: rules_entries_def)
qed

lemma cached_GetRules_alone:
  "flight_alone (rules_flights keep now sTTL fTTL inner) (u, ns) (rules_entries c) x =
     (let (r, (c', x')) = cached_GetRules keep now sTTL fTTL inner u ns (c, x) in (r, (rules_entries c', x')))"
  by (auto simp: cached_GetRules_def flight_alone_def rules_flights_def Let_def rules_key_hash entries_trim entries_get
      entries_add entry_result_def split: option.split prod.split sum.split go_stop.split)

section \<open>Properties\<close>

text \<open>
  C16. Whatever the interleaving of the callers of the rules cache, and however the cluster changes meanwhile,
  every caller that is answered got what the API answered, at some time, to one of the callers with the
  same name and id in the same namespace (up to collisions of SHA-256): rules only through a client
  with that caller's own token, filtered. It need not be the caller's own token: who waits for another gets the
  answer to the other's. A user without name and id gets an error.
\<close>

theorem concurrent_rules_answers:
  assumes "flight_run (rules_flights keep now successTTL failureTTL (GetRules api k)) (all_called reqs, [], x) (cs, c, x')"
    and "Answered (u, ns) r \<in> set cs"
  shows "(u, ns) \<in> set reqs \<and>
    (if ui_Name u = [] \<and> ui_UID u = []
     then \<exists>e. r = Inl (Err e)
     else \<exists>u' ns' y. (u', ns') \<in> set reqs \<and>
       sha256 (key_text [ns', ui_Name u', ui_UID u']) = sha256 (key_text [ns, ui_Name u, ui_UID u]) \<and>
       r = fst (GetRules api k u' ns' y) \<and>
       (\<forall>rules. r = Inr rules \<longrightarrow>
          (\<exists>client rules0 y'. ui_BearerToken u' \<noteq> [] \<and>
             ra_new_client api ((rf_restConfig k)\<lparr>rc_BearerToken := ui_BearerToken u', rc_BearerTokenFile := []\<rparr>) = Inr client \<and>
             ra_backoff api (fetch_attempt api k client ns') y = (Inr rules0, y') \<and>
             rules = (case rf_rulesFilter k of None \<Rightarrow> rules0 | Some f \<Rightarrow> f rules0))))"
proof -
  let ?env = "rules_flights keep now successTTL failureTTL (GetRules api k)"
  from flights_ok_member [OF rules_group.run_ok [OF assms(1) order_refl] assms(2)]
  have req: "(u, ns) \<in> set reqs"
    and legit: "case fl_early ?env (u, ns) of Some w \<Rightarrow> r = w
      | None \<Rightarrow> \<exists>(u', ns') \<in> set reqs. rules_key u' ns' = fl_key ?env (u, ns) \<and> (\<exists>y. r = fst (GetRules api k u' ns' y))"
    by simp_all
  show ?thesis
  proof (cases "ui_Name u = [] \<and> ui_UID u = []")
    case True
    then show ?thesis using req legit by (simp add: rules_flights_def)
  next
    case False
    then obtain u' ns' y where a: "(u', ns') \<in> set reqs" "rules_key u' ns' = rules_key u ns"
      "r = fst (GetRules api k u' ns' y)"
      using legit by (auto simp: rules_flights_def)
    have "\<exists>client rules0 y'. ui_BearerToken u' \<noteq> [] \<and>
        ra_new_client api ((rf_restConfig k)\<lparr>rc_BearerToken := ui_BearerToken u', rc_BearerTokenFile := []\<rparr>) = Inr client \<and>
        ra_backoff api (fetch_attempt api k client ns') y = (Inr rules0, y') \<and>
        rules = (case rf_rulesFilter k of None \<Rightarrow> rules0 | Some f \<Rightarrow> f rules0)" if "r = Inr rules" for rules
      by (rule GetRules_Inr) (use a(3) that in simp)
    then show ?thesis using False req a rules_key_sha by auto
  qed
qed

text \<open>Two requests of one user with two tokens; the second waits for the first.\<close>

definition token_user :: "string \<Rightarrow> user_info" where
  "token_user token = \<lparr>ui_Name = ''alice'', ui_UID = ''42'', ui_Groups = [], ui_BearerToken = token\<rparr>"

definition test_flights :: "(user_info \<times> string, string, rules go, int) flight_env" where
  "test_flights = rules_flights (\<lambda>_ _. True) id 60 30 (GetRules test_rules_api test_fetcher)"

lemma second_waits:
  "\<exists>c. flight_run test_flights (all_called [(token_user ''abc'', ''team''), (token_user ''xyz'', ''team'')], [], 5)
    ([Answered (token_user ''abc'', ''team'') (Inr []), Answered (token_user ''xyz'', ''team'') (Inr [])], c, 6)"
proof -
  let ?a = "(token_user ''abc'', ''team'')" and ?b = "(token_user ''xyz'', ''team'')"
  have early: "fl_early test_flights ?a = None" "fl_early test_flights ?b = None"
    by (simp_all add: test_flights_def rules_flights_def token_user_def)
  have key: "fl_key test_flights ?a = fl_key test_flights ?b"
    by (simp add: test_flights_def rules_flights_def token_user_def rules_key_def)
  have miss: "cache_get keep t ([] :: (string, rules go) cache) k = None" "cache_trim keep t ([] :: (string, rules go) cache) = []"
    for keep t k by (simp_all add: cache_get_def cache_trim_def)
  have fetch: "fl_inner test_flights ?a 5 = (Inr [], 6)"
    by (simp add: test_flights_def rules_flights_def GetRules_def buildClient_def token_user_def test_rules_api_def
        test_fetcher_def fetch_attempt_def recordMetrics_def)
  have "flight_run test_flights (all_called [?a, ?b], [], 5) ([Called ?a, Called ?b], [], 5)"
    using flight_run.begun [of test_flights "(all_called [?a, ?b], [], 5)"] by (simp add: all_called_def)
  from flight_run.step [OF this flight_step.miss [of 0 _ ?a]] early miss
  have "flight_run test_flights (all_called [?a, ?b], [], 5) ([Missed ?a, Called ?b], [], 5)" by simp
  from flight_run.step [OF this flight_step.miss [of 1 _ ?b]] early miss
  have "flight_run test_flights (all_called [?a, ?b], [], 5) ([Missed ?a, Missed ?b], [], 5)" by simp
  from flight_run.step [OF this flight_step.lead [of 0 _ ?a]]
  have "flight_run test_flights (all_called [?a, ?b], [], 5) ([Leading ?a, Missed ?b], [], 5)" by simp
  from flight_run.step [OF this flight_step.join [of 1 _ ?b]] key
  have "flight_run test_flights (all_called [?a, ?b], [], 5) ([Leading ?a, Awaiting ?b], [], 5)" by simp
  from flight_run.step [OF this flight_step.fetch [of 0 _ ?a]] fetch
  have "flight_run test_flights (all_called [?a, ?b], [], 5) ([Fetched ?a (Inr []), Awaiting ?b], [], 6)" by simp
  from flight_run.step [OF this flight_step.finish [of 0 _ ?a "Inr []", OF _ _ refl]] key
  show ?thesis by auto
qed

lemma concurrent_rules_answers_witness:
  "\<exists>token y. token \<in> {''abc'', ''xyz''} \<and>
     (\<exists>rules y'. ra_backoff test_rules_api (fetch_attempt test_rules_api test_fetcher token ''team'') y = (Inr rules, y'))"
proof -
  obtain c where run: "flight_run test_flights (all_called [(token_user ''abc'', ''team''), (token_user ''xyz'', ''team'')], [], 5)
    ([Answered (token_user ''abc'', ''team'') (Inr []), Answered (token_user ''xyz'', ''team'') (Inr [])], c, 6)"
    using second_waits by blast
  have "Answered (token_user ''xyz'', ''team'') (Inr []) \<in>
    set [Answered (token_user ''abc'', ''team'') (Inr []), Answered (token_user ''xyz'', ''team'') (Inr [])]" by simp
  note answers = concurrent_rules_answers [OF run [unfolded test_flights_def] this]
  have "\<not> (ui_Name (token_user ''xyz'') = [] \<and> ui_UID (token_user ''xyz'') = [])" by (simp add: token_user_def)
  from conjunct2 [OF answers, unfolded if_not_P [OF this]]
  obtain u' ns' y where a: "(u', ns') \<in> set [(token_user ''abc'', ''team''), (token_user ''xyz'', ''team'')]"
    and "\<forall>rules. (Inr [] :: rules go) = Inr rules \<longrightarrow>
      (\<exists>client rules0 y'. ui_BearerToken u' \<noteq> [] \<and>
         ra_new_client test_rules_api ((rf_restConfig test_fetcher)\<lparr>rc_BearerToken := ui_BearerToken u', rc_BearerTokenFile := []\<rparr>)
           = Inr client \<and>
         ra_backoff test_rules_api (fetch_attempt test_rules_api test_fetcher client ns') y = (Inr rules0, y') \<and>
         rules = (case rf_rulesFilter test_fetcher of None \<Rightarrow> rules0 | Some f \<Rightarrow> f rules0))"
    by (elim exE conjE) (rule that)
  then obtain client rules0 y' where "client = ui_BearerToken u'"
    "ra_backoff test_rules_api (fetch_attempt test_rules_api test_fetcher client ns') y = (Inr rules0, y')"
    by (auto simp: test_rules_api_def)
  moreover have "ns' = ''team''" "ui_BearerToken u' \<in> {''abc'', ''xyz''}" using a by (auto simp: token_user_def)
  ultimately show ?thesis by blast
qed

end
