(* ===== verification/Authz_Kubernetes.thy ===== *)
theory Authz_Kubernetes
  imports K8s_Rules
begin

text \<open>
  \<^verbatim>\<open>authz/kubernetes_authz.go\<close>: the authorizer that asks the Kubernetes API for the rules of the
  authenticated user in the namespace that a repository name starts with.

  The authorizer owns two caches, of namespaces and of rules, which live with the world outside
  in one state. The Kubernetes client is a record of arguments.
\<close>

section \<open>Authorization\<close>

record ('q, 'w) kubernetes_authz =
  ka_cfg :: "'q auth_config"
  ka_namespaceChecker :: "'w ns_fn"
  ka_rulesFetcher :: "'w rules_fn"

text \<open>The loop over the requested actions; an action without a verb is skipped.\<close>

definition allowed_actions :: "glob_fn \<Rightarrow> rules \<Rightarrow> string \<Rightarrow> string list \<Rightarrow> string list" where
  "allowed_actions glob rules repoPath actions =
     fold (\<lambda>action allowed.
        case GetK8sVerb action of
          None \<Rightarrow> allowed
        | Some verb \<Rightarrow> (if IsActionAllowed glob rules verb repoPath then allowed @ [action] else allowed))
       actions []"

definition kube_Authorize :: "glob_fn \<Rightarrow> ('q, 'w) kubernetes_authz \<Rightarrow> 'w authz_fn" where
  "kube_Authorize glob ka req w =
     (if length (ai_Actions req) = 0 then (Inl (Err NoMatch), w)
      else if ai_Account req \<noteq> kc_UserName (ka_cfg ka) then (Inl (Err NoMatch), w)
      else case ai_AuthenticatorData req of
          AnyUserInfo userInfo \<Rightarrow>
            (if \<not> user_info_is_valid userInfo then (Inl (Err NoMatch), w)
             else let (ns, repoPath) = SplitNamespaceAndPath (ai_Name req) in
               if repoPath = [] then (Inl (Err NoMatch), w)
               else case kc_Authz (ka_cfg ka) of
                   None \<Rightarrow> (Inl (Panic nil_deref), w)
                 | Some az \<Rightarrow>
                     (case (if NeedsNamespaceCheck az (ai_Actions req) then ka_namespaceChecker ka ns w
                            else (Inr True, w)) of
                        (Inl err, w1) \<Rightarrow> (Inl err, w1)
                      | (Inr exists, w1) \<Rightarrow>
                          (if \<not> exists then (Inl (Err NoMatch), w1)
                           else case ka_rulesFetcher ka userInfo ns w1 of
                               (Inl err, w2) \<Rightarrow> (Inl err, w2)
                             | (Inr rules, w2) \<Rightarrow>
                                 (let allowed = allowed_actions glob rules repoPath (ai_Actions req) in
                                  if length allowed = 0 then (Inl (Err NoMatch), w2)
                                  else (Inr (Some allowed), w2)))))
        | _ \<Rightarrow> (Inl (Err NoMatch), w))"

section \<open>Construction\<close>

text \<open>The state: the two caches and the world outside. A new authorizer starts with empty caches.\<close>

record 'x kube_state =
  ks_namespaces :: "(string, bool go) cache"
  ks_rules :: "(string, go_error + rules) cache"
  ks_world :: 'x

definition kube_start :: "'x \<Rightarrow> 'x kube_state" where
  "kube_start x = \<lparr>ks_namespaces = [], ks_rules = [], ks_world = x\<rparr>"

definition on_namespaces :: "((string, bool go) cache \<times> 'x) ns_fn \<Rightarrow> 'x kube_state ns_fn" where
  "on_namespaces f ns s =
     (let (r, (c, x)) = f ns (ks_namespaces s, ks_world s) in (r, s\<lparr>ks_namespaces := c, ks_world := x\<rparr>))"

definition on_rules :: "((string, go_error + rules) cache \<times> 'x) rules_fn \<Rightarrow> 'x kube_state rules_fn" where
  "on_rules f u ns s =
     (let (r, (c, x)) = f u ns (ks_rules s, ks_world s) in (r, s\<lparr>ks_rules := c, ks_world := x\<rparr>))"

record ('q, 'r, 'cl, 'x) kube_api =
  kb_loader :: "('q, 'r) rest_loader"
  kb_rules :: "('q, 'r, 'cl, 'x) rules_api"
  kb_get :: "'cl \<Rightarrow> string \<Rightarrow> 'x \<Rightarrow> go_error option \<times> 'x"
  kb_is_not_found :: "go_error \<Rightarrow> bool"
  kb_now :: "'x \<Rightarrow> int"
  kb_keep_ns :: "int \<Rightarrow> string \<Rightarrow> bool"
  kb_keep_rules :: "int \<Rightarrow> string \<Rightarrow> bool"

text \<open>The two caches in front of the checker and the fetcher.\<close>

definition cached_authz ::
  "('q, 'r, 'cl, 'x) kube_api \<Rightarrow> 'q auth_config \<Rightarrow> 'cl namespace_checker \<Rightarrow> ('q, 'r) rules_fetcher \<Rightarrow>
   ('q, 'x kube_state) kubernetes_authz" where
  "cached_authz api config checker fetcher =
     \<lparr>ka_cfg = config,
      ka_namespaceChecker =
        on_namespaces (NewCachedNamespaceChecker (kb_keep_ns api) (kb_now api)
          (ns_Exists (kb_get api (nc_client checker)) (kb_is_not_found api)) (kc_SuccessTTL config) (kc_FailureTTL config)),
      ka_rulesFetcher =
        on_rules (NewCachedRulesFetcher (kb_keep_rules api) (kb_now api)
          (GetRules (kb_rules api) fetcher) (kc_SuccessTTL config) (kc_FailureTTL config))\<rparr>"

text \<open>
  A configuration without the section \<^verbatim>\<open>authz\<close> gets as far as the log message at the end, which
  reads its fields.
\<close>

definition NewKubernetesAuthz ::
  "('q, 'r, 'cl, 'x) kube_api \<Rightarrow> 'q auth_config option \<Rightarrow> ('q, 'x kube_state) kubernetes_authz go" where
  "NewKubernetesAuthz api pconfig =
     (case pconfig of
        None \<Rightarrow> Inl (Err (Errorf ''config is nil'' []))
      | Some config \<Rightarrow>
          (case BuildRestConfig (kb_loader api) config of
             Inl err \<Rightarrow> Inl (Err (Errorf ''failed to build Kubernetes REST config'' [err]))
           | Inr rc \<Rightarrow>
               (case NewRulesFetcher (kc_RequestTimeout config) (Some rc) (Some (True, True))
                       (Some (\<lambda>rules. FilterRules (the (kc_Authz config)) rules)) of
                  Inl err \<Rightarrow> Inl (Err (Errorf ''failed to create rules fetcher'' [err]))
                | Inr fetcher \<Rightarrow>
                    (case NewNamespaceChecker (ra_new_client (kb_rules api)) (kc_RequestTimeout config) (Some rc) of
                       Inl err \<Rightarrow> Inl (Err (Errorf ''failed to create namespace checker'' [err]))
                     | Inr checker \<Rightarrow>
                         (if kc_Authz config = None then Inl (Panic nil_deref)
                          else Inr (cached_authz api config checker fetcher))))))"

section \<open>Laws\<close>

lemma allowed_actions_eq:
  "allowed_actions glob rules path acts =
     filter (\<lambda>a. \<exists>verb. GetK8sVerb a = Some verb \<and> IsActionAllowed glob rules verb path) acts"
proof -
  have "fold (\<lambda>action allowed.
        case GetK8sVerb action of
          None \<Rightarrow> allowed
        | Some verb \<Rightarrow> (if IsActionAllowed glob rules verb path then allowed @ [action] else allowed))
       acts acc =
     acc @ filter (\<lambda>a. \<exists>verb. GetK8sVerb a = Some verb \<and> IsActionAllowed glob rules verb path) acts" for acc
    by (induction acts arbitrary: acc) (auto split: option.split)
  then show ?thesis by (simp add: allowed_actions_def)
qed

text \<open>What a run of the authorizer that grants something has gone through.\<close>

lemma kube_Authorize_Inr:
  "kube_Authorize glob ka ai w = (Inr acts, w') \<longleftrightarrow>
     (\<exists>u ns path az w1 rules. ai_Account ai = kc_UserName (ka_cfg ka) \<and>
        ai_AuthenticatorData ai = AnyUserInfo u \<and> user_info_is_valid u \<and>
        SplitNamespaceAndPath (ai_Name ai) = (ns, path) \<and> path \<noteq> [] \<and> kc_Authz (ka_cfg ka) = Some az \<and>
        (if NeedsNamespaceCheck az (ai_Actions ai) then ka_namespaceChecker ka ns w = (Inr True, w1) else w1 = w) \<and>
        ka_rulesFetcher ka u ns w1 = (Inr rules, w') \<and>
        acts = Some (allowed_actions glob rules path (ai_Actions ai)) \<and>
        allowed_actions glob rules path (ai_Actions ai) \<noteq> [])"
    (is "?l \<longleftrightarrow> ?r")
proof
  assume ?l
  then show ?r
    by (auto simp: kube_Authorize_def Let_def split: if_splits go_any.splits option.splits prod.splits sum.splits)
next
  assume ?r
  then obtain u ns path az w1 rules where r: "ai_Account ai = kc_UserName (ka_cfg ka)"
    "ai_AuthenticatorData ai = AnyUserInfo u" "user_info_is_valid u"
    "SplitNamespaceAndPath (ai_Name ai) = (ns, path)" "path \<noteq> []" "kc_Authz (ka_cfg ka) = Some az"
    "if NeedsNamespaceCheck az (ai_Actions ai) then ka_namespaceChecker ka ns w = (Inr True, w1) else w1 = w"
    "ka_rulesFetcher ka u ns w1 = (Inr rules, w')"
    "acts = Some (allowed_actions glob rules path (ai_Actions ai))"
    "allowed_actions glob rules path (ai_Actions ai) \<noteq> []" by blast
  have "ai_Actions ai \<noteq> []" using r(10) by (auto simp: allowed_actions_eq)
  then show ?l using r by (auto simp: kube_Authorize_def Let_def)
qed

interpretation kube: authorizer "kube_Authorize glob ka" for glob ka
  by unfold_locales (auto simp: kube_Authorize_Inr allowed_actions_eq slice_items_def)


section \<open>Where grants come from\<close>

locale kubernetes_authorizer =
  ns_checker "ka_namespaceChecker ka" ok ns_legit + rules_source "ka_rulesFetcher ka" ok view rules_legit
  for ka :: "('q, 'w) kubernetes_authz" and ok :: "'w \<Rightarrow> bool" and ns_legit :: "string \<Rightarrow> bool go \<Rightarrow> bool"
    and view :: "user_info \<Rightarrow> string \<Rightarrow> 'k" and rules_legit :: "'k \<Rightarrow> rules go \<Rightarrow> bool"
begin

lemma authorize_ok: "ok w \<Longrightarrow> kube_Authorize glob ka ai w = (r, w') \<Longrightarrow> ok w'"
  by (auto simp: kube_Authorize_def Let_def dest: exists_ok fetch_ok
      split: if_splits go_any.splits option.splits prod.splits sum.splits)

lemma grant_legit:
  assumes "ok w" "kube_Authorize glob ka ai w = (Inr acts, w')" "a \<in> set (slice_items acts)"
  shows "\<exists>u ns path az rules verb. ai_AuthenticatorData ai = AnyUserInfo u \<and>
    ai_Name ai = ns @ CHR ''/'' # path \<and> kc_Authz (ka_cfg ka) = Some az \<and>
    (NeedsNamespaceCheck az (ai_Actions ai) \<longrightarrow> ns \<noteq> [] \<and> ns_legit ns (Inr True)) \<and>
    user_info_is_valid u \<and> rules_legit (view u ns) (Inr rules) \<and>
    GetK8sVerb a = Some verb \<and> IsActionAllowed glob rules verb path"
proof -
  obtain u ns path az w1 rules where r: "ai_AuthenticatorData ai = AnyUserInfo u" "user_info_is_valid u"
    "SplitNamespaceAndPath (ai_Name ai) = (ns, path)" "path \<noteq> []" "kc_Authz (ka_cfg ka) = Some az"
    "if NeedsNamespaceCheck az (ai_Actions ai) then ka_namespaceChecker ka ns w = (Inr True, w1) else w1 = w"
    "ka_rulesFetcher ka u ns w1 = (Inr rules, w')"
    "acts = Some (allowed_actions glob rules path (ai_Actions ai))"
    using assms(2) unfolding kube_Authorize_Inr by blast
  have name: "ai_Name ai = ns @ CHR ''/'' # path"
    using r(3,4) unfolding SplitNamespaceAndPath_split by auto
  have check: "ns \<noteq> [] \<and> ns_legit ns (Inr True)" if "NeedsNamespaceCheck az (ai_Actions ai)"
  proof -
    have e: "ka_namespaceChecker ka ns w = (Inr True, w1)" using r(6) that by simp
    then have "ns \<noteq> []" using exists_empty [of w] by auto
    then show ?thesis using exists_legit [OF assms(1) _ e] by blast
  qed
  have "ok w1" using r(6) exists_ok [OF assms(1)] assms(1) by (auto split: if_splits)
  then have "rules_legit (view u ns) (Inr rules)" using fetch_legit r(7) by blast
  moreover obtain verb where "GetK8sVerb a = Some verb" "IsActionAllowed glob rules verb path"
    using assms(3) r(8) by (auto simp: slice_items_def allowed_actions_eq)
  ultimately show ?thesis using r(1,2,5) name check by blast
qed

lemma authorize_no_panic:
  assumes "ok w" "kc_Authz (ka_cfg ka) \<noteq> None"
    and "\<And>ns m. \<not> ns_legit ns (Inl (Panic m))" "\<And>k m. \<not> rules_legit k (Inl (Panic m))"
  shows "fst (kube_Authorize glob ka ai w) \<noteq> Inl (Panic m)"
proof
  assume p: "fst (kube_Authorize glob ka ai w) = Inl (Panic m)"
  have n: "ka_namespaceChecker ka ns w \<noteq> (Inl (Panic m), w1)" for ns m w1
    using exists_legit [OF assms(1), of ns "Inl (Panic m)" w1] exists_empty [of w] assms(3) by (cases "ns = []") auto
  have f: "ka_rulesFetcher ka u ns w1 \<noteq> (Inl (Panic m), w2)" if "ok w1" for u ns m w1 w2
    using fetch_legit [OF that, of u ns "Inl (Panic m)" w2] assms(4) by auto
  obtain w' where "kube_Authorize glob ka ai w = (Inl (Panic m), w')" using p by (metis fst_conv surj_pair)
  then show False
    using n f assms(1,2)
    by (auto simp: kube_Authorize_def Let_def dest: exists_ok
        split: if_splits go_any.splits option.splits prod.splits sum.splits)
qed

text \<open>Between requests the world may change, as long as \<open>ok\<close> is kept.\<close>

lemma run_ok:
  assumes "\<And>p w. ok w \<Longrightarrow> ok (step p w)"
  shows "ok w \<Longrightarrow> ok (snd (call_all (\<lambda>(ai, p) w. kube_Authorize glob ka ai (step p w)) ais w))"
proof (induction ais arbitrary: w)
  case (Cons q ais)
  obtain ai p where q: "q = (ai, p)" by (cases q)
  obtain r w1 where e: "kube_Authorize glob ka ai (step p w) = (r, w1)"
    by (cases "kube_Authorize glob ka ai (step p w)")
  have "ok w1" using authorize_ok [OF assms [OF Cons.prems] e] .
  then show ?case using Cons.IH [of w1] by (auto simp: q e split: prod.split)
qed simp

end

text \<open>Both caches hold only what the API answers.\<close>

abbreviation api_rules_legit ::
  "('q, 'r, 'cl, 'x) rules_api \<Rightarrow> ('q, 'r) rules_fetcher \<Rightarrow> user_info \<times> string \<Rightarrow> rules go \<Rightarrow> bool" where
  "api_rules_legit api k \<equiv> \<lambda>(u, ns) r. \<exists>x. r = fst (GetRules api k u ns x)"

definition kube_ok ::
  "('q, 'r, 'cl, 'x) kube_api \<Rightarrow> 'cl namespace_checker \<Rightarrow> ('q, 'r) rules_fetcher \<Rightarrow> 'x kube_state \<Rightarrow> bool" where
  "kube_ok api checker fetcher s =
     (ns_cache_ok (\<lambda>_. True)
        (\<lambda>ns r. \<exists>x. r = fst (ns_Exists (kb_get api (nc_client checker)) (kb_is_not_found api) ns x))
        (ks_namespaces s, ks_world s) \<and>
      rules_cache_ok (\<lambda>_. True) Pair (api_rules_legit (kb_rules api) fetcher) (ks_rules s, ks_world s))"

lemma kube_ok_start: "kube_ok api checker fetcher (kube_start x)"
  by (simp add: kube_ok_def kube_start_def ns_cache_ok_def rules_cache_ok_def)

lemma kube_ok_world: "kube_ok api checker fetcher (s\<lparr>ks_world := x\<rparr>) = kube_ok api checker fetcher s"
  by (simp add: kube_ok_def ns_cache_ok_def rules_cache_ok_def)

interpretation kube_model: kubernetes_authorizer "cached_authz api config checker fetcher"
  "kube_ok api checker fetcher"
  "\<lambda>ns r. \<exists>x. r = fst (ns_Exists (kb_get api (nc_client checker)) (kb_is_not_found api) ns x)"
  cache_view "key_legit Pair (api_rules_legit (kb_rules api) fetcher)"
  for api config checker fetcher
proof
  fix w ns r w'
  assume "kube_ok api checker fetcher w" "ka_namespaceChecker (cached_authz api config checker fetcher) ns w = (r, w')"
  then show "kube_ok api checker fetcher w'"
    using cached_api_checker.cached.exists_ok
    by (fastforce simp: kube_ok_def cached_authz_def on_namespaces_def rules_cache_ok_def split: prod.splits)
next
  fix w ns r w'
  assume "kube_ok api checker fetcher w" "ns \<noteq> []"
    "ka_namespaceChecker (cached_authz api config checker fetcher) ns w = (r, w')"
  then show "\<exists>x. r = fst (ns_Exists (kb_get api (nc_client checker)) (kb_is_not_found api) ns x)"
    using cached_api_checker.cached.exists_legit
    by (fastforce simp: kube_ok_def cached_authz_def on_namespaces_def split: prod.splits)
next
  fix w show "ka_namespaceChecker (cached_authz api config checker fetcher) [] w = (Inr False, w)"
    by (simp add: cached_authz_def on_namespaces_def cached_Exists_def)
next
  fix w u ns r w'
  assume "kube_ok api checker fetcher w" "ka_rulesFetcher (cached_authz api config checker fetcher) u ns w = (r, w')"
  then show "kube_ok api checker fetcher w'"
    using cached_api_rules.cached.fetch_ok
    by (fastforce simp: kube_ok_def cached_authz_def on_rules_def ns_cache_ok_def split: prod.splits)
next
  fix w u ns r w'
  assume "kube_ok api checker fetcher w" "ka_rulesFetcher (cached_authz api config checker fetcher) u ns w = (r, w')"
  then show "key_legit Pair (api_rules_legit (kb_rules api) fetcher) (cache_view u ns) r"
    using cached_api_rules.cached.fetch_legit
    by (fastforce simp: kube_ok_def cached_authz_def on_rules_def split: prod.splits)
qed

section \<open>Who asked\<close>

text \<open>Every entry of the rules cache stands under a key of a user and namespace with \<open>P\<close>.\<close>

definition rules_from :: "(user_info \<Rightarrow> string \<Rightarrow> rules go \<Rightarrow> bool) \<Rightarrow> (string, go_error + rules) cache \<Rightarrow> bool" where
  "rules_from P c = (\<forall>(k, v, t) \<in> set c. \<exists>u ns. rules_key u ns = k \<and> P u ns (entry_result v))"

lemma rules_from_mono: "rules_from P c \<Longrightarrow> (\<And>u ns r. P u ns r \<Longrightarrow> Q u ns r) \<Longrightarrow> rules_from Q c"
  by (fastforce simp: rules_from_def)

lemma rules_from_trim: "rules_from P c \<Longrightarrow> rules_from P (cache_trim keep t c)"
  using cache_trim_subset by (fastforce simp: rules_from_def)

lemma rules_from_get:
  assumes "rules_from P c" "cache_get keep t c k = Some v"
  shows "\<exists>u ns. rules_key u ns = k \<and> P u ns (entry_result v)"
  using cache_get_member [OF assms(2)] assms(1) by (fastforce simp: rules_from_def)

lemma rules_from_add:
  assumes "rules_from P c" "P u ns (entry_result v)"
  shows "rules_from P (cache_add (rules_key u ns) v ttl t c)"
  unfolding rules_from_def
proof clarify
  fix k w e assume "(k, w, e) \<in> set (cache_add (rules_key u ns) v ttl t c)"
  from cache_add_member [OF this] show "\<exists>u ns. rules_key u ns = k \<and> P u ns (entry_result w)"
    using assms by (auto simp: rules_from_def)
qed

text \<open>Whoever asks the cache is answered for a user and namespace of the same key.\<close>

lemma cached_GetRules_from:
  assumes cache: "rules_from P c" and inner: "\<And>x. P u ns (fst (inner u ns x))"
    and run: "cached_GetRules keep now sTTL fTTL inner u ns (c, x) = (r, (c', x'))"
  shows "rules_from P c' \<and> (ui_Name u = [] \<and> ui_UID u = [] \<or> (\<exists>u' ns'. rules_key u' ns' = rules_key u ns \<and> P u' ns' r))"
proof (cases "ui_Name u = [] \<and> ui_UID u = []")
  case True
  then show ?thesis using run cache by (simp add: cached_GetRules_def)
next
  case named: False
  show ?thesis
  proof (cases "cache_get keep (now x) c (rules_key u ns)")
    case (Some v)
    then have "r = entry_result v" "c' = cache_trim keep (now x) c"
      using run named by (auto simp: cached_GetRules_def rules_key_hash entry_result_def split: sum.splits)
    then show ?thesis using rules_from_trim [OF cache] rules_from_get [OF cache Some] by blast
  next
    case None
    obtain q y where e: "inner u ns x = (q, y)" by fastforce
    have q: "P u ns q" using inner [of x] e by simp
    have add: "rules_from P (cache_add (rules_key u ns) v ttl t (cache_trim keep (now x) c))"
      if "entry_result v = q" for v ttl t
      using rules_from_add [OF rules_from_trim [OF cache]] that q by simp
    have "rules_from P c' \<and> r = q"
      using run None named e rules_from_trim [OF cache] add
      by (auto simp: cached_GetRules_def rules_key_hash Let_def entry_result_def split: sum.splits go_stop.splits if_splits)
    then show ?thesis using q by blast
  qed
qed

section \<open>Interruptions\<close>

text \<open>
  The states of the two caches and the world while any number of requests are on their way: each call of
  the checker or the fetcher, by whichever request, is one step, and the world changes in between. The users
  that have asked for their rules so far, each with a namespace, go along.
\<close>

inductive kube_reach ::
  "('q, 'x kube_state) kubernetes_authz \<Rightarrow> (user_info \<times> string) set \<Rightarrow> 'x kube_state \<Rightarrow> bool"
  for ka :: "('q, 'x kube_state) kubernetes_authz" where
  started: "kube_reach ka {} (kube_start x)"
| world: "kube_reach ka asked s \<Longrightarrow> kube_reach ka asked (s\<lparr>ks_world := x\<rparr>)"
| checked: "kube_reach ka asked s \<Longrightarrow> ka_namespaceChecker ka ns s = (r, s') \<Longrightarrow> kube_reach ka asked s'"
| fetched: "kube_reach ka asked s \<Longrightarrow> ka_rulesFetcher ka u ns s = (q, s') \<Longrightarrow> kube_reach ka (insert (u, ns) asked) s'"

lemma kube_reach_ok:
  "kube_reach (cached_authz api config checker fetcher) asked s \<Longrightarrow> kube_ok api checker fetcher s"
  by (induction rule: kube_reach.induct)
     (auto simp: kube_ok_start kube_ok_world intro: kube_model.exists_ok kube_model.fetch_ok)

lemma kube_reach_authorize:
  assumes "kube_reach ka asked w" "kube_Authorize glob ka ai w = (r, w')"
  shows "\<exists>asked'. asked \<subseteq> asked' \<and> kube_reach ka asked' w'"
proof -
  have fetch: "\<exists>asked'. asked \<subseteq> asked' \<and> kube_reach ka asked' w2"
    if "kube_reach ka asked w1" "ka_rulesFetcher ka u ns w1 = (q, w2)" for w1 w2 u ns q
    using kube_reach.fetched [OF that] by blast
  have "\<exists>asked'. asked \<subseteq> asked' \<and> kube_reach ka asked' w1" if "kube_reach ka asked w1" for w1
    using that by blast
  then show ?thesis
    using assms fetch
    by (auto simp: kube_Authorize_def Let_def dest: kube_reach.checked
        split: if_splits go_any.splits option.splits prod.splits sum.splits)
qed

text \<open>The rules in the cache are what the API answered to those who asked.\<close>

abbreviation answer_to ::
  "('q, 'r, 'cl, 'x) rules_api \<Rightarrow> ('q, 'r) rules_fetcher \<Rightarrow> (user_info \<times> string) set \<Rightarrow> user_info \<Rightarrow> string \<Rightarrow> rules go \<Rightarrow> bool" where
  "answer_to api fetcher asked u ns r \<equiv> (u, ns) \<in> asked \<and> (\<exists>x. r = fst (GetRules api fetcher u ns x))"

lemma ask_rules:
  assumes "rules_from (answer_to (kb_rules api) fetcher asked) (ks_rules s)"
    and "ka_rulesFetcher (cached_authz api config checker fetcher) u ns s = (q, s')"
  shows "rules_from (answer_to (kb_rules api) fetcher (insert (u, ns) asked)) (ks_rules s') \<and>
    (ui_Name u = [] \<and> ui_UID u = [] \<or>
     (\<exists>u' ns'. rules_key u' ns' = rules_key u ns \<and> answer_to (kb_rules api) fetcher (insert (u, ns) asked) u' ns' q))"
proof -
  obtain c x where run: "cached_GetRules (kb_keep_rules api) (kb_now api) (kc_SuccessTTL config) (kc_FailureTTL config)
      (GetRules (kb_rules api) fetcher) u ns (ks_rules s, ks_world s) = (q, (c, x))" "ks_rules s' = c"
    using assms(2) by (auto simp: cached_authz_def on_rules_def split: prod.splits)
  have "rules_from (answer_to (kb_rules api) fetcher (insert (u, ns) asked)) (ks_rules s)"
    using assms(1) by (rule rules_from_mono) blast
  from cached_GetRules_from [OF this _ run(1)] show ?thesis unfolding run(2) by blast
qed

lemma kube_reach_rules:
  "kube_reach (cached_authz api config checker fetcher) asked s \<Longrightarrow>
   rules_from (answer_to (kb_rules api) fetcher asked) (ks_rules s)"
proof (induction rule: kube_reach.induct)
  case started
  then show ?case by (simp add: kube_start_def rules_from_def)
next
  case checked
  then show ?case by (auto simp: cached_authz_def on_namespaces_def split: prod.splits)
next
  case fetched
  then show ?case using ask_rules by blast
qed simp

text \<open>
  An authorization that is interrupted after its namespace was found: what others do before its rules are
  fetched is the argument \<open>between\<close>, and \<open>later\<close> are the users for whom they ask.
\<close>

definition interrupted :: "('w \<Rightarrow> 'w) \<Rightarrow> ('q, 'w) kubernetes_authz \<Rightarrow> ('q, 'w) kubernetes_authz" where
  "interrupted between ka = ka\<lparr>ka_namespaceChecker := \<lambda>ns w.
     (case ka_namespaceChecker ka ns w of (r, w') \<Rightarrow> (r, if r = Inr True then between w' else w'))\<rparr>"

definition others_between ::
  "('q, 'x kube_state) kubernetes_authz \<Rightarrow> (user_info \<times> string) set \<Rightarrow> ('x kube_state \<Rightarrow> 'x kube_state) \<Rightarrow> bool" where
  "others_between ka later between \<longleftrightarrow>
     (\<forall>asked s. kube_reach ka asked s \<longrightarrow> kube_reach ka (asked \<union> later) (between s))"

text \<open>What an authorization that grants something was told.\<close>

lemma interrupted_grant:
  fixes ka :: "('q, 'x kube_state) kubernetes_authz"
  assumes run: "kube_Authorize glob (interrupted between ka) ai w = (Inr acts, w')"
    and a: "a \<in> set (slice_items acts)"
    and reach: "kube_reach ka asked w" "others_between ka later between"
  obtains u ns path az rules verb asked1 w1 where "ai_AuthenticatorData ai = AnyUserInfo u" "user_info_is_valid u"
    "ai_Name ai = ns @ CHR ''/'' # path" "kc_Authz (ka_cfg ka) = Some az"
    "NeedsNamespaceCheck az (ai_Actions ai) \<longrightarrow> (\<exists>w0. ka_namespaceChecker ka ns w = (Inr True, w0))"
    "asked1 \<subseteq> asked \<union> later" "kube_reach ka asked1 w1" "ka_rulesFetcher ka u ns w1 = (Inr rules, w')"
    "GetK8sVerb a = Some verb" "IsActionAllowed glob rules verb path"
proof -
  from run [unfolded kube_Authorize_Inr]
  obtain u ns path az w1 rules where r: "ai_AuthenticatorData ai = AnyUserInfo u" "user_info_is_valid u"
    "SplitNamespaceAndPath (ai_Name ai) = (ns, path)" "path \<noteq> []" "kc_Authz (ka_cfg ka) = Some az"
    "if NeedsNamespaceCheck az (ai_Actions ai) then ka_namespaceChecker (interrupted between ka) ns w = (Inr True, w1)
     else w1 = w"
    "ka_rulesFetcher ka u ns w1 = (Inr rules, w')" "acts = Some (allowed_actions glob rules path (ai_Actions ai))"
    by (auto simp: interrupted_def)
  have name: "ai_Name ai = ns @ CHR ''/'' # path" using r(3,4) unfolding SplitNamespaceAndPath_split by auto
  obtain verb where verb: "GetK8sVerb a = Some verb" "IsActionAllowed glob rules verb path"
    using a r(8) by (auto simp: slice_items_def allowed_actions_eq)
  have "\<exists>asked1. asked1 \<subseteq> asked \<union> later \<and> kube_reach ka asked1 w1 \<and>
    (NeedsNamespaceCheck az (ai_Actions ai) \<longrightarrow> (\<exists>w0. ka_namespaceChecker ka ns w = (Inr True, w0)))"
  proof (cases "NeedsNamespaceCheck az (ai_Actions ai)")
    case True
    then obtain w0 where w0: "ka_namespaceChecker ka ns w = (Inr True, w0)" "w1 = between w0"
      using r(6) by (auto simp: interrupted_def split: prod.splits if_splits)
    have "kube_reach ka (asked \<union> later) w1"
      using kube_reach.checked [OF reach(1) w0(1)] reach(2) unfolding w0(2) others_between_def by blast
    then show ?thesis using w0(1) by blast
  qed (use r(6) reach(1) in auto)
  then show thesis using that r name verb by blast
qed

section \<open>Properties\<close>

text \<open>
  C5. The Kubernetes authorizer grants exactly this: to the configured account, when a complete
  Kubernetes user was authenticated and the repository has a namespace and a path, the requested
  actions in their order whose verb the user's rules allow on the path, if there are any; and,
  when a requested action is one of those to check, only in a namespace that exists. In every
  other case the decision is left to others or an error is reported.
\<close>

theorem kubernetes_authorization:
  "kube_Authorize glob ka ai w = (Inr (Some granted), w') \<longleftrightarrow>
     (\<exists>u ns path az w1 rules. ai_Account ai = kc_UserName (ka_cfg ka) \<and>
        ai_AuthenticatorData ai = AnyUserInfo u \<and>
        ui_Name u \<noteq> [] \<and> ui_UID u \<noteq> [] \<and> ui_BearerToken u \<noteq> [] \<and>
        ai_Name ai = ns @ CHR ''/'' # path \<and> CHR ''/'' \<notin> set ns \<and> path \<noteq> [] \<and>
        kc_Authz (ka_cfg ka) = Some az \<and>
        (if set (ac_NamespaceCheckVerbs az) \<inter> set (ai_Actions ai) = {} then w1 = w
         else ka_namespaceChecker ka ns w = (Inr True, w1)) \<and>
        ka_rulesFetcher ka u ns w1 = (Inr rules, w') \<and>
        granted = filter (\<lambda>a. \<exists>verb. (a, verb) \<in> {(''pull'', ''get''), (''push'', ''create''), (''delete'', ''delete'')} \<and>
                          IsActionAllowed glob rules verb path) (ai_Actions ai) \<and>
        granted \<noteq> [])"
proof -
  have needs: "NeedsNamespaceCheck az acts \<longleftrightarrow> set (ac_NamespaceCheckVerbs az) \<inter> set acts \<noteq> {}" for az acts
    by (auto simp: NeedsNamespaceCheck_def list_ex_iff)
  have split: "SplitNamespaceAndPath name = (ns, path) \<and> path \<noteq> [] \<longleftrightarrow>
      name = ns @ CHR ''/'' # path \<and> CHR ''/'' \<notin> set ns \<and> path \<noteq> []" for name ns path
    by (auto simp: SplitNamespaceAndPath_split)
  show ?thesis
    unfolding kube_Authorize_Inr allowed_actions_eq GetK8sVerb_Some needs user_info_is_valid_def
  proof (intro iff_exI, goal_cases)
    case (1 u ns path az w1 rules)
    show ?case using split [of "ai_Name ai" ns path] by (cases "set (ac_NamespaceCheckVerbs az) \<inter> set (ai_Actions ai) = {}") auto
  qed
qed

text \<open>
  C4. Every grant can be traced to the API. Whatever happened since the server started, also by other
  requests between the check of the namespace and the fetching of the rules, an action is granted only
  if the API once returned rules, to a client that has the token of a user who asked, and those of the
  rules that name the configured group and resource allow the action's verb on the path. This user
  and namespace are those of the request, or those of an earlier request with the same key, that is
  with the same name, id and namespace, up to collisions of SHA-256. Where the namespace is checked, the API
  once reported that it exists, to a client with the server's own credentials.
\<close>

theorem kubernetes_grants_traced:
  assumes made: "NewKubernetesAuthz api (Some config) = Inr ka"
    and granted: "kube_Authorize glob (interrupted between ka) ai w = (Inr acts, w')" "a \<in> set (slice_items acts)"
    and others: "kube_reach ka asked w" "others_between ka later between"
  shows "\<exists>u ns path az rc verb (u' :: user_info) ns' client x1 rules0 x2.
    ai_AuthenticatorData ai = AnyUserInfo u \<and> ai_Name ai = ns @ CHR ''/'' # path \<and> kc_Authz config = Some az \<and>
    BuildRestConfig (kb_loader api) config = Inr rc \<and>
    (NeedsNamespaceCheck az (ai_Actions ai) \<longrightarrow> (\<exists>cl x x'. ra_new_client (kb_rules api) rc = Inr cl \<and> kb_get api cl ns x = (None, x'))) \<and>
    (u', ns') \<in> insert (u, ns) (asked \<union> later) \<and>
    sha256 (key_text [ns', ui_Name u', ui_UID u']) = sha256 (key_text [ns, ui_Name u, ui_UID u]) \<and>
    ra_new_client (kb_rules api) (rc\<lparr>rc_BearerToken := ui_BearerToken u', rc_BearerTokenFile := []\<rparr>) = Inr client \<and>
    (\<exists>k. ra_backoff (kb_rules api) (fetch_attempt (kb_rules api) k client ns') x1 = (Inr rules0, x2)) \<and>
    GetK8sVerb a = Some verb \<and> IsActionAllowed glob (FilterRules az rules0) verb path"
proof -
  obtain rc fetcher checker where rc: "BuildRestConfig (kb_loader api) config = Inr rc"
    and f: "NewRulesFetcher (kc_RequestTimeout config) (Some rc) (Some (True, True))
              (Some (\<lambda>rules. FilterRules (the (kc_Authz config)) rules)) = Inr fetcher"
    and c: "NewNamespaceChecker (ra_new_client (kb_rules api)) (kc_RequestTimeout config) (Some rc) = Inr checker"
    and ka: "ka = cached_authz api config checker fetcher"
    using made by (auto simp: NewKubernetesAuthz_def split: sum.splits if_splits)
  have cl: "ra_new_client (kb_rules api) rc = Inr (nc_client checker)"
    using c by (auto simp: NewNamespaceChecker_def split: sum.splits if_splits)
  have k: "rf_restConfig fetcher = rc" "rf_rulesFilter fetcher = Some (\<lambda>rules. FilterRules (the (kc_Authz config)) rules)"
    using f by (auto simp: NewRulesFetcher_def split: if_splits)
  have cfg: "ka_cfg ka = config" by (simp add: ka cached_authz_def)
  obtain u ns path az rules verb asked1 w1 where g: "ai_AuthenticatorData ai = AnyUserInfo u" "user_info_is_valid u"
    "ai_Name ai = ns @ CHR ''/'' # path" "kc_Authz (ka_cfg ka) = Some az"
    "NeedsNamespaceCheck az (ai_Actions ai) \<longrightarrow> (\<exists>w0. ka_namespaceChecker ka ns w = (Inr True, w0))"
    "asked1 \<subseteq> asked \<union> later" "kube_reach ka asked1 w1" "ka_rulesFetcher ka u ns w1 = (Inr rules, w')"
    "GetK8sVerb a = Some verb" "IsActionAllowed glob rules verb path"
    by (rule interrupted_grant [OF granted others])
  have az: "kc_Authz config = Some az" using g(4) cfg by simp
  have check: "NeedsNamespaceCheck az (ai_Actions ai) \<longrightarrow>
      (\<exists>cl x x'. ra_new_client (kb_rules api) rc = Inr cl \<and> kb_get api cl ns x = (None, x'))"
  proof
    assume "NeedsNamespaceCheck az (ai_Actions ai)"
    then obtain w0 where w0: "ka_namespaceChecker ka ns w = (Inr True, w0)" using g(5) by blast
    have "ns \<noteq> []" using w0 kube_model.exists_empty unfolding ka by (metis Pair_inject sum.inject(2))
    from kube_model.exists_legit [OF kube_reach_ok [OF others(1) [unfolded ka]] this w0 [unfolded ka]]
    obtain z where z: "Inr True = fst (ns_Exists (kb_get api (nc_client checker)) (kb_is_not_found api) ns z)"
      by (elim exE)
    then have "\<exists>x x'. kb_get api (nc_client checker) ns x = (None, x')"
      using ns_Exists_True [THEN iffD1, OF z [symmetric]] by blast
    then show "\<exists>cl x x'. ra_new_client (kb_rules api) rc = Inr cl \<and> kb_get api cl ns x = (None, x')" using cl by blast
  qed
  from ask_rules [OF kube_reach_rules [OF g(7) [unfolded ka]] g(8) [unfolded ka]] g(2)
  obtain u' ns' y where key: "rules_key u' ns' = rules_key u ns" and asker: "(u', ns') \<in> insert (u, ns) asked1"
    and y: "Inr rules = fst (GetRules (kb_rules api) fetcher u' ns' y)"
    unfolding user_info_is_valid_def by blast
  obtain client rules0 y' where client: "buildClient (kb_rules api) fetcher u' = Inr client"
    and run: "ra_backoff (kb_rules api) (fetch_attempt (kb_rules api) fetcher client ns') y = (Inr rules0, y')"
    and rules: "rules = FilterRules az rules0"
    using y az by (auto simp: GetRules_def k split: sum.splits prod.splits)
  have own: "ra_new_client (kb_rules api) (rc\<lparr>rc_BearerToken := ui_BearerToken u', rc_BearerTokenFile := []\<rparr>) = Inr client"
    using client by (simp add: buildClient_def k split: if_splits)
  have among: "(u', ns') \<in> insert (u, ns) (asked \<union> later)" using asker g(6) by blast
  show ?thesis
    by (intro exI conjI)
       (rule g(1) g(3) az rc check among key [unfolded rules_key_sha] own run g(9) g(10) [unfolded rules])+
qed

definition test_kube_api :: "(unit, unit, string, int) kube_api" where
  "test_kube_api =
     \<lparr>kb_loader = \<lparr>rl_stat = (\<lambda>p. None), rl_from_flags = (\<lambda>p. Inr test_rest_config), rl_in_cluster = Inr test_rest_config\<rparr>,
      kb_rules =
        \<lparr>ra_new_client = (\<lambda>rc. Inr (rc_BearerToken rc)),
         ra_review = (\<lambda>tok ns x. (Inr [\<lparr>rr_Verbs = [''create''], rr_APIGroups = [''*''], rr_Resources = [''registries''],
           rr_ResourceNames = []\<rparr>], x + 1)),
         ra_backoff = (\<lambda>f. f), ra_record = (\<lambda>c x. x)\<rparr>,
      kb_get = (\<lambda>tok ns x. (None, x + 1)), kb_is_not_found = (\<lambda>e. False), kb_now = id,
      kb_keep_ns = (\<lambda>t k. True), kb_keep_rules = (\<lambda>t k. True)\<rparr>"

definition test_push :: auth_request_info where
  "test_push = \<lparr>ai_Account = ''token'', ai_Type = ''repository'', ai_Name = ''team/app'', ai_Service = ''reg'', ai_IP = [],
     ai_Actions = [''pull'', ''push''], ai_Labels = [],
     ai_AuthenticatorData = AnyUserInfo \<lparr>ui_Name = ''alice'', ui_UID = ''42'', ui_Groups = [], ui_BearerToken = ''abc''\<rparr>\<rparr>"

definition exact_glob :: glob_fn where
  "exact_glob p s = (p = s, None)"

definition test_kube_authz :: "(unit, int kube_state) kubernetes_authz" where
  "test_kube_authz = cached_authz test_kube_api test_config
     \<lparr>nc_requestTimeout = second, nc_client = ''sa-token''\<rparr>
     \<lparr>rf_requestTimeout = second, rf_restConfig = test_rest_config, rf_metrics = True,
      rf_rulesFilter = Some (\<lambda>rules. FilterRules (the (kc_Authz test_config)) rules)\<rparr>"

lemma test_kube_authz_made: "NewKubernetesAuthz test_kube_api (Some test_config) = Inr test_kube_authz"
  by (simp add: NewKubernetesAuthz_def BuildRestConfig_def initRestConfig_def NewRulesFetcher_def
      NewNamespaceChecker_def test_kube_api_def test_config_def test_rest_config_def test_kube_authz_def second_def)

lemma test_push_granted:
  "\<exists>w'. kube_Authorize exact_glob test_kube_authz test_push (kube_start 0) = (Inr (Some [''push'']), w')"
proof -
  have "SplitNamespaceAndPath ''team/app'' = (''team'', ''app'')" by (simp add: SplitNamespaceAndPath_split)
  then show ?thesis
    by (simp add: kube_Authorize_def test_kube_authz_def cached_authz_def test_push_def test_config_def test_kube_api_def
        user_info_is_valid_def NeedsNamespaceCheck_def on_namespaces_def on_rules_def cached_Exists_def ns_Exists_def
        kube_start_def cache_get_def cache_trim_def cached_GetRules_def ComputeHash_eq GetRules_def minute_def second_def buildClient_def
        fetch_attempt_def recordMetrics_def FilterRules_eq rule_selected_def equal_fold_def allowed_actions_eq
        GetK8sVerb_def verbsMap_def IsActionAllowed_def matchRule_def test_rest_config_def)
qed

lemma kubernetes_grants_traced_witness:
  "\<exists>w'. kube_Authorize exact_glob test_kube_authz test_push (kube_start 0) = (Inr (Some [''push'']), w') \<and>
     (\<exists>az rules ns path k x x'. kc_Authz test_config = Some az \<and> ''team/app'' = ns @ CHR ''/'' # path \<and>
        ra_backoff (kb_rules test_kube_api) (fetch_attempt (kb_rules test_kube_api) k ''abc'' ns) x = (Inr rules, x') \<and>
        IsActionAllowed exact_glob (FilterRules az rules) ''create'' path)"
proof -
  obtain w' where run: "kube_Authorize exact_glob test_kube_authz test_push (kube_start 0) = (Inr (Some [''push'']), w')"
    using test_push_granted by blast
  have "interrupted (\<lambda>w. w) test_kube_authz = test_kube_authz"
    by (simp add: interrupted_def case_prod_beta')
  then have run': "kube_Authorize exact_glob (interrupted (\<lambda>w. w) test_kube_authz) test_push (kube_start 0) =
      (Inr (Some [''push'']), w')"
    using run by simp
  have others: "others_between test_kube_authz {} (\<lambda>w. w)" by (simp add: others_between_def)
  have "''push'' \<in> set (slice_items (Some [''push'']))" by (simp add: slice_items_def)
  from kubernetes_grants_traced [OF test_kube_authz_made run' this kube_reach.started others]
  obtain u ns path az rc verb u' ns' client x1 rules0 x2 k where g: "ai_AuthenticatorData test_push = AnyUserInfo u"
    "ai_Name test_push = ns @ CHR ''/'' # path" "kc_Authz test_config = Some az"
    "(u', ns') \<in> insert (u, ns) ({} \<union> {})"
    "ra_new_client (kb_rules test_kube_api) (rc\<lparr>rc_BearerToken := ui_BearerToken u', rc_BearerTokenFile := []\<rparr>) = Inr client"
    "ra_backoff (kb_rules test_kube_api) (fetch_attempt (kb_rules test_kube_api) k client ns') x1 = (Inr rules0, x2)"
    "GetK8sVerb ''push'' = Some verb" "IsActionAllowed exact_glob (FilterRules az rules0) verb path"
    by (elim exE conjE)
  have "u' = u" "ns' = ns" "ui_BearerToken u = ''abc''" using g(1,4) by (auto simp: test_push_def)
  then have "client = ''abc''" using g(5) by (simp add: test_kube_api_def)
  moreover have "verb = ''create''" using g(7) by (simp add: GetK8sVerb_def verbsMap_def)
  moreover have "''team/app'' = ns @ CHR ''/'' # path" using g(2) by (simp add: test_push_def)
  ultimately show ?thesis using run g(3,6,8) \<open>ns' = ns\<close> by blast
qed

section \<open>The specification without caches\<close>

text \<open>
  What the authorizer promises, without caches, clock and outside state: the API is two
  functions, of a namespace and of a user in a namespace.
\<close>

definition oracle_authz ::
  "'q auth_config \<Rightarrow> (string \<Rightarrow> bool go) \<Rightarrow> (user_info \<Rightarrow> string \<Rightarrow> rules go) \<Rightarrow> ('q, unit) kubernetes_authz" where
  "oracle_authz config exists rules_of =
     \<lparr>ka_cfg = config, ka_namespaceChecker = (\<lambda>ns w. (if ns = [] then Inr False else exists ns, w)),
      ka_rulesFetcher = (\<lambda>u ns w. (rules_of u ns, w))\<rparr>"

definition kube_decision ::
  "glob_fn \<Rightarrow> 'q auth_config \<Rightarrow> (string \<Rightarrow> bool go) \<Rightarrow> (user_info \<Rightarrow> string \<Rightarrow> rules go) \<Rightarrow>
   auth_request_info \<Rightarrow> string list option go" where
  "kube_decision glob config exists rules_of ai = fst (kube_Authorize glob (oracle_authz config exists rules_of) ai ())"

locale kubernetes_refinement =
  fixes ka :: "('q, 'w) kubernetes_authz" and ok :: "'w \<Rightarrow> bool"
    and exists :: "string \<Rightarrow> bool go" and rules_of :: "user_info \<Rightarrow> string \<Rightarrow> rules go"
  assumes checker_exact: "ok w \<Longrightarrow> ka_namespaceChecker ka ns w = (r, w') \<Longrightarrow>
      ok w' \<and> r = (if ns = [] then Inr False else exists ns)"
    and fetcher_exact: "ok w \<Longrightarrow> user_info_is_valid u \<Longrightarrow> ka_rulesFetcher ka u ns w = (q, w') \<Longrightarrow>
      ok w' \<and> q = rules_of u ns"
begin

lemma authorize_refines:
  assumes "ok w"
  shows "fst (kube_Authorize glob ka ai w) = kube_decision glob (ka_cfg ka) exists rules_of ai \<and>
    ok (snd (kube_Authorize glob ka ai w))"
proof -
  obtain ns path where split: "SplitNamespaceAndPath (ai_Name ai) = (ns, path)" by fastforce
  obtain n w1 where n: "ka_namespaceChecker ka ns w = (n, w1)" by fastforce
  note check = checker_exact [OF assms n]
  have fetch: "\<exists>v'. ka_rulesFetcher ka u ns v = (rules_of u ns, v') \<and> ok v'"
    if "ok v" "user_info_is_valid u" for u v
    using fetcher_exact [OF that, of ns] by (metis surj_pair)
  show ?thesis
  proof (cases "ai_AuthenticatorData ai")
    case (AnyUserInfo u)
    show ?thesis
    proof (cases "user_info_is_valid u")
      case True
      obtain v0 v1 where f: "ka_rulesFetcher ka u ns w = (rules_of u ns, v0)" "ok v0"
        "ka_rulesFetcher ka u ns w1 = (rules_of u ns, v1)" "ok v1"
        using fetch [OF assms True] fetch [OF conjunct1 [OF check] True] by blast
      show ?thesis
        using check f assms n split
        by (cases "ns = []"; cases "kc_Authz (ka_cfg ka)"; cases "rules_of u ns"; cases "exists ns")
          (auto simp: kube_Authorize_def kube_decision_def oracle_authz_def AnyUserInfo Let_def)
    qed (simp add: kube_Authorize_def kube_decision_def oracle_authz_def AnyUserInfo assms)
  qed (simp_all add: kube_Authorize_def kube_decision_def oracle_authz_def assms)
qed

lemma run_refines:
  assumes "\<And>p w. ok w \<Longrightarrow> ok (step p w)"
  shows "ok w \<Longrightarrow> fst (call_all (\<lambda>(ai, p) w. kube_Authorize glob ka ai (step p w)) ais w) =
    map (\<lambda>(ai, p). kube_decision glob (ka_cfg ka) exists rules_of ai) ais"
proof (induction ais arbitrary: w)
  case (Cons q ais)
  obtain ai p where q: "q = (ai, p)" by (cases q)
  obtain r w1 where e: "kube_Authorize glob ka ai (step p w) = (r, w1)" by fastforce
  have "r = kube_decision glob (ka_cfg ka) exists rules_of ai \<and> ok w1"
    using authorize_refines [OF assms [OF Cons.prems], of glob ai p] e by simp
  then show ?case using Cons.IH [of w1] by (simp add: q e case_prod_unfold)
qed simp

end

text \<open>
  As long as the API does not change its answers the two caches hold nothing else. Entries of
  the rules are answers to complete users.
\<close>

definition rules_held :: "(user_info \<Rightarrow> string \<Rightarrow> rules go) \<Rightarrow> (string, go_error + rules) cache \<Rightarrow> bool" where
  "rules_held rules_of = rules_from (\<lambda>u ns r. user_info_is_valid u \<and> r = rules_of u ns)"

definition stable_caches ::
  "(string \<Rightarrow> bool go) \<Rightarrow> (user_info \<Rightarrow> string \<Rightarrow> rules go) \<Rightarrow> 'x kube_state \<Rightarrow> bool" where
  "stable_caches exists rules_of s =
     (ns_cache_ok (\<lambda>_. True) (\<lambda>ns r. r = exists ns) (ks_namespaces s, ks_world s) \<and> rules_held rules_of (ks_rules s))"

lemma stable_ns_checker:
  "(\<And>ns x. ns \<noteq> [] \<Longrightarrow> fst (ns_Exists get nf ns x) = exists ns) \<Longrightarrow>
   ns_checker (ns_Exists get nf) (\<lambda>_. True) (\<lambda>ns r. r = exists ns)"
  by unfold_locales (simp, metis fst_conv, simp add: ns_Exists_def)

lemma cached_GetRules_stable:
  assumes inner: "\<And>u ns x. user_info_is_valid u \<Longrightarrow> fst (inner u ns x) = rules_of u ns"
    and same: "\<And>u ns u' ns'. user_info_is_valid u \<Longrightarrow> user_info_is_valid u' \<Longrightarrow>
      rules_key u ns = rules_key u' ns' \<Longrightarrow> rules_of u ns = rules_of u' ns'"
    and cache: "rules_held rules_of c" and u: "user_info_is_valid u"
    and run: "cached_GetRules keep now sTTL fTTL inner u ns (c, x) = (r, (c', x'))"
  shows "rules_held rules_of c' \<and> r = rules_of u ns"
proof -
  have named: "\<not> (ui_Name u = [] \<and> ui_UID u = [])" using u by (simp add: user_info_is_valid_def)
  from cached_GetRules_from [OF cache [unfolded rules_held_def] conjI [OF u inner [OF u]] run] named
  obtain u' ns' where "rules_key u' ns' = rules_key u ns" "user_info_is_valid u'" "r = rules_of u' ns'" by blast
  then have "r = rules_of u ns" using same u by metis
  then show ?thesis
    using cached_GetRules_from [OF cache [unfolded rules_held_def] conjI [OF u inner [OF u]] run]
    unfolding rules_held_def by blast
qed

text \<open>
  The API is stable: its answers do not change, and depend on the user only through what the key
  of the cache is made of.
\<close>

definition api_stable ::
  "('q, 'r, 'cl, 'x) kube_api \<Rightarrow> 'cl namespace_checker \<Rightarrow> ('q, 'r) rules_fetcher \<Rightarrow>
   (string \<Rightarrow> bool go) \<Rightarrow> (user_info \<Rightarrow> string \<Rightarrow> rules go) \<Rightarrow> bool" where
  "api_stable api checker fetcher exists rules_of =
     ((\<forall>ns x. ns \<noteq> [] \<longrightarrow>
         fst (ns_Exists (kb_get api (nc_client checker)) (kb_is_not_found api) ns x) = exists ns) \<and>
      (\<forall>u ns x. user_info_is_valid u \<longrightarrow> fst (GetRules (kb_rules api) fetcher u ns x) = rules_of u ns) \<and>
      (\<forall>u ns u' ns'. user_info_is_valid u \<and> user_info_is_valid u' \<and> rules_key u ns = rules_key u' ns' \<longrightarrow>
         rules_of u ns = rules_of u' ns'))"

interpretation kube_stable: kubernetes_refinement "cached_authz api config checker fetcher"
  "\<lambda>s. api_stable api checker fetcher exists rules_of \<and> stable_caches exists rules_of s" exists rules_of
  for api config checker fetcher exists rules_of
proof
  fix w n r w'
  let ?ok = "\<lambda>w. api_stable api checker fetcher exists rules_of \<and> stable_caches exists rules_of w"
  assume w: "?ok w" and run: "ka_namespaceChecker (cached_authz api config checker fetcher) n w = (r, w')"
  obtain q c x where q: "cached_Exists (kb_keep_ns api) (kb_now api) (kc_SuccessTTL config) (kc_FailureTTL config)
      (ns_Exists (kb_get api (nc_client checker)) (kb_is_not_found api)) n (ks_namespaces w, ks_world w) = (q, (c, x))"
    by (metis surj_pair)
  have "ns_checker (ns_Exists (kb_get api (nc_client checker)) (kb_is_not_found api)) (\<lambda>_. True) (\<lambda>ns r. r = exists ns)"
    using w unfolding api_stable_def by (intro stable_ns_checker) blast
  from cached_checker.cached_step [OF cached_checker.intro [OF this] _ q]
  have "ns_cache_ok (\<lambda>_. True) (\<lambda>ns r. r = exists ns) (c, x) \<and> (n \<noteq> [] \<longrightarrow> q = exists n)"
    using w by (simp add: stable_caches_def)
  moreover have "r = q" "w' = w\<lparr>ks_namespaces := c, ks_world := x\<rparr>"
    using run q by (simp_all add: cached_authz_def on_namespaces_def)
  moreover have "n = [] \<longrightarrow> q = Inr False" using q by (auto simp: cached_Exists_def)
  ultimately show "?ok w' \<and> r = (if n = [] then Inr False else exists n)"
    using w by (simp add: stable_caches_def)
next
  fix w u n r w'
  let ?ok = "\<lambda>w. api_stable api checker fetcher exists rules_of \<and> stable_caches exists rules_of w"
  assume w: "?ok w" and u: "user_info_is_valid u"
    and run: "ka_rulesFetcher (cached_authz api config checker fetcher) u n w = (r, w')"
  obtain q c x where q: "cached_GetRules (kb_keep_rules api) (kb_now api) (kc_SuccessTTL config) (kc_FailureTTL config)
      (GetRules (kb_rules api) fetcher) u n (ks_rules w, ks_world w) = (q, (c, x))"
    by (metis surj_pair)
  have "rules_held rules_of c \<and> q = rules_of u n"
  proof (rule cached_GetRules_stable [OF _ _ _ u q])
    show "\<And>u ns x. user_info_is_valid u \<Longrightarrow> fst (GetRules (kb_rules api) fetcher u ns x) = rules_of u ns"
      using w unfolding api_stable_def by blast
    show "\<And>u ns u' ns'. user_info_is_valid u \<Longrightarrow> user_info_is_valid u' \<Longrightarrow>
        rules_key u ns = rules_key u' ns' \<Longrightarrow> rules_of u ns = rules_of u' ns'"
      using w unfolding api_stable_def by blast
    show "rules_held rules_of (ks_rules w)" using w by (simp add: stable_caches_def)
  qed
  moreover have "r = q" "w' = w\<lparr>ks_rules := c, ks_world := x\<rparr>"
    using run q by (simp_all add: cached_authz_def on_rules_def)
  ultimately show "?ok w' \<and> r = rules_of u n"
    using w by (simp add: stable_caches_def ns_cache_ok_def)
qed

text \<open>
  C6. As long as the API's answers do not change, and depend on the user only through name and id
  (up to collisions of SHA-256), the caches with their lifetimes and evictions, and the passing of
  time between requests, make no difference: every request, in any sequence, gets the decision of
  the specification without caches.
\<close>

theorem kubernetes_caches_transparent:
  assumes "api_stable api checker fetcher exists rules_of"
  shows "fst (call_all (\<lambda>(ai, p) s. kube_Authorize glob (cached_authz api config checker fetcher) ai
        (s\<lparr>ks_world := p (ks_world s)\<rparr>)) requests (kube_start x)) =
    map (\<lambda>(ai, p). kube_decision glob config exists rules_of ai) requests"
proof -
  have "ka_cfg (cached_authz api config checker fetcher) = config" by (simp add: cached_authz_def)
  with kube_stable.run_refines [where step = "\<lambda>p s. s\<lparr>ks_world := p (ks_world s)\<rparr>", of api checker fetcher exists rules_of]
  show ?thesis using assms
    by (simp add: stable_caches_def kube_start_def ns_cache_ok_def rules_held_def rules_from_def)
qed

lemma test_api_stable:
  "api_stable test_kube_api \<lparr>nc_requestTimeout = second, nc_client = ''sa-token''\<rparr>
     \<lparr>rf_requestTimeout = second, rf_restConfig = test_rest_config, rf_metrics = True,
      rf_rulesFilter = Some (\<lambda>rules. FilterRules (the (kc_Authz test_config)) rules)\<rparr> (\<lambda>_. Inr True)
     (\<lambda>u ns. Inr [\<lparr>rr_Verbs = [''create''], rr_APIGroups = [''*''], rr_Resources = [''registries''],
        rr_ResourceNames = []\<rparr>])"
  by (simp add: api_stable_def ns_Exists_def GetRules_def buildClient_def user_info_is_valid_def test_kube_api_def
      fetch_attempt_def FilterRules_eq rule_selected_def equal_fold_def test_config_def)

lemma kubernetes_caches_transparent_witness:
  "fst (call_all (\<lambda>(ai, p) s. kube_Authorize exact_glob test_kube_authz ai (s\<lparr>ks_world := p (ks_world s)\<rparr>))
     [(test_push, id), (test_push, \<lambda>x. x + 30)] (kube_start 0)) = [Inr (Some [''push'']), Inr (Some [''push''])]"
proof -
  let ?rules = "\<lambda>u ns. Inr [\<lparr>rr_Verbs = [''create''], rr_APIGroups = [''*''], rr_Resources = [''registries''],
      rr_ResourceNames = []\<rparr>] :: rules go"
  note transparent = kubernetes_caches_transparent [OF test_api_stable, where config = test_config and glob = exact_glob and x = 0,
      of "[(test_push, id), (test_push, \<lambda>x. x + 30)]", folded test_kube_authz_def]
  have "SplitNamespaceAndPath ''team/app'' = (''team'', ''app'')" by (simp add: SplitNamespaceAndPath_split)
  then have decision: "kube_decision exact_glob test_config (\<lambda>_. Inr True) ?rules test_push = Inr (Some [''push''])"
    by (simp add: kube_decision_def oracle_authz_def kube_Authorize_def test_push_def test_config_def
        user_info_is_valid_def NeedsNamespaceCheck_def allowed_actions_eq
        GetK8sVerb_def verbsMap_def IsActionAllowed_def matchRule_def exact_glob_def)
  show ?thesis unfolding transparent by (simp add: decision)
qed

end
