(* ===== verification/Server_Config.thy ===== *)
theory Server_Config
  imports Server_Types Authz_ACL Authn_Static K8s_Config K8s_Hash
begin

text \<open>
  \<^verbatim>\<open>server/config.go\<close>: the configuration file, its validation, the loading of certificates and keys,
  and the key identifier.

  The file system, the YAML decoder, X.509, \<^verbatim>\<open>libtrust\<close>, the plugin loader and the rules of
  \<^verbatim>\<open>ozzo-validation\<close> are arguments, collected in records.
\<close>

section \<open>The configuration\<close>

record ('pub, 'prv, 'q) config =
  cf_Server :: "('pub, 'prv) server_config"
  cf_Token :: "('pub, 'prv) token_config"
  cf_Users :: "static_users option"
  cf_KubernetesAuth :: "'q auth_config option"
  cf_PluginAuthn :: "plugin_config option"
  cf_ACL :: "acl option"
  cf_PluginAuthz :: "plugin_config option"

type_synonym u16 = "16 word"

definition TLSCipherSuitesValues :: "(string \<times> u16) list" where
  "TLSCipherSuitesValues =
    [(''TLS_RSA_WITH_RC4_128_SHA'', 0x0005),
     (''TLS_RSA_WITH_3DES_EDE_CBC_SHA'', 0x000A),
     (''TLS_RSA_WITH_AES_128_CBC_SHA'', 0x002F),
     (''TLS_RSA_WITH_AES_256_CBC_SHA'', 0x0035),
     (''TLS_RSA_WITH_AES_128_CBC_SHA256'', 0x003C),
     (''TLS_RSA_WITH_AES_128_GCM_SHA256'', 0x009C),
     (''TLS_RSA_WITH_AES_256_GCM_SHA384'', 0x009D),
     (''TLS_ECDHE_ECDSA_WITH_RC4_128_SHA'', 0xC007),
     (''TLS_ECDHE_ECDSA_WITH_AES_128_CBC_SHA'', 0xC009),
     (''TLS_ECDHE_ECDSA_WITH_AES_256_CBC_SHA'', 0xC00A),
     (''TLS_ECDHE_RSA_WITH_RC4_128_SHA'', 0xC011),
     (''TLS_ECDHE_RSA_WITH_3DES_EDE_CBC_SHA'', 0xC012),
     (''TLS_ECDHE_RSA_WITH_AES_128_CBC_SHA'', 0xC013),
     (''TLS_ECDHE_RSA_WITH_AES_256_CBC_SHA'', 0xC014),
     (''TLS_ECDHE_ECDSA_WITH_AES_128_CBC_SHA256'', 0xC023),
     (''TLS_ECDHE_RSA_WITH_AES_128_CBC_SHA256'', 0xC027),
     (''TLS_ECDHE_RSA_WITH_AES_128_GCM_SHA256'', 0xC02F),
     (''TLS_ECDHE_ECDSA_WITH_AES_128_GCM_SHA256'', 0xC02B),
     (''TLS_ECDHE_RSA_WITH_AES_256_GCM_SHA384'', 0xC030),
     (''TLS_ECDHE_ECDSA_WITH_AES_256_GCM_SHA384'', 0xC02C),
     (''TLS_ECDHE_RSA_WITH_CHACHA20_POLY1305'', 0xCCA8),
     (''TLS_ECDHE_ECDSA_WITH_CHACHA20_POLY1305'', 0xCCA9),
     (''TLS_AES_128_GCM_SHA256'', 0x1301),
     (''TLS_AES_256_GCM_SHA384'', 0x1302),
     (''TLS_CHACHA20_POLY1305_SHA256'', 0x1303),
     (''TLS_FALLBACK_SCSV'', 0x5600)]"

definition TLSVersionValues :: "(string \<times> u16) list" where
  "TLSVersionValues = [(''TLS10'', 0x0301), (''TLS11'', 0x0302), (''TLS12'', 0x0303), (''TLS13'', 0x0304)]"

definition TLSCurveIDValues :: "(string \<times> u16) list" where
  "TLSCurveIDValues = [(''P256'', 23), (''P384'', 24), (''P521'', 25), (''X25519'', 29)]"

section \<open>Validation\<close>

record ('fa, 'fz) validators =
  vl_required :: "string \<Rightarrow> go_error option"
  vl_authn :: "'fa plugin_loader"
  vl_authz :: "'fz plugin_loader"

definition fails :: "string \<Rightarrow> 'a go" where
  "fails msg = Inl (Err (Errorf msg []))"

text \<open>The section \<^verbatim>\<open>server\<close>; the network defaults to TCP.\<close>

definition validate_server :: "('pub, 'prv) server_config \<Rightarrow> ('pub, 'prv) server_config go" where
  "validate_server s =
     (if sc_ListenAddress s = [] then fails ''server.addr is required''
      else if sc_Net s \<noteq> ''unix'' \<and> sc_Net s \<noteq> ''tcp'' \<and> sc_Net s \<noteq> []
      then fails ''server.net must be unix or tcp''
      else let s' = (if sc_Net s = [] then s\<lparr>sc_Net := ''tcp''\<rparr> else s) in
        if sc_PathPrefix s' \<noteq> [] \<and> \<not> prefix ''/'' (sc_PathPrefix s')
        then fails ''server.path_prefix must be an absolute path''
        else if (sc_TLSMinVersion s' = ''0x0304'' \<or> sc_TLSMinVersion s' = ''TLS13'') \<and> sc_TLSCipherSuites s' \<noteq> None
        then fails ''TLS 1.3 ciphersuites are not configurable''
        else Inr s')"

definition validate_token :: "('pub, 'prv) token_config \<Rightarrow> unit go" where
  "validate_token t =
     (if tc_Issuer t = [] then fails ''token.issuer is required''
      else if sint (tc_Expiration t) \<le> 0 then fails ''expiration must be positive''
      else Inr ())"

text \<open>The Kubernetes section gets its defaults before it is checked.\<close>

definition validate_kubernetes ::
  "(string \<Rightarrow> go_error option) \<Rightarrow> 'q auth_config option \<Rightarrow> 'q auth_config option go" where
  "validate_kubernetes required pk =
     (case ApplyDefaults pk of
        None \<Rightarrow> Inr None
      | Some k \<Rightarrow>
          (case auth_Validate required k ''kubernetes_auth'' of
             Some err \<Rightarrow> Inl (Err err)
           | None \<Rightarrow> Inr (Some k)))"

definition has_kubernetes_authz :: "'q auth_config option \<Rightarrow> bool" where
  "has_kubernetes_authz pk = (case pk of None \<Rightarrow> False | Some k \<Rightarrow> kc_Authz k \<noteq> None)"

definition validate_plugin :: "string \<Rightarrow> (plugin_config \<Rightarrow> go_error option) \<Rightarrow> plugin_config option \<Rightarrow> unit go" where
  "validate_plugin msg check pp =
     (case pp of
        None \<Rightarrow> Inr ()
      | Some p \<Rightarrow> (case check p of Some err \<Rightarrow> fails msg | None \<Rightarrow> Inr ()))"

definition validate_acl :: "acl option \<Rightarrow> unit go" where
  "validate_acl pa =
     (case pa of
        None \<Rightarrow> Inr ()
      | Some acl \<Rightarrow>
          (case ValidateACL acl of
             Inl p \<Rightarrow> Inl p
           | Inr (Some err) \<Rightarrow> fails ''invalid ACL''
           | Inr None \<Rightarrow> Inr ()))"

text \<open>The result is the configuration with the defaults filled in.\<close>

definition validate ::
  "('fa, 'fz) validators \<Rightarrow> ('pub, 'prv, 'q) config \<Rightarrow> ('pub, 'prv, 'q) config go" where
  "validate vl c =
     go_then (validate_server (cf_Server c)) (\<lambda>srv.
     go_then (validate_token (cf_Token c)) (\<lambda>_.
     if cf_Users c = None \<and> cf_PluginAuthn c = None \<and> cf_KubernetesAuth c = None
     then fails ''no auth methods are configured, this is probably a mistake. Use an empty user map if you really want to deny everyone''
     else go_then (validate_kubernetes (vl_required vl) (cf_KubernetesAuth c)) (\<lambda>kube.
     if cf_ACL c = None \<and> cf_PluginAuthz c = None \<and> \<not> has_kubernetes_authz kube
     then fails ''ACL is empty, this is probably a mistake. Use an empty list if you really want to deny all actions''
     else go_then (validate_acl (cf_ACL c)) (\<lambda>_.
     go_then (validate_plugin ''bad plugin_authn config'' (plugin_authn_Validate (vl_authn vl)) (cf_PluginAuthn c)) (\<lambda>_.
     go_then (validate_plugin ''bad plugin_authz config'' (plugin_authz_Validate (vl_authz vl)) (cf_PluginAuthz c)) (\<lambda>_.
     Inr (c\<lparr>cf_Server := srv, cf_KubernetesAuth := kube\<rparr>)))))))"

section \<open>Keys\<close>

text \<open>
  The public keys that the thumbprint tells apart: an RSA key by modulus and exponent, an elliptic
  curve key by the curve, which has a name and a base point, and the point of the key.
\<close>

record ec_curve =
  ec_Name :: string
  ec_Gx :: nat
  ec_Gy :: nat

datatype public_key = RSAKey (rsa_N: nat) (rsa_E: nat) | ECKey ec_curve nat nat | OtherKey

text \<open>\<^verbatim>\<open>big.Int.Bytes\<close>: big-endian, without leading zeros.\<close>

fun big_bytes :: "nat \<Rightarrow> string" where
  "big_bytes n = (if n = 0 then [] else big_bytes (n div 256) @ [char_of (n mod 256)])"

declare big_bytes.simps [simp del]

definition raw_url :: "string \<Rightarrow> string" where
  "raw_url = raw_encode URLEncoding"

definition quoted_field :: "string \<Rightarrow> string \<Rightarrow> string" where
  "quoted_field k v = CHR 0x22 # k @ CHR 0x22 # CHR '':'' # CHR 0x22 # v @ [CHR 0x22]"

definition thumbprint_payload :: "public_key \<Rightarrow> string option" where
  "thumbprint_payload pubkey =
     (case pubkey of
        RSAKey n e \<Rightarrow>
          Some (''{'' @ quoted_field ''e'' (raw_url (big_bytes e)) @ '','' @ quoted_field ''kty'' ''RSA'' @ '','' @
                quoted_field ''n'' (raw_url (big_bytes n)) @ ''}'')
      | ECKey params _ _ \<Rightarrow>
          Some (''{'' @ quoted_field ''crv'' (ec_Name params) @ '','' @ quoted_field ''kty'' ''EC'' @ '','' @
                quoted_field ''x'' (raw_url (big_bytes (ec_Gx params))) @ '','' @
                quoted_field ''y'' (raw_url (big_bytes (ec_Gy params))) @ ''}'')
      | OtherKey \<Rightarrow> None)"

definition getRFC7638Thumbprint :: "public_key \<Rightarrow> string" where
  "getRFC7638Thumbprint pubkey =
     (case thumbprint_payload pubkey of
        None \<Rightarrow> []
      | Some payload \<Rightarrow> raw_url (map char_of (sha256 payload)))"

text \<open>
  The packages behind a key pair: loading the files, the public key of the certificate, the
  conversions of \<^verbatim>\<open>libtrust\<close>, the algorithm of a signature, and the key's own identifier.
\<close>

record ('cert, 'pub, 'prv) key_tools =
  kt_load :: "string \<Rightarrow> string \<Rightarrow> go_error + 'cert"
  kt_parse :: "'cert \<Rightarrow> go_error + public_key"
  kt_public :: "public_key \<Rightarrow> go_error + 'pub"
  kt_private :: "'cert \<Rightarrow> go_error + 'prv"
  kt_sign :: "'prv \<Rightarrow> string \<Rightarrow> go_error + string"
  kt_crypto :: "'pub \<Rightarrow> public_key"
  kt_KeyID :: "'pub \<Rightarrow> string"

text \<open>
  The error of the private key is not looked at: without a key the call of its method \<^verbatim>\<open>Sign\<close>
  panics.
\<close>

definition loadCertAndKey ::
  "('cert, 'pub, 'prv) key_tools \<Rightarrow> string \<Rightarrow> string \<Rightarrow> ('pub \<times> 'prv \<times> string) go" where
  "loadCertAndKey kt certFile keyFile =
     (case kt_load kt certFile keyFile of
        Inl err \<Rightarrow> Inl (Err err)
      | Inr cert \<Rightarrow>
          (case kt_parse kt cert of
             Inl err \<Rightarrow> Inl (Err err)
           | Inr x509Cert \<Rightarrow>
               (case kt_public kt x509Cert of
                  Inl err \<Rightarrow> Inl (Err err)
                | Inr pk \<Rightarrow>
                    (case kt_private kt cert of
                       Inl err \<Rightarrow> Inl (Panic nil_deref)
                     | Inr prk \<Rightarrow>
                         (case kt_sign kt prk ''dummy'' of
                            Inl errStr \<Rightarrow> Inl (Err (Errorf ''failed to sign'' []))
                          | Inr sigAlg \<Rightarrow> Inr (pk, prk, sigAlg))))))"

text \<open>A pair of files: none, both, or a partial configuration.\<close>

definition load_pair ::
  "('cert, 'pub, 'prv) key_tools \<Rightarrow> string \<Rightarrow> string \<Rightarrow> string \<Rightarrow> ('pub \<times> 'prv \<times> string) option go" where
  "load_pair kt what certFile keyFile =
     (if certFile \<noteq> [] \<or> keyFile \<noteq> [] then
        (if certFile = [] \<or> keyFile = []
         then fails (''failed to load '' @ what @ '' cert and key: both were not provided'')
         else case loadCertAndKey kt certFile keyFile of
             Inl (Err err) \<Rightarrow> fails (''failed to load '' @ what @ '' cert and key'')
           | Inl (Panic m) \<Rightarrow> Inl (Panic m)
           | Inr keys \<Rightarrow> Inr (Some keys))
      else Inr None)"

section \<open>Loading\<close>

record ('pub, 'prv, 'q) config_source =
  cs_ReadFile :: "string \<Rightarrow> go_error + string"
  cs_Unmarshal :: "string \<Rightarrow> go_error + ('pub, 'prv, 'q) config"

definition set_server_keys ::
  "('pub \<times> 'prv \<times> string) option \<Rightarrow> ('pub, 'prv) server_config \<Rightarrow> ('pub, 'prv) server_config" where
  "set_server_keys keys s =
     (case keys of
        None \<Rightarrow> s
      | Some (pk, prk, alg) \<Rightarrow> s\<lparr>sc_publicKey := Some pk, sc_privateKey := Some prk, sc_sigAlg := alg\<rparr>)"

definition set_token_keys ::
  "('cert, 'pub, 'prv) key_tools \<Rightarrow> 'pub \<times> 'prv \<times> string \<Rightarrow> ('pub, 'prv) token_config \<Rightarrow> ('pub, 'prv) token_config" where
  "set_token_keys kt keys t =
     (let (pk, prk, alg) = keys;
          t' = t\<lparr>tc_publicKey := Some pk, tc_privateKey := Some prk, tc_sigAlg := alg\<rparr>
      in t'\<lparr>tc_keyID := (if tc_DisableLegacyKeyID t' then getRFC7638Thumbprint (kt_crypto kt pk) else kt_KeyID kt pk)\<rparr>)"

definition LoadConfig ::
  "('pub, 'prv, 'q) config_source \<Rightarrow> ('fa, 'fz) validators \<Rightarrow> ('cert, 'pub, 'prv) key_tools \<Rightarrow> string \<Rightarrow>
   ('pub, 'prv, 'q) config go" where
  "LoadConfig src vl kt fileName =
     (case cs_ReadFile src fileName of
        Inl err \<Rightarrow> fails ''could not read''
      | Inr contents \<Rightarrow>
          (case cs_Unmarshal src contents of
             Inl err \<Rightarrow> fails ''could not parse config''
           | Inr c0 \<Rightarrow>
               (case validate vl c0 of
                  Inl (Err err) \<Rightarrow> fails ''invalid config''
                | Inl (Panic m) \<Rightarrow> Inl (Panic m)
                | Inr c \<Rightarrow>
                    go_then (load_pair kt ''server'' (sc_CertFile (cf_Server c)) (sc_KeyFile (cf_Server c))) (\<lambda>serverKeys.
                    go_then (load_pair kt ''token'' (tc_CertFile (cf_Token c)) (tc_KeyFile (cf_Token c))) (\<lambda>tokenKeys.
                    case (if tokenKeys = None then serverKeys else tokenKeys) of
                      None \<Rightarrow> fails ''failed to load token cert and key: none provided''
                    | Some keys \<Rightarrow>
                        Inr (c\<lparr>cf_Server := set_server_keys serverKeys (cf_Server c),
                               cf_Token := set_token_keys kt keys (cf_Token c)\<rparr>))))))"

section \<open>Laws of validation\<close>

lemma fails_Inr [simp]: "fails msg \<noteq> Inr x" "fails msg \<noteq> Inl (Panic m)"
  by (simp_all add: fails_def)

lemma validate_server_Inr:
  "validate_server s = Inr s' \<longleftrightarrow>
     sc_ListenAddress s \<noteq> [] \<and> sc_Net s \<in> {''unix'', ''tcp'', []} \<and>
     (sc_PathPrefix s = [] \<or> prefix ''/'' (sc_PathPrefix s)) \<and>
     (sc_TLSMinVersion s \<in> {''0x0304'', ''TLS13''} \<longrightarrow> sc_TLSCipherSuites s = None) \<and>
     s' = s\<lparr>sc_Net := if sc_Net s = [] then ''tcp'' else sc_Net s\<rparr>"
  by (auto simp: validate_server_def Let_def)

lemma validate_token_Inr:
  "validate_token t = Inr u \<longleftrightarrow> tc_Issuer t \<noteq> [] \<and> 0 < sint (tc_Expiration t)"
  by (auto simp: validate_token_def)

lemma validate_plugin_Inr:
  "validate_plugin msg check pp = Inr u \<longleftrightarrow> (\<forall>p. pp = Some p \<longrightarrow> check p = None)"
  by (auto simp: validate_plugin_def split: option.splits)

lemma validate_acl_Inr: "validate_acl pa = Inr u \<longleftrightarrow> (\<forall>acl. pa = Some acl \<longrightarrow> ValidateACL acl = Inr None)"
  by (auto simp: validate_acl_def split: option.splits sum.splits)

lemma validate_kubernetes_Inr:
  "validate_kubernetes required pk = Inr pk' \<longleftrightarrow>
     pk' = ApplyDefaults pk \<and> (\<forall>k. pk' = Some k \<longrightarrow> auth_Validate required k ''kubernetes_auth'' = None)"
  by (auto simp: validate_kubernetes_def split: option.splits)

lemmas validate_parts = validate_server_Inr validate_token_Inr validate_plugin_Inr validate_acl_Inr
  validate_kubernetes_Inr

text \<open>What a configuration promises once it was validated.\<close>

definition valid_config :: "('fa, 'fz) validators \<Rightarrow> ('pub, 'prv, 'q) config \<Rightarrow> bool" where
  "valid_config vl c =
     (sc_ListenAddress (cf_Server c) \<noteq> [] \<and> sc_Net (cf_Server c) \<in> {''unix'', ''tcp''} \<and>
      (sc_PathPrefix (cf_Server c) = [] \<or> prefix ''/'' (sc_PathPrefix (cf_Server c))) \<and>
      (sc_TLSMinVersion (cf_Server c) \<in> {''0x0304'', ''TLS13''} \<longrightarrow> sc_TLSCipherSuites (cf_Server c) = None) \<and>
      tc_Issuer (cf_Token c) \<noteq> [] \<and> 0 < sint (tc_Expiration (cf_Token c)) \<and>
      \<not> (cf_Users c = None \<and> cf_PluginAuthn c = None \<and> cf_KubernetesAuth c = None) \<and>
      \<not> (cf_ACL c = None \<and> cf_PluginAuthz c = None \<and> \<not> has_kubernetes_authz (cf_KubernetesAuth c)) \<and>
      (\<forall>acl. cf_ACL c = Some acl \<longrightarrow> ValidateACL acl = Inr None) \<and>
      (\<forall>p. cf_PluginAuthn c = Some p \<longrightarrow> plugin_authn_Validate (vl_authn vl) p = None) \<and>
      (\<forall>p. cf_PluginAuthz c = Some p \<longrightarrow> plugin_authz_Validate (vl_authz vl) p = None) \<and>
      (\<forall>k. cf_KubernetesAuth c = Some k \<longrightarrow>
         kc_UserName k \<noteq> [] \<and> 0 < kc_RequestTimeout k \<and> kc_SuccessTTL k \<noteq> 0 \<and> kc_FailureTTL k \<noteq> 0 \<and>
         (\<forall>az. kc_Authz k = Some az \<longrightarrow>
            vl_required vl (ac_APIGroup az) = None \<and> vl_required vl (ac_Resource az) = None)))"

lemma ApplyDefaults_Some:
  "ApplyDefaults pk = Some k \<Longrightarrow>
   kc_UserName k \<noteq> [] \<and> 0 < kc_RequestTimeout k \<and> kc_SuccessTTL k \<noteq> 0 \<and> kc_FailureTTL k \<noteq> 0"
  by (auto simp: ApplyDefaults_def Let_def defaultSuccessTTL_def defaultFailureTTL_def defaultUserName_def
      defaultRequestTimeout_def minute_def second_def split: option.splits if_splits)

lemma ApplyDefaults_None [simp]: "ApplyDefaults pk = None \<longleftrightarrow> pk = None"
  by (auto simp: ApplyDefaults_def Let_def split: option.splits)

lemma auth_Validate_None:
  "auth_Validate required k key = None \<longleftrightarrow>
     (\<forall>az. kc_Authz k = Some az \<longrightarrow> required (ac_APIGroup az) = None \<and> required (ac_Resource az) = None)"
  by (auto simp: auth_Validate_def authz_Validate_def split: option.splits)

lemma validate_valid:
  assumes "validate vl c = Inr c'"
  shows "valid_config vl c'"
proof -
  obtain srv kube where srv: "validate_server (cf_Server c) = Inr srv"
    and tok: "validate_token (cf_Token c) = Inr ()"
    and methods: "\<not> (cf_Users c = None \<and> cf_PluginAuthn c = None \<and> cf_KubernetesAuth c = None)"
    and kube: "validate_kubernetes (vl_required vl) (cf_KubernetesAuth c) = Inr kube"
    and acls: "\<not> (cf_ACL c = None \<and> cf_PluginAuthz c = None \<and> \<not> has_kubernetes_authz kube)"
    and acl: "validate_acl (cf_ACL c) = Inr ()"
    and pn: "validate_plugin ''bad plugin_authn config'' (plugin_authn_Validate (vl_authn vl)) (cf_PluginAuthn c) = Inr ()"
    and pz: "validate_plugin ''bad plugin_authz config'' (plugin_authz_Validate (vl_authz vl)) (cf_PluginAuthz c) = Inr ()"
    and c': "c' = c\<lparr>cf_Server := srv, cf_KubernetesAuth := kube\<rparr>"
    using assms unfolding validate_def go_err by (auto simp: go_err simp del: not_None_eq split: if_splits)
  have k: "kube = ApplyDefaults (cf_KubernetesAuth c)"
    and kv: "\<And>k. kube = Some k \<Longrightarrow> auth_Validate (vl_required vl) k ''kubernetes_auth'' = None"
    using kube unfolding validate_kubernetes_Inr by auto
  have kd: "kc_UserName k \<noteq> [] \<and> 0 < kc_RequestTimeout k \<and> kc_SuccessTTL k \<noteq> 0 \<and> kc_FailureTTL k \<noteq> 0"
    if "kube = Some k" for k
    using ApplyDefaults_Some that k by metis
  have "kube = None \<longleftrightarrow> cf_KubernetesAuth c = None" unfolding k by simp
  then show ?thesis
    unfolding valid_config_def c'
    using srv tok methods acls acl pn pz kv kd
    unfolding validate_server_Inr validate_token_Inr validate_acl_Inr validate_plugin_Inr
    by (simp add: auth_Validate_None) blast
qed

section \<open>Laws of loading\<close>

lemma load_pair_None:
  "load_pair kt what cf kf = Inr None \<longleftrightarrow> cf = [] \<and> kf = []"
  by (auto simp: load_pair_def split: sum.splits go_stop.splits)

lemma load_pair_Some:
  "load_pair kt what cf kf = Inr (Some keys) \<longleftrightarrow> cf \<noteq> [] \<and> kf \<noteq> [] \<and> loadCertAndKey kt cf kf = Inr keys"
  by (auto simp: load_pair_def split: sum.splits go_stop.splits)

lemma set_server_keys_keeps [simp]:
  "sc_ListenAddress (set_server_keys keys s) = sc_ListenAddress s" "sc_Net (set_server_keys keys s) = sc_Net s"
  "sc_PathPrefix (set_server_keys keys s) = sc_PathPrefix s" "sc_CertFile (set_server_keys keys s) = sc_CertFile s"
  "sc_KeyFile (set_server_keys keys s) = sc_KeyFile s" "sc_TLSMinVersion (set_server_keys keys s) = sc_TLSMinVersion s"
  "sc_TLSCipherSuites (set_server_keys keys s) = sc_TLSCipherSuites s"
  by (simp_all add: set_server_keys_def split: option.split)

lemma set_token_keys_keeps [simp]:
  "tc_Issuer (set_token_keys kt keys t) = tc_Issuer t" "tc_Expiration (set_token_keys kt keys t) = tc_Expiration t"
  "tc_CertFile (set_token_keys kt keys t) = tc_CertFile t" "tc_KeyFile (set_token_keys kt keys t) = tc_KeyFile t"
  "tc_DisableLegacyKeyID (set_token_keys kt keys t) = tc_DisableLegacyKeyID t"
  by (simp_all add: set_token_keys_def split: prod.split)

text \<open>The steps of a successful load.\<close>

lemma LoadConfig_Inr:
  assumes "LoadConfig src vl kt file = Inr c"
  obtains contents c0 c1 serverKeys tokenKeys keys where
    "cs_ReadFile src file = Inr contents" "cs_Unmarshal src contents = Inr c0" "validate vl c0 = Inr c1"
    "load_pair kt ''server'' (sc_CertFile (cf_Server c1)) (sc_KeyFile (cf_Server c1)) = Inr serverKeys"
    "load_pair kt ''token'' (tc_CertFile (cf_Token c1)) (tc_KeyFile (cf_Token c1)) = Inr tokenKeys"
    "(if tokenKeys = None then serverKeys else tokenKeys) = Some keys"
    "c = c1\<lparr>cf_Server := set_server_keys serverKeys (cf_Server c1), cf_Token := set_token_keys kt keys (cf_Token c1)\<rparr>"
proof -
  obtain contents c0 c1 where s: "cs_ReadFile src file = Inr contents" "cs_Unmarshal src contents = Inr c0"
    "validate vl c0 = Inr c1"
    using assms by (auto simp: LoadConfig_def split: sum.splits go_stop.splits)
  obtain serverKeys tokenKeys where p:
    "load_pair kt ''server'' (sc_CertFile (cf_Server c1)) (sc_KeyFile (cf_Server c1)) = Inr serverKeys"
    "load_pair kt ''token'' (tc_CertFile (cf_Token c1)) (tc_KeyFile (cf_Token c1)) = Inr tokenKeys"
    using assms s by (auto simp: LoadConfig_def go_err)
  then obtain keys where "(if tokenKeys = None then serverKeys else tokenKeys) = Some keys"
    "c = c1\<lparr>cf_Server := set_server_keys serverKeys (cf_Server c1), cf_Token := set_token_keys kt keys (cf_Token c1)\<rparr>"
    using assms s by (cases "if tokenKeys = None then serverKeys else tokenKeys") (auto simp: LoadConfig_def)
  then show ?thesis using that s p by blast
qed

lemma LoadConfig_valid:
  assumes "LoadConfig src vl kt file = Inr c"
  shows "valid_config vl c \<and>
    (sc_CertFile (cf_Server c) = [] \<longleftrightarrow> sc_KeyFile (cf_Server c) = []) \<and>
    (tc_CertFile (cf_Token c) = [] \<longleftrightarrow> tc_KeyFile (cf_Token c) = [])"
  using assms
proof (rule LoadConfig_Inr)
  fix contents c0 c1 serverKeys tokenKeys keys
  assume v: "validate vl c0 = Inr c1"
    and p: "load_pair kt ''server'' (sc_CertFile (cf_Server c1)) (sc_KeyFile (cf_Server c1)) = Inr serverKeys"
      "load_pair kt ''token'' (tc_CertFile (cf_Token c1)) (tc_KeyFile (cf_Token c1)) = Inr tokenKeys"
    and c: "c = c1\<lparr>cf_Server := set_server_keys serverKeys (cf_Server c1), cf_Token := set_token_keys kt keys (cf_Token c1)\<rparr>"
  have "valid_config vl c1" using v by (rule validate_valid)
  then have "valid_config vl c" by (simp add: c valid_config_def)
  moreover have "sc_CertFile (cf_Server c1) = [] \<longleftrightarrow> sc_KeyFile (cf_Server c1) = []"
    "tc_CertFile (cf_Token c1) = [] \<longleftrightarrow> tc_KeyFile (cf_Token c1) = []"
    using p by (cases serverKeys; cases tokenKeys; simp add: load_pair_None load_pair_Some)+
  ultimately show ?thesis by (simp add: c)
qed

text \<open>
  C11. A configuration that was loaded is complete: an address, a known network, an absolute prefix, an
  issuer, a positive lifetime of tokens, some way to authenticate and some way to authorize, an
  access list whose patterns compile, plugins that load, a Kubernetes section with its defaults
  filled in, and certificates given with their keys or not at all.
\<close>

theorem loaded_config_valid:
  assumes "LoadConfig src vl kt file = Inr c"
  shows "valid_config vl c \<and>
    (sc_CertFile (cf_Server c) = [] \<longleftrightarrow> sc_KeyFile (cf_Server c) = []) \<and>
    (tc_CertFile (cf_Token c) = [] \<longleftrightarrow> tc_KeyFile (cf_Token c) = [])"
  using assms by (rule LoadConfig_valid)

lemma LoadConfig_keys:
  assumes "LoadConfig src vl kt file = Inr c"
  shows "\<exists>pk prk.
    (if tc_CertFile (cf_Token c) \<noteq> [] then tc_CertFile (cf_Token c) else sc_CertFile (cf_Server c)) \<noteq> [] \<and>
    (if tc_CertFile (cf_Token c) \<noteq> [] then tc_KeyFile (cf_Token c) else sc_KeyFile (cf_Server c)) \<noteq> [] \<and>
    (tc_CertFile (cf_Token c) = [] \<longleftrightarrow> tc_KeyFile (cf_Token c) = []) \<and>
    loadCertAndKey kt
      (if tc_CertFile (cf_Token c) \<noteq> [] then tc_CertFile (cf_Token c) else sc_CertFile (cf_Server c))
      (if tc_CertFile (cf_Token c) \<noteq> [] then tc_KeyFile (cf_Token c) else sc_KeyFile (cf_Server c)) =
        Inr (pk, prk, tc_sigAlg (cf_Token c)) \<and>
    tc_publicKey (cf_Token c) = Some pk \<and> tc_privateKey (cf_Token c) = Some prk \<and>
    kt_sign kt prk ''dummy'' = Inr (tc_sigAlg (cf_Token c)) \<and>
    tc_keyID (cf_Token c) =
      (if tc_DisableLegacyKeyID (cf_Token c) then getRFC7638Thumbprint (kt_crypto kt pk) else kt_KeyID kt pk)"
  using assms
proof (rule LoadConfig_Inr)
  fix contents c0 c1 serverKeys tokenKeys keys
  assume p: "load_pair kt ''server'' (sc_CertFile (cf_Server c1)) (sc_KeyFile (cf_Server c1)) = Inr serverKeys"
      "load_pair kt ''token'' (tc_CertFile (cf_Token c1)) (tc_KeyFile (cf_Token c1)) = Inr tokenKeys"
    and k: "(if tokenKeys = None then serverKeys else tokenKeys) = Some keys"
    and c: "c = c1\<lparr>cf_Server := set_server_keys serverKeys (cf_Server c1), cf_Token := set_token_keys kt keys (cf_Token c1)\<rparr>"
  obtain pk prk alg where keys: "keys = (pk, prk, alg)" by (cases keys)
  have l: "loadCertAndKey kt
      (if tc_CertFile (cf_Token c) \<noteq> [] then tc_CertFile (cf_Token c) else sc_CertFile (cf_Server c))
      (if tc_CertFile (cf_Token c) \<noteq> [] then tc_KeyFile (cf_Token c) else sc_KeyFile (cf_Server c)) = Inr keys"
    using p k by (cases tokenKeys) (simp_all add: c load_pair_None load_pair_Some)
  moreover have "(if tc_CertFile (cf_Token c) \<noteq> [] then tc_CertFile (cf_Token c) else sc_CertFile (cf_Server c)) \<noteq> []"
    "(if tc_CertFile (cf_Token c) \<noteq> [] then tc_KeyFile (cf_Token c) else sc_KeyFile (cf_Server c)) \<noteq> []"
    "tc_CertFile (cf_Token c) = [] \<longleftrightarrow> tc_KeyFile (cf_Token c) = []"
    using p k by (cases tokenKeys; simp add: c load_pair_None load_pair_Some; fail)+
  moreover have "kt_sign kt prk ''dummy'' = Inr alg"
    using l unfolding keys by (auto simp: loadCertAndKey_def split: sum.splits)
  ultimately show ?thesis by (simp add: c keys set_token_keys_def)
qed

text \<open>
  C23. Tokens are signed with the key of the token section, or with the server's own key when the token
  section names no files. A configuration is refused when neither section names a certificate and a key, or
  when the token section names only one of the two: what is loaded has both names, from the same
  section. The published key id belongs to that very key, and the algorithm is the one the key
  signed with.
\<close>

theorem token_key_choice:
  assumes "LoadConfig src vl kt file = Inr c"
  shows "\<exists>pk prk.
    (if tc_CertFile (cf_Token c) \<noteq> [] then tc_CertFile (cf_Token c) else sc_CertFile (cf_Server c)) \<noteq> [] \<and>
    (if tc_CertFile (cf_Token c) \<noteq> [] then tc_KeyFile (cf_Token c) else sc_KeyFile (cf_Server c)) \<noteq> [] \<and>
    (tc_CertFile (cf_Token c) = [] \<longleftrightarrow> tc_KeyFile (cf_Token c) = []) \<and>
    loadCertAndKey kt
      (if tc_CertFile (cf_Token c) \<noteq> [] then tc_CertFile (cf_Token c) else sc_CertFile (cf_Server c))
      (if tc_CertFile (cf_Token c) \<noteq> [] then tc_KeyFile (cf_Token c) else sc_KeyFile (cf_Server c)) =
        Inr (pk, prk, tc_sigAlg (cf_Token c)) \<and>
    tc_publicKey (cf_Token c) = Some pk \<and> tc_privateKey (cf_Token c) = Some prk \<and>
    kt_sign kt prk ''dummy'' = Inr (tc_sigAlg (cf_Token c)) \<and>
    tc_keyID (cf_Token c) =
      (if tc_DisableLegacyKeyID (cf_Token c) then getRFC7638Thumbprint (kt_crypto kt pk) else kt_KeyID kt pk)"
  using assms by (rule LoadConfig_keys)

section \<open>Laws of the thumbprint\<close>

fun be_value :: "nat \<Rightarrow> string \<Rightarrow> nat" where
  "be_value acc [] = acc"
| "be_value acc (c # cs) = be_value (256 * acc + code c) cs"

lemma be_value_append: "be_value acc (s @ t) = be_value (be_value acc s) t"
  by (induction s arbitrary: acc) auto

lemma be_value_big_bytes: "be_value 0 (big_bytes n) = n"
proof (induction n rule: big_bytes.induct)
  case (1 n)
  then show ?case by (cases "n = 0") (simp_all add: big_bytes.simps [of 0] big_bytes.simps [of n] be_value_append)
qed

lemma big_bytes_inj [simp]: "big_bytes a = big_bytes b \<longleftrightarrow> a = b"
  by (metis be_value_big_bytes)

lemma raw_url_inj [simp]: "raw_url a = raw_url b \<longleftrightarrow> a = b"
  by (simp add: raw_url_def)

lemma raw_url_no_quote: "CHR 0x22 \<notin> set (raw_url s)"
proof
  assume "CHR 0x22 \<in> set (raw_url s)"
  then have "b64_val URLEncoding CHR 0x22 \<noteq> None"
    using raw_encode_chars [of s] by (simp add: raw_url_def list_all_iff)
  then show False by (simp add: b64_val_def URLEncoding_def is_upper_def is_lower_def is_digit_def)
qed

lemma quoted_field_append:
  "CHR 0x22 \<notin> set v \<Longrightarrow> CHR 0x22 \<notin> set v' \<Longrightarrow>
   quoted_field k v @ t = quoted_field k v' @ t' \<longleftrightarrow> v = v' \<and> t = t'"
  using cut_unique [of "CHR 0x22" v v' t t'] by (simp add: quoted_field_def)

lemma quoted_field_inj [simp]: "quoted_field k v = quoted_field k v' \<longleftrightarrow> v = v'"
  by (simp add: quoted_field_def)

lemma rsa_payload_inj:
  "thumbprint_payload (RSAKey n e) = thumbprint_payload (RSAKey n' e') \<longleftrightarrow> n = n' \<and> e = e'"
  by (auto simp: thumbprint_payload_def quoted_field_append raw_url_no_quote simp del: append_assoc)

text \<open>
  C24. The thumbprint of an RSA key stands for the key: two RSA keys share it only if they are equal or
  SHA-256 collides. The thumbprint of an elliptic curve key does not: it is made from the base
  point of the curve instead of the point of the key, so all keys on a curve have the same key id.
\<close>

theorem thumbprint_identifies:
  "(getRFC7638Thumbprint (RSAKey n e) = getRFC7638Thumbprint (RSAKey n' e') \<longleftrightarrow>
      (n = n' \<and> e = e') \<or>
      (thumbprint_payload (RSAKey n e) \<noteq> thumbprint_payload (RSAKey n' e') \<and>
       sha256 (the (thumbprint_payload (RSAKey n e))) = sha256 (the (thumbprint_payload (RSAKey n' e'))))) \<and>
   getRFC7638Thumbprint (ECKey curve x y) = getRFC7638Thumbprint (ECKey curve x' y')"
proof -
  have bytes: "map (char_of :: nat \<Rightarrow> char) (sha256 a) = map char_of (sha256 b) \<longleftrightarrow> sha256 a = sha256 b" for a b
  proof
    assume h: "map (char_of :: nat \<Rightarrow> char) (sha256 a) = map char_of (sha256 b)"
    have "map code (map char_of (sha256 s)) = sha256 s" for s
      using sha256_bytes [of s] by (simp add: map_idI)
    then show "sha256 a = sha256 b" using h by metis
  qed simp
  have "thumbprint_payload (RSAKey a b) = Some (the (thumbprint_payload (RSAKey a b)))" for a b
    by (simp add: thumbprint_payload_def)
  then have t: "getRFC7638Thumbprint (RSAKey a b) = raw_url (map char_of (sha256 (the (thumbprint_payload (RSAKey a b)))))"
    for a b unfolding getRFC7638Thumbprint_def by (metis option.simps(5))
  have "getRFC7638Thumbprint (ECKey curve x y) = getRFC7638Thumbprint (ECKey curve x' y')"
    by (simp add: getRFC7638Thumbprint_def thumbprint_payload_def)
  moreover have "thumbprint_payload (RSAKey n e) \<noteq> thumbprint_payload (RSAKey n' e') \<longleftrightarrow> \<not> (n = n' \<and> e = e')"
    by (simp only: rsa_payload_inj)
  ultimately show ?thesis unfolding t raw_url_inj bytes by metis
qed

section \<open>A configuration that loads\<close>

definition test_config_file :: "(unit, unit, unit) config" where
  "test_config_file =
     \<lparr>cf_Server = \<lparr>sc_ListenAddress = '':5001'', sc_Net = [], sc_PathPrefix = [], sc_RealIPHeader = [],
        sc_RealIPPos = 0, sc_CertFile = ''cert.pem'', sc_KeyFile = ''key.pem'', sc_HSTS = False,
        sc_TLSMinVersion = [], sc_TLSCurvePreferences = None, sc_TLSCipherSuites = None,
        sc_publicKey = None, sc_privateKey = None, sc_sigAlg = []\<rparr>,
      cf_Token = \<lparr>tc_Issuer = ''Acme'', tc_CertFile = [], tc_KeyFile = [], tc_Expiration = 900,
        tc_DisableLegacyKeyID = False, tc_publicKey = None, tc_privateKey = None, tc_sigAlg = [], tc_keyID = []\<rparr>,
      cf_Users = Some [], cf_KubernetesAuth = Some (test_config\<lparr>kc_UserName := []\<rparr>), cf_PluginAuthn = None, cf_ACL = Some [],
      cf_PluginAuthz = None\<rparr>"

definition test_source :: "(unit, unit, unit) config_source" where
  "test_source = \<lparr>cs_ReadFile = (\<lambda>f. Inr f), cs_Unmarshal = (\<lambda>s. Inr test_config_file)\<rparr>"

definition test_validators :: "(unit, unit) validators" where
  "test_validators = \<lparr>vl_required = (\<lambda>s. if s = [] then Some (Errorf ''cannot be blank'' []) else None),
     vl_authn = (\<lambda>p. Inl (Errorf ''no plugin'' [])), vl_authz = (\<lambda>p. Inl (Errorf ''no plugin'' []))\<rparr>"

definition test_keys :: "(unit, unit, unit) key_tools" where
  "test_keys = \<lparr>kt_load = (\<lambda>c k. Inr ()), kt_parse = (\<lambda>c. Inr OtherKey), kt_public = (\<lambda>p. Inr ()),
     kt_private = (\<lambda>c. Inr ()), kt_sign = (\<lambda>k s. Inr ''RS256''), kt_crypto = (\<lambda>p. OtherKey),
     kt_KeyID = (\<lambda>p. ''K'')\<rparr>"

definition test_loaded :: "(unit, unit, unit) config" where
  "test_loaded = test_config_file
     \<lparr>cf_Server := (cf_Server test_config_file)\<lparr>sc_Net := ''tcp'', sc_publicKey := Some (), sc_privateKey := Some (),
        sc_sigAlg := ''RS256''\<rparr>,
      cf_Token := (cf_Token test_config_file)\<lparr>tc_publicKey := Some (), tc_privateKey := Some (), tc_sigAlg := ''RS256'',
        tc_keyID := ''K''\<rparr>,
      cf_KubernetesAuth := Some test_config\<rparr>"

lemma test_config_loads: "LoadConfig test_source test_validators test_keys ''auth.yml'' = Inr test_loaded"
  by (simp add: LoadConfig_def test_source_def validate_def validate_server_def validate_token_def test_config_file_def
      validate_kubernetes_def ApplyDefaults_def auth_Validate_def authz_Validate_def has_kubernetes_authz_def
      validate_acl_def validate_plugin_def load_pair_def loadCertAndKey_def test_keys_def set_server_keys_def
      set_token_keys_def test_loaded_def test_config_def test_validators_def defaultUserName_def minute_def second_def)

lemma loaded_config_valid_witness:
  "LoadConfig test_source test_validators test_keys ''auth.yml'' = Inr test_loaded \<and>
   valid_config test_validators test_loaded"
  using test_config_loads loaded_config_valid [OF test_config_loads] by blast

lemma token_key_choice_witness:
  "\<exists>pk prk. loadCertAndKey test_keys ''cert.pem'' ''key.pem'' = Inr (pk, prk, ''RS256'') \<and>
     tc_privateKey (cf_Token test_loaded) = Some prk"
  using token_key_choice [OF test_config_loads] by (auto simp: test_loaded_def test_config_file_def)

end
