(* ===== verification/Server_Start.thy ===== *)
theory Server_Start
  imports Server_Auth Server_Config Authz_Kubernetes K8s_Token
begin

text \<open>
  \<^verbatim>\<open>NewAuthServer\<close> of \<^verbatim>\<open>server/server.go\<close>: the authenticators and authorizers of a configuration,
  in their order, and what the composed server guarantees.

  The server's state is that of the Kubernetes authorizer: its two caches and the world outside.
  Plugins and the token API work on the world only.
\<close>

section \<open>Construction\<close>

record ('q, 'r, 'cl, 'x) externals =
  ex_bcrypt :: "string \<Rightarrow> string \<Rightarrow> go_error option"
  ex_authn :: "'x authn_fn plugin_loader"
  ex_authz :: "'x authz_fn plugin_loader"
  ex_kube :: "('q, 'r, 'cl, 'x) kube_api"
  ex_tokens :: "('cl, 'x) token_api"
  ex_token_cache :: "duration \<Rightarrow> duration \<Rightarrow> 'x token_fn \<Rightarrow> 'x token_fn"
  ex_glob :: glob_fn
  ex_title :: "string \<Rightarrow> string"
  ex_rank :: "string set \<Rightarrow> string \<Rightarrow> nat"
  ex_metrics :: "http_request \<Rightarrow> http_response \<Rightarrow> http_response"

definition on_world :: "('x \<Rightarrow> 'r \<times> 'x) \<Rightarrow> 'x kube_state \<Rightarrow> 'r \<times> 'x kube_state" where
  "on_world f s = (let (r, x) = f (ks_world s) in (r, s\<lparr>ks_world := x\<rparr>))"

definition world_authn :: "'x authn_fn \<Rightarrow> 'x kube_state authn_fn" where
  "world_authn f user password = on_world (f user password)"

definition world_authz :: "'x authz_fn \<Rightarrow> 'x kube_state authz_fn" where
  "world_authz f ai = on_world (f ai)"

text \<open>The parts of \<^verbatim>\<open>NewAuthServer\<close>: each adds to one of the lists, or to none, or fails.\<close>

definition static_authorizers ::
  "('q, 'r, 'cl, 'x) externals \<Rightarrow> acl option \<Rightarrow> 'x kube_state authz_fn list go" where
  "static_authorizers ext pacl =
     (case pacl of
        None \<Rightarrow> Inr []
      | Some acl \<Rightarrow>
          go_then (NewACLAuthorizer acl) (\<lambda>a. Inr [acl_Authorize (ex_title ext) (ex_rank ext) a]))"

definition static_authenticators ::
  "('q, 'r, 'cl, 'x) externals \<Rightarrow> static_users option \<Rightarrow> 'x kube_state authn_fn list" where
  "static_authenticators ext pusers =
     (case pusers of
        None \<Rightarrow> []
      | Some users \<Rightarrow> [static_Authenticate (ex_bcrypt ext) (NewStaticUserAuth users)])"

definition plugin_authenticators ::
  "('q, 'r, 'cl, 'x) externals \<Rightarrow> plugin_config option \<Rightarrow> 'x kube_state authn_fn list go" where
  "plugin_authenticators ext pp =
     (case pp of
        None \<Rightarrow> Inr []
      | Some p \<Rightarrow>
          (case NewPluginAuthn (ex_authn ext) p of Inl err \<Rightarrow> Inl (Err err) | Inr a \<Rightarrow> Inr [world_authn a]))"

definition plugin_authorizers ::
  "('q, 'r, 'cl, 'x) externals \<Rightarrow> plugin_config option \<Rightarrow> 'x kube_state authz_fn list go" where
  "plugin_authorizers ext pp =
     (case pp of
        None \<Rightarrow> Inr []
      | Some p \<Rightarrow>
          (case NewPluginAuthzAuthorizer (ex_authz ext) p of
             Inl err \<Rightarrow> Inl (Err err) | Inr a \<Rightarrow> Inr [world_authz a]))"

definition kubernetes_authorizers ::
  "('q, 'r, 'cl, 'x) externals \<Rightarrow> 'q auth_config \<Rightarrow> 'x kube_state authz_fn list go" where
  "kubernetes_authorizers ext k =
     (if kc_Authz k = None then Inr []
      else go_then (NewKubernetesAuthz (ex_kube ext) (Some k)) (\<lambda>ka. Inr [kube_Authorize (ex_glob ext) ka]))"

definition kubernetes_parts ::
  "('q, 'r, 'cl, 'x) externals \<Rightarrow> 'q auth_config option \<Rightarrow>
   ('x kube_state authn_fn list \<times> 'x kube_state authz_fn list) go" where
  "kubernetes_parts ext pk =
     (case pk of
        None \<Rightarrow> Inr ([], [])
      | Some k \<Rightarrow>
          (case NewKubernetesAuth (kb_loader (ex_kube ext)) (ra_new_client (kb_rules (ex_kube ext))) (ex_tokens ext)
                  (ex_token_cache ext) (Some k) of
             Inl err \<Rightarrow> Inl (Err err)
           | Inr ka \<Rightarrow> go_then (kubernetes_authorizers ext k) (\<lambda>azs. Inr ([world_authn ka], azs))))"

definition NewAuthServer ::
  "('q, 'r, 'cl, 'x) externals \<Rightarrow> ('pub, 'prv, 'q) config \<Rightarrow> ('pub, 'prv, 'x kube_state) auth_server go" where
  "NewAuthServer ext c =
     go_then (static_authorizers ext (cf_ACL c)) (\<lambda>acl_azs.
     go_then (plugin_authenticators ext (cf_PluginAuthn c)) (\<lambda>plugin_ans.
     go_then (plugin_authorizers ext (cf_PluginAuthz c)) (\<lambda>plugin_azs.
     go_then (kubernetes_parts ext (cf_KubernetesAuth c)) (\<lambda>(kube_ans, kube_azs).
     Inr \<lparr>sv_Server = cf_Server c, sv_Token = cf_Token c,
          sv_authenticators = static_authenticators ext (cf_Users c) @ plugin_ans @ kube_ans,
          sv_authorizers = acl_azs @ plugin_azs @ kube_azs,
          sv_metrics = ex_metrics ext\<rparr>))))"

section \<open>The lists of a server\<close>

lemma static_authorizers_Inr:
  "static_authorizers ext pacl = Inr azs \<longleftrightarrow>
     (pacl = None \<and> azs = []) \<or>
     (\<exists>acl. pacl = Some acl \<and> ValidateACL acl = Inr None \<and> azs = [acl_Authorize (ex_title ext) (ex_rank ext) acl])"
  by (auto simp: static_authorizers_def go_err NewACLAuthorizer_Inr split: option.split)

lemma plugin_authorizers_Inr:
  "plugin_authorizers ext pp = Inr azs \<longleftrightarrow>
     (pp = None \<and> azs = []) \<or>
     (\<exists>p a. pp = Some p \<and> lookupAuthzSymbol (ex_authz ext) p = Inr a \<and> azs = [world_authz a])"
  by (auto simp: plugin_authorizers_def NewPluginAuthzAuthorizer_def plugin_Authorize_def [abs_def] split: option.split sum.split)

lemma plugin_authenticators_Inr:
  "plugin_authenticators ext pp = Inr ans \<longleftrightarrow>
     (pp = None \<and> ans = []) \<or>
     (\<exists>p a. pp = Some p \<and> lookupAuthnSymbol (ex_authn ext) p = Inr a \<and> ans = [world_authn a])"
  by (auto simp: plugin_authenticators_def NewPluginAuthn_def plugin_Authenticate_def [abs_def] split: option.split sum.split)

lemma kubernetes_authorizers_Inr:
  "kubernetes_authorizers ext k = Inr azs \<longleftrightarrow>
     (kc_Authz k = None \<and> azs = []) \<or>
     (\<exists>ka. kc_Authz k \<noteq> None \<and> NewKubernetesAuthz (ex_kube ext) (Some k) = Inr ka \<and> azs = [kube_Authorize (ex_glob ext) ka])"
  by (auto simp: kubernetes_authorizers_def go_err)

lemma kubernetes_parts_Inr:
  "kubernetes_parts ext pk = Inr (ans, azs) \<longleftrightarrow>
     (pk = None \<and> ans = [] \<and> azs = []) \<or>
     (\<exists>k a. pk = Some k \<and>
        NewKubernetesAuth (kb_loader (ex_kube ext)) (ra_new_client (kb_rules (ex_kube ext))) (ex_tokens ext)
          (ex_token_cache ext) (Some k) = Inr a \<and>
        ans = [world_authn a] \<and> kubernetes_authorizers ext k = Inr azs)"
  by (auto simp: kubernetes_parts_def go_err split: option.split sum.splits)

lemmas server_parts = static_authorizers_Inr plugin_authorizers_Inr plugin_authenticators_Inr
  kubernetes_authorizers_Inr kubernetes_parts_Inr

lemma NewAuthServer_Inr:
  "NewAuthServer ext c = Inr sv \<longleftrightarrow>
     (\<exists>acl_azs plugin_ans plugin_azs kube_ans kube_azs.
        static_authorizers ext (cf_ACL c) = Inr acl_azs \<and>
        plugin_authenticators ext (cf_PluginAuthn c) = Inr plugin_ans \<and>
        plugin_authorizers ext (cf_PluginAuthz c) = Inr plugin_azs \<and>
        kubernetes_parts ext (cf_KubernetesAuth c) = Inr (kube_ans, kube_azs) \<and>
        sv = \<lparr>sv_Server = cf_Server c, sv_Token = cf_Token c,
          sv_authenticators = static_authenticators ext (cf_Users c) @ plugin_ans @ kube_ans,
          sv_authorizers = acl_azs @ plugin_azs @ kube_azs,
          sv_metrics = ex_metrics ext\<rparr>)"
  unfolding NewAuthServer_def go_err by auto

section \<open>Grants of a configured server\<close>

lemma world_authz_keeps: "authorizer f \<Longrightarrow> authorizer (world_authz f)"
  unfolding authorizer_def by (fastforce simp: world_authz_def on_world_def split: prod.splits)

text \<open>The authorizers the program brings itself, without plugins.\<close>

definition own_authorizers ::
  "('q, 'r, 'cl, 'x) externals \<Rightarrow> acl option \<Rightarrow> ('q, 'x kube_state) kubernetes_authz option \<Rightarrow>
   'x kube_state authz_fn list" where
  "own_authorizers ext pacl pka =
     (case pacl of None \<Rightarrow> [] | Some acl \<Rightarrow> [acl_Authorize (ex_title ext) (ex_rank ext) acl]) @
     (case pka of None \<Rightarrow> [] | Some ka \<Rightarrow> [kube_Authorize (ex_glob ext) ka])"

interpretation own: authorizer_list "own_authorizers ext pacl pka" for ext pacl pka
  by unfold_locales
     (auto simp: own_authorizers_def acl.authorizer_axioms kube.authorizer_axioms split: option.splits)

lemma server_authorizers:
  fixes ext :: "('q, 'r, 'cl, 'x) externals"
  assumes "NewAuthServer ext c = Inr sv"
  obtains plugin pka where
    "set (sv_authorizers sv) \<subseteq> set (own_authorizers ext (cf_ACL c) pka) \<union> plugin"
    "plugin \<subseteq> {world_authz a | p a. lookupAuthzSymbol (ex_authz ext) p = Inr a}"
proof -
  obtain acl_azs plugin_azs kube_azs kube_ans where
    p: "static_authorizers ext (cf_ACL c) = Inr acl_azs" "plugin_authorizers ext (cf_PluginAuthz c) = Inr plugin_azs"
    "kubernetes_parts ext (cf_KubernetesAuth c) = Inr (kube_ans, kube_azs)"
    and sv: "sv_authorizers sv = acl_azs @ plugin_azs @ kube_azs"
    using assms unfolding NewAuthServer_Inr by auto
  have "\<exists>pka. set kube_azs \<subseteq> set (own_authorizers ext (cf_ACL c) pka)"
  proof -
    from p(3) have "kube_azs = [] \<or>
        (\<exists>ka :: ('q, 'x kube_state) kubernetes_authz. kube_azs = [kube_Authorize (ex_glob ext) ka])"
      by (auto simp: kubernetes_parts_Inr kubernetes_authorizers_Inr)
    then show ?thesis
    proof (elim disjE exE)
      fix ka :: "('q, 'x kube_state) kubernetes_authz" assume "kube_azs = [kube_Authorize (ex_glob ext) ka]"
      then have "set kube_azs \<subseteq> set (own_authorizers ext (cf_ACL c) (Some ka))" by (simp add: own_authorizers_def)
      then show ?thesis by blast
    qed simp
  qed
  then obtain pka where k: "set kube_azs \<subseteq> set (own_authorizers ext (cf_ACL c) pka)" by blast
  have "set acl_azs \<subseteq> set (own_authorizers ext (cf_ACL c) pka)"
    using p(1) by (auto simp: static_authorizers_Inr own_authorizers_def)
  moreover have "set plugin_azs \<subseteq> {world_authz a | p a. lookupAuthzSymbol (ex_authz ext) p = Inr a}"
    using p(2) unfolding plugin_authorizers_Inr by fastforce
  ultimately show ?thesis using that [of pka "set plugin_azs"] k sv by auto
qed

lemma server_authorizers_keep:
  assumes "NewAuthServer ext c = Inr sv" "\<forall>p a. lookupAuthzSymbol (ex_authz ext) p = Inr a \<longrightarrow> authorizer a"
  shows "\<forall>a \<in> set (sv_authorizers sv). authorizer a"
proof
  fix a assume a: "a \<in> set (sv_authorizers sv)"
  from assms(1) show "authorizer a"
  proof (rule server_authorizers)
    fix plugin pka
    assume s: "set (sv_authorizers sv) \<subseteq> set (own_authorizers ext (cf_ACL c) pka) \<union> plugin"
        "plugin \<subseteq> {world_authz a | p a. lookupAuthzSymbol (ex_authz ext) p = Inr a}"
    with a consider "a \<in> set (own_authorizers ext (cf_ACL c) pka)" | "a \<in> plugin" by blast
    then show ?thesis
      using own.members [of ext "cf_ACL c" pka] s(2) assms(2) world_authz_keeps by cases blast+
  qed
qed

lemma configured_server_grants:
  assumes "NewAuthServer ext c = Inr sv" and "\<forall>p a. lookupAuthzSymbol (ex_authz ext) p = Inr a \<longrightarrow> authorizer a"
    and "doAuth sv env req new_response w = (Inr resp, w')" and "rs_Status resp = 200"
  shows "\<exists>ar ares tok. ParseRequest (cf_Server c) req = Inr ar \<and>
    (\<exists>a \<in> set (sv_authenticators sv). \<exists>w0 w1 res. a (rq_Account ar) (rq_Password ar) w0 = (Inr res, w1) \<and> ar_Authenticated res) \<and>
    CreateToken (cf_Token c) env ar ares = Inr tok \<and> rs_Body resp = TextBody (token_json tok) \<and>
    cs_Subject (token_claims (cf_Token c) env ar ares) = rq_Account ar \<and>
    list_all2 (\<lambda>ra sc. ra_Type ra = as_Type sc \<and> ra_Name ra = as_Name sc \<and>
        set (ra_Actions ra) \<subseteq> set (as_Actions sc) \<and> sorted (ra_Actions ra))
      (cs_Access (token_claims (cf_Token c) env ar ares)) (rq_Scopes ar)"
proof -
  have sv: "sv_Server sv = cf_Server c" "sv_Token sv = cf_Token c"
    using assms(1) unfolding NewAuthServer_Inr by auto
  obtain ar a w0 w1 ares tok and res :: auth_result where ar: "ParseRequest (cf_Server c) req = Inr ar"
    and a: "a \<in> set (sv_authenticators sv)" "a (rq_Account ar) (rq_Password ar) w0 = (Inr res, w1)" "ar_Authenticated res"
    and ares: "if rq_Scopes ar = [] then ares = [] \<and> w' = w1
      else Authorize (sv_authorizers sv) (ar\<lparr>rq_Labels := ar_Labels res, rq_AuthenticatorData := ar_Data res\<rparr>) w1 = (Inr ares, w')"
    and tok: "CreateToken (cf_Token c) env (ar\<lparr>rq_Labels := ar_Labels res, rq_AuthenticatorData := ar_Data res\<rparr>) ares = Inr tok"
    and body: "rs_Body resp = TextBody (token_json tok)"
    using doAuth_200 [OF assms(3,4)] unfolding Let_def sv by (elim exE conjE) (rule that; assumption)
  let ?ar1 = "ar\<lparr>rq_Labels := ar_Labels res, rq_AuthenticatorData := ar_Data res\<rparr>"
  have claims: "token_claims (cf_Token c) env ?ar1 ares = token_claims (cf_Token c) env ar ares"
    by (simp add: token_claims_def)
  have tok': "CreateToken (cf_Token c) env ar ares = Inr tok" using tok unfolding CreateToken_def claims .
  have "list_all2 (\<lambda>ra sc. ra_Type ra = as_Type sc \<and> ra_Name ra = as_Name sc \<and>
        set (ra_Actions ra) \<subseteq> set (as_Actions sc) \<and> sorted (ra_Actions ra))
      (cs_Access (token_claims (cf_Token c) env ?ar1 ares)) (rq_Scopes ?ar1)"
  proof (cases "rq_Scopes ar = []")
    case True
    then show ?thesis using ares by (simp add: token_claims_def)
  next
    case False
    then have "Authorize (sv_authorizers sv) ?ar1 w1 = (Inr ares, w')" using ares by simp
    then show ?thesis by (rule token_grants) (rule server_authorizers_keep [OF assms(1,2)])
  qed
  moreover have "\<exists>a \<in> set (sv_authenticators sv). \<exists>w0 w1 res. a (rq_Account ar) (rq_Password ar) w0 = (Inr res, w1) \<and> ar_Authenticated res"
    using a by blast
  ultimately show ?thesis using ar tok' body by (auto simp: claims token_claims_def)
qed

text \<open>
  What a configured server puts into a token was asked for. When it answers with status 200, the body
  is the token of the parsed request, and the claims repeat the requested scopes in order and
  grant for each only actions requested for it, sorted, whatever access list, Kubernetes rules
  and history there are; a plugin has to keep the contract of its interface.
\<close>

theorem server_grants_requested:
  assumes "NewAuthServer ext c = Inr sv" and "\<forall>p a. lookupAuthzSymbol (ex_authz ext) p = Inr a \<longrightarrow> authorizer a"
    and "doAuth sv env req new_response w = (Inr resp, w')" and "rs_Status resp = 200"
  shows "\<exists>ar ares tok. ParseRequest (cf_Server c) req = Inr ar \<and>
    CreateToken (cf_Token c) env ar ares = Inr tok \<and> rs_Body resp = TextBody (token_json tok) \<and>
    cs_Subject (token_claims (cf_Token c) env ar ares) = rq_Account ar \<and>
    list_all2 (\<lambda>ra sc. ra_Type ra = as_Type sc \<and> ra_Name ra = as_Name sc \<and>
        set (ra_Actions ra) \<subseteq> set (as_Actions sc) \<and> sorted (ra_Actions ra))
      (cs_Access (token_claims (cf_Token c) env ar ares)) (rq_Scopes ar)"
  using configured_server_grants [OF assms] by blast

section \<open>Start-up\<close>

lemma NewKubernetesAuthz_Inl:
  "NewKubernetesAuthz api (Some k) = Inl st \<Longrightarrow> kc_Authz k \<noteq> None \<Longrightarrow> \<exists>e. st = Err e"
  by (auto simp: NewKubernetesAuthz_def split: sum.splits)

lemma kubernetes_parts_Inl:
  "kubernetes_parts ext pk = Inl st \<Longrightarrow> (\<exists>e. st = Err e) \<and> pk \<noteq> None"
  by (auto simp: kubernetes_parts_def kubernetes_authorizers_def go_err dest: NewKubernetesAuthz_Inl
      split: option.splits sum.splits if_splits)

text \<open>
  C22. A valid configuration starts: unless the Kubernetes API cannot be set up, the server is built
  without an error or a panic, and it has at least one authenticator and one authorizer.
\<close>

theorem valid_config_starts:
  fixes vl :: "('x authn_fn, 'x authz_fn) validators"
  assumes "valid_config vl c" "vl_authn vl = ex_authn ext" "vl_authz vl = ex_authz ext"
  shows "(\<exists>sv. NewAuthServer ext c = Inr sv \<and> sv_authenticators sv \<noteq> [] \<and> sv_authorizers sv \<noteq> []) \<or>
    (\<exists>k e. cf_KubernetesAuth c = Some k \<and> NewAuthServer ext c = Inl (Err e) \<and>
       kubernetes_parts ext (Some k) = Inl (Err e))"
proof -
  have v: "\<not> (cf_Users c = None \<and> cf_PluginAuthn c = None \<and> cf_KubernetesAuth c = None)"
    "\<not> (cf_ACL c = None \<and> cf_PluginAuthz c = None \<and> \<not> has_kubernetes_authz (cf_KubernetesAuth c))"
    "\<forall>acl. cf_ACL c = Some acl \<longrightarrow> ValidateACL acl = Inr None"
    "\<forall>p. cf_PluginAuthn c = Some p \<longrightarrow> plugin_authn_Validate (ex_authn ext) p = None"
    "\<forall>p. cf_PluginAuthz c = Some p \<longrightarrow> plugin_authz_Validate (ex_authz ext) p = None"
    using assms unfolding valid_config_def by auto
  obtain acl_azs where a: "static_authorizers ext (cf_ACL c) = Inr acl_azs" "cf_ACL c \<noteq> None \<Longrightarrow> acl_azs \<noteq> []"
    using v(3) by (cases "cf_ACL c") (auto simp: static_authorizers_Inr)
  obtain ans where n: "plugin_authenticators ext (cf_PluginAuthn c) = Inr ans" "cf_PluginAuthn c \<noteq> None \<Longrightarrow> ans \<noteq> []"
    using v(4) by (cases "cf_PluginAuthn c") (auto simp: plugin_authenticators_Inr plugin_authn_Validate_def split: sum.splits)
  obtain azs where z: "plugin_authorizers ext (cf_PluginAuthz c) = Inr azs" "cf_PluginAuthz c \<noteq> None \<Longrightarrow> azs \<noteq> []"
    using v(5) by (cases "cf_PluginAuthz c") (auto simp: plugin_authorizers_Inr plugin_authz_Validate_def split: sum.splits)
  have u: "cf_Users c \<noteq> None \<Longrightarrow> static_authenticators ext (cf_Users c) \<noteq> []"
    by (auto simp: static_authenticators_def)
  show ?thesis
  proof (cases "kubernetes_parts ext (cf_KubernetesAuth c)")
    case (Inr p)
    obtain ka kz where p: "p = (ka, kz)" by (cases p)
    have "cf_KubernetesAuth c \<noteq> None \<Longrightarrow> ka \<noteq> []" "has_kubernetes_authz (cf_KubernetesAuth c) \<Longrightarrow> kz \<noteq> []"
      using Inr by (auto simp: p kubernetes_parts_Inr kubernetes_authorizers_Inr has_kubernetes_authz_def)
    then show ?thesis
      using a n z u v(1,2) Inr unfolding p NewAuthServer_Inr by (intro disjI1) auto
  next
    case (Inl st)
    have "\<exists>e. st = Err e" "cf_KubernetesAuth c \<noteq> None" using kubernetes_parts_Inl [OF Inl] by auto
    moreover have "NewAuthServer ext c = Inl st" using a n z Inl by (simp add: NewAuthServer_def)
    ultimately show ?thesis using Inl by auto
  qed
qed

section \<open>Order\<close>

text \<open>
  C21. The access list has the last word where it speaks: when one of its entries matches a request, the
  answer is that entry's and no plugin and no Kubernetes rule is asked; only a request that no entry
  matches is passed on. This holds for a denial too, an entry with an empty list of actions, and there the
  code contradicts its documentation, which says that Kubernetes is asked after an explicit denial and
  can override it (docs/auth-methods.md, step 3 and scenario 3), and that any authorizer returning success is
  sufficient (examples/reference.yml).
\<close>

theorem acl_before_others:
  assumes "NewAuthServer ext c = Inr sv" and "cf_ACL c = Some acl"
  shows "(acl_decide (ex_title ext) (ex_rank ext) acl ai = Inr acts \<longrightarrow>
      authorizeScope (sv_authorizers sv) ai w = (Inr acts, w)) \<and>
    (acl_decide (ex_title ext) (ex_rank ext) acl ai = Inl (Err NoMatch) \<longrightarrow>
      authorizeScope (sv_authorizers sv) ai w = authorizeScope (tl (sv_authorizers sv)) ai w) \<and>
    (acl = before @ e # after \<and> (\<forall>x \<in> set before. e_Matches (ex_title ext) x ai = Inr False) \<and>
       e_Matches (ex_title ext) e ai = Inr True \<and> e_Actions e = Some [] \<longrightarrow>
      authorizeScope (sv_authorizers sv) ai w = (Inr (Some []), w))"
proof -
  obtain rest where r: "sv_authorizers sv = acl_Authorize (ex_title ext) (ex_rank ext) acl # rest"
    using assms unfolding NewAuthServer_Inr static_authorizers_Inr by auto
  have denied: "acl_decide (ex_title ext) (ex_rank ext) (before @ e # after) ai = Inr (Some [])"
    if "\<forall>x \<in> set before. e_Matches (ex_title ext) x ai = Inr False" "e_Matches (ex_title ext) e ai = Inr True"
      "e_Actions e = Some []"
    unfolding acl_decide_skip [OF that(1)] using that(2,3) by (simp add: entry_grant_eq)
  show ?thesis using r denied by (auto simp: authorizeScope_def acl_Authorize_def)
qed

section \<open>No panics\<close>

text \<open>A call that keeps an invariant of the state and does not panic where it holds.\<close>

definition calm :: "('w \<Rightarrow> bool) \<Rightarrow> ('w \<Rightarrow> 'r go \<times> 'w) \<Rightarrow> bool" where
  "calm ok f \<longleftrightarrow> (\<forall>w r w'. ok w \<longrightarrow> f w = (r, w') \<longrightarrow> ok w' \<and> (\<forall>m. r \<noteq> Inl (Panic m)))"

lemma calmI: "(\<And>w r w'. ok w \<Longrightarrow> f w = (r, w') \<Longrightarrow> ok w' \<and> (\<forall>m. r \<noteq> Inl (Panic m))) \<Longrightarrow> calm ok f"
  by (simp add: calm_def)

lemma calmD: "calm ok f \<Longrightarrow> ok w \<Longrightarrow> f w = (r, w') \<Longrightarrow> ok w' \<and> (\<forall>m. r \<noteq> Inl (Panic m))"
  by (simp add: calm_def)

lemma calm_try_in_order: "\<forall>f \<in> set fs. calm ok f \<Longrightarrow> calm ok (try_in_order stem fs dflt)"
proof (induction fs)
  case (Cons f fs)
  have "calm ok f" "calm ok (try_in_order stem fs dflt)" using Cons by auto
  then show ?case
    by (intro calmI) (auto dest: calmD split: prod.splits sum.splits go_stop.splits if_splits)
qed (simp add: calm_def)

lemma calm_authorize_scopes:
  assumes "\<And>ai. \<forall>a \<in> set azs. calm ok (a ai)"
  shows "calm ok (authorize_scopes azs ar scopes)"
proof (induction scopes)
  case (Cons sc scopes)
  have "calm ok (authorizeScope azs (scope_info ar sc))"
    unfolding authorizeScope_def [abs_def] using assms by (intro calm_try_in_order) auto
  then show ?case using Cons by (intro calmI) (auto dest: calmD split: prod.splits sum.splits)
qed (simp add: calm_def)

lemma CreateToken_no_panic: "tc_privateKey tc \<noteq> None \<Longrightarrow> CreateToken tc env ar ares \<noteq> Inl (Panic m)"
  by (auto simp: CreateToken_def Let_def split: sum.splits option.splits if_splits)

lemma send_token_no_panic:
  "tc_privateKey (sv_Token sv) \<noteq> None \<Longrightarrow> send_token sv env ar ares rw \<noteq> Inl (Panic m)"
  using CreateToken_no_panic [of "sv_Token sv" env ar ares]
  by (auto simp: send_token_def split: sum.splits go_stop.splits)

lemma calm_doAuth:
  assumes an: "\<And>u p. \<forall>a \<in> set (sv_authenticators sv). calm ok (a u p)"
    and az: "\<And>ai. \<forall>a \<in> set (sv_authorizers sv). calm ok (a ai)"
    and key: "tc_privateKey (sv_Token sv) \<noteq> None"
    and parse: "\<And>m. ParseRequest (sv_Server sv) req \<noteq> Inl (Panic m)"
  shows "calm ok (doAuth sv env req rw)"
proof (rule calmI)
  fix w r w'
  assume w: "ok w" and run: "doAuth sv env req rw w = (r, w')"
  have a: "calm ok (Authenticate (sv_authenticators sv) ar)" for ar
    unfolding Authenticate_def [abs_def] using an by (intro calm_try_in_order) auto
  have z: "calm ok (Authorize (sv_authorizers sv) ar)" for ar
    unfolding Authorize_def [abs_def] using az by (rule calm_authorize_scopes)
  show "ok w' \<and> (\<forall>m. r \<noteq> Inl (Panic m))"
  proof (cases "ParseRequest (sv_Server sv) req")
    case (Inl st)
    then show ?thesis using parse run w by (cases st) (auto simp: doAuth_def)
  next
    case (Inr ar)
    obtain ra w1 where ra: "Authenticate (sv_authenticators sv) ar w = (ra, w1)"
      by (cases "Authenticate (sv_authenticators sv) ar w")
    have w1: "ok w1" "\<And>m. ra \<noteq> Inl (Panic m)" using calmD [OF a w ra] by auto
    show ?thesis
    proof (cases ra)
      case (Inl st)
      then show ?thesis using run Inr ra w1 by (cases st) (auto simp: doAuth_def)
    next
      case res: (Inr res)
      let ?ar1 = "ar\<lparr>rq_Labels := ar_Labels res, rq_AuthenticatorData := ar_Data res\<rparr>"
      obtain rz w2 where rz: "(if length (rq_Scopes ?ar1) > 0 then Authorize (sv_authorizers sv) ?ar1 w1 else (Inr [], w1)) = (rz, w2)"
        by (cases "if length (rq_Scopes ?ar1) > 0 then Authorize (sv_authorizers sv) ?ar1 w1 else (Inr [], w1)")
      have w2: "ok w2" "\<And>m. rz \<noteq> Inl (Panic m)"
        using rz w1 calmD [OF z w1(1), of ?ar1 rz w2] by (auto split: if_splits)
      show ?thesis
        using run Inr ra res w1 rz w2 send_token_no_panic [OF key]
        by (cases rz; cases "projl rz") (auto simp: doAuth_def Let_def split: if_splits)
    qed
  qed
qed
lemma acl_no_panic:
  assumes "ValidateACL acl = Inr None" "\<forall>e \<in> set acl. e_Actions e \<noteq> None"
  shows "acl_decide title rank acl ai \<noteq> Inl (Panic m)"
proof -
  have "\<forall>e \<in> set acl. \<exists>b. e_Matches title e ai = Inr b"
    using assms(1) by (auto simp: ValidateACL_ok intro!: validated_entry_total)
  then show ?thesis using acl_decide_Panic [of acl title ai rank m] assms(2) by (auto simp: first_split_def)
qed

lemma k8s_Authenticate_no_panic: "fst (k8s_Authenticate cfg ta user password w) \<noteq> Inl (Panic m)"
  by (auto simp: k8s_Authenticate_def Let_def split: prod.splits option.splits if_splits)

lemma NewKubernetesAuth_Inr:
  "NewKubernetesAuth loader new_client api token_cache (Some k) = Inr a \<Longrightarrow> \<exists>ta. a = k8s_Authenticate k ta"
  by (auto simp: NewKubernetesAuth_def split: sum.splits)

lemma calm_world_authn:
  assumes "\<And>s x. ok s \<Longrightarrow> ok (s\<lparr>ks_world := x\<rparr>)" "\<And>x m. fst (f u p x) \<noteq> Inl (Panic m)"
  shows "calm ok (world_authn f u p)"
proof (rule calmI)
  fix w r w' assume w: "ok w" and run: "world_authn f u p w = (r, w')"
  obtain q x where q: "f u p (ks_world w) = (q, x)" by (cases "f u p (ks_world w)")
  then have "r = q" "w' = w\<lparr>ks_world := x\<rparr>" using run by (simp_all add: world_authn_def on_world_def)
  then show "ok w' \<and> (\<forall>m. r \<noteq> Inl (Panic m))" using assms(1) [OF w] assms(2) [of "ks_world w"] q by simp
qed

lemma calm_acl:
  assumes "ValidateACL acl = Inr None" "\<forall>e \<in> set acl. e_Actions e \<noteq> None"
  shows "calm ok (acl_Authorize title rank acl ai)"
  using acl_no_panic [OF assms] by (intro calmI) (auto simp: acl_Authorize_def)

lemma no_panic_answers:
  "fst (ns_Exists get nf ns x) \<noteq> Inl (Panic m)" "Inl (Panic m) \<noteq> fst (ns_Exists get nf ns x)"
  "Inl (Panic m) \<noteq> fst (GetRules api fetcher u ns x)"
  "\<not> key_legit Pair (api_rules_legit api fetcher) key (Inl (Panic m))"
proof -
  show n: "Inl (Panic m) \<noteq> fst (ns_Exists get nf ns x)"
    by (auto simp: ns_Exists_def split: prod.splits option.splits if_splits)
  then show "fst (ns_Exists get nf ns x) \<noteq> Inl (Panic m)" by metis
  have g: "Inl (Panic m) \<noteq> fst (GetRules api fetcher u ns x)" for u ns x
    by (auto simp: GetRules_def split: prod.splits sum.splits)
  then show "Inl (Panic m) \<noteq> fst (GetRules api fetcher u ns x)" .
  show "\<not> key_legit Pair (api_rules_legit api fetcher) key (Inl (Panic m))"
    using g by (auto simp: key_legit_def split: option.splits)
qed

text \<open>Every server without plugins has an invariant of its state under which all its parts are calm.\<close>

lemma server_calm:
  fixes ext :: "('q, 'r, 'cl, 'x) externals"
  assumes "NewAuthServer ext c = Inr sv" "cf_PluginAuthn c = None" "cf_PluginAuthz c = None"
    and "\<forall>acl. cf_ACL c = Some acl \<longrightarrow> (\<forall>e \<in> set acl. e_Actions e \<noteq> None)"
  obtains ok where "\<And>x. ok (kube_start x)" "\<And>u p. \<forall>a \<in> set (sv_authenticators sv). calm ok (a u p)"
    "\<And>ai. \<forall>a \<in> set (sv_authorizers sv). calm ok (a ai)" "\<And>s x. ok s \<Longrightarrow> ok (s\<lparr>ks_world := x\<rparr>)"
proof -
  obtain acl_azs kube_ans kube_azs where
    p: "static_authorizers ext (cf_ACL c) = Inr acl_azs" "kubernetes_parts ext (cf_KubernetesAuth c) = Inr (kube_ans, kube_azs)"
    and sv: "sv_authenticators sv = static_authenticators ext (cf_Users c) @ kube_ans" "sv_authorizers sv = acl_azs @ kube_azs"
    using assms(1-3) unfolding NewAuthServer_Inr plugin_authorizers_Inr plugin_authenticators_Inr by auto
  have acl: "calm ok (a ai)" if "a \<in> set acl_azs" for ok a ai
    using p(1) that assms(4) by (auto simp: static_authorizers_Inr intro!: calm_acl)
  have users: "calm ok (a u q)" if "a \<in> set (static_authenticators ext (cf_Users c))" for ok a u q
    using that by (auto simp: static_authenticators_def static_Authenticate_def static_result_def calm_def
        split: option.splits if_splits)
  have kan: "calm ok (a u q)" if a: "a \<in> set kube_ans" and w: "\<And>s x. ok s \<Longrightarrow> ok (s\<lparr>ks_world := x\<rparr>)" for ok a u q
  proof -
    obtain k :: "'q auth_config" and ta where "a = world_authn (k8s_Authenticate k ta)"
      using p(2) a by (auto simp: kubernetes_parts_Inr dest!: NewKubernetesAuth_Inr)
    then show ?thesis
      using calm_world_authn [of ok, OF w k8s_Authenticate_no_panic] by simp
  qed
  from p(2) consider "kube_azs = []" | k ka where "kc_Authz k \<noteq> None" "NewKubernetesAuthz (ex_kube ext) (Some k) = Inr ka"
      "kube_azs = [kube_Authorize (ex_glob ext) ka]"
    unfolding kubernetes_parts_Inr kubernetes_authorizers_Inr by blast
  then show ?thesis
  proof cases
    case 1
    show ?thesis
    proof (rule that [of "\<lambda>_. True"])
      show "\<forall>a \<in> set (sv_authenticators sv). calm (\<lambda>_. True) (a u q)" for u q
        by (auto simp: sv intro: users kan)
      show "\<forall>a \<in> set (sv_authorizers sv). calm (\<lambda>_. True) (a ai)" for ai
        using 1 by (auto simp: sv intro: acl)
    qed simp_all
  next
    case (2 k ka)
    obtain rc fetcher checker where ka: "ka = cached_authz (ex_kube ext) k checker fetcher"
      using 2(2) by (auto simp: NewKubernetesAuthz_def split: sum.splits if_splits)
    let ?ok = "kube_ok (ex_kube ext) checker fetcher"
    have authz: "kc_Authz (ka_cfg ka) \<noteq> None" using 2(1) by (simp add: ka cached_authz_def)
    have kube: "calm ?ok (kube_Authorize (ex_glob ext) ka ai)" for ai
    proof (rule calmI)
      fix w r w' assume w: "?ok w" and run: "kube_Authorize (ex_glob ext) ka ai w = (r, w')"
      have "?ok w'" using w run unfolding ka by (rule kube_model.authorize_ok)
      moreover have "fst (kube_Authorize (ex_glob ext) ka ai w) \<noteq> Inl (Panic m)" for m
        using w authz unfolding ka
        by (rule kube_model.authorize_no_panic) (auto simp: no_panic_answers)
      ultimately show "?ok w' \<and> (\<forall>m. r \<noteq> Inl (Panic m))" using run by auto
    qed
    show ?thesis
    proof (rule that [of ?ok])
      show "\<forall>a \<in> set (sv_authenticators sv). calm ?ok (a u q)" for u q
        by (auto simp: sv kube_ok_world intro: users kan)
      show "\<forall>a \<in> set (sv_authorizers sv). calm ?ok (a ai)" for ai
        using 2(3) kube by (auto simp: sv intro: acl)
    qed (simp_all add: kube_ok_start kube_ok_world)
  qed
qed

lemma server_calm_ex:
  fixes ext :: "('q, 'r, 'cl, 'x) externals"
  assumes "NewAuthServer ext c = Inr sv" "cf_PluginAuthn c = None" "cf_PluginAuthz c = None"
    and "\<forall>acl. cf_ACL c = Some acl \<longrightarrow> (\<forall>e \<in> set acl. e_Actions e \<noteq> None)"
  shows "\<exists>ok. (\<forall>x. ok (kube_start x)) \<and> (\<forall>u p. \<forall>a \<in> set (sv_authenticators sv). calm ok (a u p)) \<and>
    (\<forall>ai. \<forall>a \<in> set (sv_authorizers sv). calm ok (a ai)) \<and> (\<forall>s x. ok s \<longrightarrow> ok (s\<lparr>ks_world := x\<rparr>))"
proof (rule server_calm [OF assms])
  fix ok
  assume "\<And>x. ok (kube_start x)" "\<And>u p. \<forall>a \<in> set (sv_authenticators sv). calm ok (a u p)"
    "\<And>ai. \<forall>a \<in> set (sv_authorizers sv). calm ok (a ai)" "\<And>s x. ok s \<Longrightarrow> ok (s\<lparr>ks_world := x\<rparr>)"
  then show ?thesis by (intro exI [of _ ok] conjI allI impI)
qed

text \<open>The requests a server has answered, one after the other, each with its clock and random number.\<close>

definition serve_all ::
  "('pub, 'prv, 'w) auth_server \<Rightarrow> ('prv token_env \<times> http_request) list \<Rightarrow> 'w \<Rightarrow> http_response go list \<times> 'w" where
  "serve_all sv = call_all (\<lambda>(env, req). ServeHTTP sv env req)"

lemma calm_ServeHTTP:
  assumes "\<And>env rw. calm ok (doAuth sv env req rw)"
  shows "calm ok (ServeHTTP sv env req)"
  using assms by (auto simp: calm_def ServeHTTP_def Let_def)

lemma serve_all_ok:
  "(\<And>env req. calm ok (ServeHTTP sv env req)) \<Longrightarrow> ok w \<Longrightarrow> Inl (Panic m) \<notin> set (fst (serve_all sv reqs w))"
proof (induction reqs arbitrary: w)
  case (Cons q reqs)
  obtain env req where q: "q = (env, req)" by (cases q)
  obtain r w1 where e: "ServeHTTP sv env req w = (r, w1)" by (cases "ServeHTTP sv env req w")
  have c: "ok w1 \<and> (\<forall>m. r \<noteq> Inl (Panic m))"
    using Cons.prems(1) [of env req] Cons.prems(2) e unfolding calm_def by blast
  then have "Inl (Panic m) \<notin> set (fst (serve_all sv reqs w1))" using Cons by blast
  then show ?case using c by (auto simp: serve_all_def q e split: prod.split)
qed (simp add: serve_all_def)

lemma loaded_key: "LoadConfig src vl kt file = Inr c \<Longrightarrow> tc_privateKey (cf_Token c) \<noteq> None"
  using LoadConfig_keys by fastforce

lemma parse_panic:
  "sc_RealIPHeader sc = [] \<or> sc_RealIPPos sc \<le> 0 \<Longrightarrow> ParseRequest sc req \<noteq> Inl (Panic m)"
  using ParseRequest_panic [of sc req] by auto

text \<open>
  A server with a loaded configuration and without plugins answers every request of every sequence of
  requests, whatever the clients send and the Kubernetes API does, without a panic, if every
  entry of its access list has a list of actions and a client address read from a header is
  counted from the end or is the first one.
\<close>

theorem loaded_server_no_panic:
  assumes "LoadConfig src vl kt file = Inr c" and "NewAuthServer ext c = Inr sv"
    and "cf_PluginAuthn c = None" "cf_PluginAuthz c = None"
    and "\<forall>acl. cf_ACL c = Some acl \<longrightarrow> (\<forall>e \<in> set acl. e_Actions e \<noteq> None)"
    and "sc_RealIPHeader (cf_Server c) = [] \<or> sc_RealIPPos (cf_Server c) \<le> 0"
  shows "Inl (Panic m) \<notin> set (fst (serve_all sv reqs (kube_start x)))"
proof -
  obtain ok where ok: "\<forall>u p. \<forall>a \<in> set (sv_authenticators sv). calm ok (a u p)"
    "\<forall>ai. \<forall>a \<in> set (sv_authorizers sv). calm ok (a ai)" "\<forall>x. ok (kube_start x)"
    using server_calm_ex [OF assms(2-5)] by (elim exE conjE, intro that)
  have sv: "sv_Server sv = cf_Server c" "sv_Token sv = cf_Token c" using assms(2) unfolding NewAuthServer_Inr by auto
  have key: "tc_privateKey (sv_Token sv) \<noteq> None" using loaded_key [OF assms(1)] by (simp add: sv)
  have parse: "ParseRequest (sv_Server sv) req \<noteq> Inl (Panic m)" for req m
    using assms(6) by (auto simp: sv parse_panic)
  have "calm ok (ServeHTTP sv env req)" for env req
    by (rule calm_ServeHTTP, rule calm_doAuth [OF spec [OF spec [OF ok(1)]] spec [OF ok(2)] key parse])
  then show ?thesis using spec [OF ok(3)] by (rule serve_all_ok)
qed

section \<open>Concrete servers\<close>

definition test_ext :: "(unit, unit, string, int) externals" where
  "test_ext = \<lparr>ex_bcrypt = (\<lambda>h p. if h = p then None else Some (Errorf ''mismatch'' [])),
     ex_authn = (\<lambda>p. Inl (Errorf ''no plugin'' [])), ex_authz = (\<lambda>p. Inl (Errorf ''no plugin'' [])),
     ex_kube = test_kube_api,
     ex_tokens = \<lparr>ta_rest = (\<lambda>c t a x. ((expired, 201, None), x)), ta_backoff = (\<lambda>f. f),
       ta_intersect = (\<lambda>a b. filter (List.member b) a), ta_record = (\<lambda>c x. x)\<rparr>,
     ex_token_cache = (\<lambda>s f t. t), ex_glob = exact_glob, ex_title = id, ex_rank = (\<lambda>s a. 0),
     ex_metrics = (\<lambda>req rw. rw)\<rparr>"

lemma test_ext_parts:
  "ex_kube test_ext = test_kube_api" "ex_glob test_ext = exact_glob"
  "ra_new_client (kb_rules test_kube_api) rc = Inr (rc_BearerToken rc)"
  "BuildRestConfig (kb_loader test_kube_api) test_config = Inr test_rest_config"
  by (simp_all add: test_ext_def test_kube_api_def BuildRestConfig_def initRestConfig_def test_config_def test_rest_config_def)

lemma test_server_parts:
  assumes "ValidateACL acl = Inr None"
  shows "\<exists>sv. NewAuthServer test_ext (test_loaded\<lparr>cf_ACL := Some acl\<rparr>) = Inr sv \<and>
    tl (sv_authorizers sv) = [kube_Authorize exact_glob test_kube_authz]"
proof -
  have "kc_Authz test_config \<noteq> None" by (simp add: test_config_def)
  then have "kubernetes_authorizers test_ext test_config = Inr [kube_Authorize exact_glob test_kube_authz]"
    by (simp add: kubernetes_authorizers_def test_kube_authz_made test_ext_parts)
  then have "\<exists>ans. kubernetes_parts test_ext (Some test_config) = Inr (ans, [kube_Authorize exact_glob test_kube_authz])"
    by (simp add: kubernetes_parts_def NewKubernetesAuth_def NewTokenReviewer_def test_ext_parts)
  moreover have "cf_KubernetesAuth test_loaded = Some test_config"
    "cf_PluginAuthn test_loaded = None" "cf_PluginAuthz test_loaded = None"
    by (simp_all add: test_loaded_def test_config_file_def)
  ultimately show ?thesis
    using assms
    by (auto simp: NewAuthServer_def static_authorizers_def plugin_authenticators_def plugin_authorizers_def
        NewACLAuthorizer_def)
qed

lemma test_server_starts: "\<exists>sv. NewAuthServer test_ext test_loaded = Inr sv"
proof -
  have "ValidateACL [] = Inr None" by simp
  moreover have "test_loaded\<lparr>cf_ACL := Some []\<rparr> = test_loaded" by (simp add: test_loaded_def test_config_file_def)
  ultimately show ?thesis using test_server_parts [of "[]"] by auto
qed

lemma loaded_server_no_panic_witness:
  "\<exists>sv. NewAuthServer test_ext test_loaded = Inr sv \<and>
     Inl (Panic nil_deref) \<notin> set (fst (serve_all sv [(test_env, bob_request)] (kube_start 0)))"
proof -
  obtain sv where sv: "NewAuthServer test_ext test_loaded = Inr sv" using test_server_starts by blast
  have "Inl (Panic nil_deref) \<notin> set (fst (serve_all sv [(test_env, bob_request)] (kube_start 0)))"
    using loaded_server_no_panic [OF test_config_loads sv]
    by (simp add: test_loaded_def test_config_file_def)
  then show ?thesis using sv by blast
qed

definition test_plugins :: "(int authn_fn, int authz_fn) validators" where
  "test_plugins = \<lparr>vl_required = vl_required test_validators, vl_authn = ex_authn test_ext, vl_authz = ex_authz test_ext\<rparr>"

lemma valid_config_starts_witness:
  "\<exists>sv. NewAuthServer test_ext test_loaded = Inr sv \<and> sv_authenticators sv \<noteq> [] \<and> sv_authorizers sv \<noteq> []"
proof -
  have "valid_config test_plugins test_loaded"
    by (simp add: valid_config_def test_loaded_def test_config_file_def test_config_def test_plugins_def
        test_validators_def second_def minute_def)
  from valid_config_starts [OF this, of test_ext] show ?thesis
    using test_server_starts by (auto simp: test_plugins_def)
qed

text \<open>Scenario 3 of docs/auth-methods.md: the access list denies, the Kubernetes rules alone would grant.\<close>

definition deny_all :: acl_entry where
  "deny_all = \<lparr>e_Match = Some any_conditions, e_Actions = Some [], e_Comment = None\<rparr>"

lemma deny_all_matches: "ValidateACL [deny_all] = Inr None \<and> e_Matches id deny_all test_push = Inr True"
  by code_simp

lemma acl_before_others_witness:
  "\<exists>sv w'. NewAuthServer test_ext (test_loaded\<lparr>cf_ACL := Some [deny_all]\<rparr>) = Inr sv \<and>
     authorizeScope (tl (sv_authorizers sv)) test_push (kube_start 0) = (Inr (Some [''push'']), w') \<and>
     authorizeScope (sv_authorizers sv) test_push (kube_start 0) = (Inr (Some []), kube_start 0)"
proof -
  have v: "ValidateACL [deny_all] = Inr None" and m: "e_Matches (ex_title test_ext) deny_all test_push = Inr True"
    using deny_all_matches by (simp_all add: test_ext_def)
  obtain sv where sv: "NewAuthServer test_ext (test_loaded\<lparr>cf_ACL := Some [deny_all]\<rparr>) = Inr sv"
    "tl (sv_authorizers sv) = [kube_Authorize exact_glob test_kube_authz]"
    using test_server_parts [OF v] by blast
  obtain w' where w': "kube_Authorize exact_glob test_kube_authz test_push (kube_start 0) = (Inr (Some [''push'']), w')"
    using test_push_granted by blast
  have acl: "cf_ACL (test_loaded\<lparr>cf_ACL := Some [deny_all]\<rparr>) = Some [deny_all]" by simp
  have "authorizeScope (sv_authorizers sv) test_push (kube_start 0) = (Inr (Some []), kube_start 0)"
    using acl_before_others [OF sv(1) acl, of test_push _ "kube_start 0" "[]" deny_all "[]"] m by (simp add: deny_all_def)
  moreover have "authorizeScope (tl (sv_authorizers sv)) test_push (kube_start 0) = (Inr (Some [''push'']), w')"
    by (simp add: sv(2) authorizeScope_def w')
  ultimately show ?thesis using sv(1) by blast
qed

definition bob_tc :: "(unit, unit) token_config" where
  "bob_tc = test_token\<lparr>tc_CertFile := ''token.pem'', tc_KeyFile := ''token.key''\<rparr>"

lemma bob_tc_token: "CreateToken bob_tc test_env bob_ar [] = Inr bob_token"
  by (simp add: CreateToken_Inr bob_tc_def test_token_def test_env_def bob_token_def token_claims_def bob_ar_def)

definition bob_config :: "(unit, unit, unit) config" where
  "bob_config = \<lparr>cf_Server = test_server, cf_Token = bob_tc,
     cf_Users = Some [(''bob'', Some \<lparr>rq_PasswordHash = Some ''pw'', rq_ReqLabels = []\<rparr>)], cf_KubernetesAuth = None,
     cf_PluginAuthn = None, cf_ACL = Some [], cf_PluginAuthz = None\<rparr>"

definition bob_sv :: "(unit, unit, int kube_state) auth_server" where
  "bob_sv = \<lparr>sv_Server = test_server, sv_Token = bob_tc,
     sv_authenticators = [static_Authenticate (ex_bcrypt test_ext) [(''bob'', Some \<lparr>rq_PasswordHash = Some ''pw'', rq_ReqLabels = []\<rparr>)]],
     sv_authorizers = [acl_Authorize (ex_title test_ext) (ex_rank test_ext) []], sv_metrics = ex_metrics test_ext\<rparr>"

lemma bob_sv_starts: "NewAuthServer test_ext bob_config = Inr bob_sv"
  by (simp add: NewAuthServer_def bob_config_def static_authorizers_def NewACLAuthorizer_def plugin_authenticators_def
      plugin_authorizers_def kubernetes_parts_def static_authenticators_def NewStaticUserAuth_def bob_sv_def)

lemma bob_sv_answer:
  "doAuth bob_sv test_env bob_request new_response (kube_start 0) =
     (Inr \<lparr>rs_Status = 200, rs_Header = [(''Content-Type'', [''application/json''])],
           rs_Body = TextBody (token_json bob_token)\<rparr>, kube_start 0)"
proof -
  have p: "ParseRequest test_server bob_request = Inr bob_ar"
    using bob_parsed by (simp add: bob_ar_def)
  have a: "Authenticate (sv_authenticators bob_sv) bob_ar (kube_start 0) =
      (Inr \<lparr>ar_Authenticated = True, ar_Labels = [], ar_Data = AnyNil\<rparr>, kube_start 0)"
    by (simp add: Authenticate_def bob_sv_def static_Authenticate_def static_result_def bob_ar_def test_ext_def)
  have l: "bob_ar\<lparr>rq_Labels := [], rq_AuthenticatorData := AnyNil\<rparr> = bob_ar" "rq_Scopes bob_ar = []"
    by (simp_all add: bob_ar_def)
  have s: "sv_Server bob_sv = test_server" "sv_Token bob_sv = bob_tc" by (simp_all add: bob_sv_def)
  show ?thesis
    unfolding doAuth_def s p a sum.case prod.case auth_result.select_convs Let_def l send_token_def
    by (simp add: bob_tc_token header_set_def new_response_def)
qed

lemma server_grants_requested_witness:
  "\<exists>ar ares tok. ParseRequest test_server bob_request = Inr ar \<and>
     CreateToken bob_tc test_env ar ares = Inr tok \<and> token_json bob_token = token_json tok"
proof -
  have "\<forall>p a. lookupAuthzSymbol (ex_authz test_ext) p = Inr a \<longrightarrow> authorizer a"
    by (simp add: lookupAuthzSymbol_def test_ext_def)
  from server_grants_requested [OF bob_sv_starts this bob_sv_answer] show ?thesis
    by (auto simp: bob_config_def)
qed

end
