(* ===== verification/Server_Concurrent.thy ===== *)
theory Server_Concurrent
  imports Server_Start
begin

text \<open>
  Concurrent requests to the handlers of \<^verbatim>\<open>server/server.go\<close>. \<^verbatim>\<open>net/http\<close> runs \<^verbatim>\<open>ServeHTTP\<close> in a
  goroutine for each request; what they share is the state of the authenticators and
  authorizers. A request is cut at every call of one of them: between two calls other requests
  go on and the cluster may change. The parts in between work on the request alone. A panic
  ends its own request, as \<^verbatim>\<open>net/http\<close> recovers from it; the others go on.
\<close>

section \<open>The phases of a request\<close>

datatype 'w request_phase =
    Received
  | Authenticating http_response auth_request "'w authn_fn list"
  | Authorizing http_response auth_request "authz_result list" auth_scope "'w authz_fn list" "auth_scope list"
  | Responded "http_response go"

text \<open>From the routing of \<^verbatim>\<open>ServeHTTP\<close> to the first authenticator.\<close>

definition parse_phase ::
  "('pub, 'prv, 'w) auth_server \<Rightarrow> http_request \<Rightarrow> http_response \<Rightarrow> 'w request_phase" where
  "parse_phase as req rw =
     (case ParseRequest (sv_Server as) req of
        Inl (Panic m) \<Rightarrow> Responded (Inl (Panic m))
      | Inl (Err e) \<Rightarrow> Responded (Inr (http_error rw (ErrorBody ''Bad request'' (Some e)) 400))
      | Inr ar \<Rightarrow> Authenticating rw ar (sv_authenticators as))"

definition receive :: "('pub, 'prv, 'w) auth_server \<Rightarrow> http_request \<Rightarrow> 'w request_phase" where
  "receive as req =
     (let path_prefix = sc_PathPrefix (sv_Server as);
          rw = (if sc_HSTS (sv_Server as)
                then header_add ''Strict-Transport-Security'' ''max-age=63072000; includeSubDomains'' new_response
                else new_response)
      in if hr_Path req = path_prefix @ ''/'' then Responded (Inr (doIndex as rw))
         else if hr_Path req = path_prefix @ ''/metrics'' then Responded (Inr (doMetrics as req rw))
         else if hr_Path req = path_prefix @ ''/auth'' then parse_phase as req rw
         else if hr_Path req = path_prefix @ ''/auth/token'' then parse_phase as req rw
         else Responded (Inr (http_error rw (TextBody ''Not found'') 404)))"

text \<open>From one scope to the next, and to the token after the last.\<close>

fun next_scope ::
  "('pub, 'prv, 'w) auth_server \<Rightarrow> 'prv token_env \<Rightarrow> http_response \<Rightarrow> auth_request \<Rightarrow> authz_result list \<Rightarrow>
   auth_scope list \<Rightarrow> 'w request_phase" where
  "next_scope as env rw ar ares [] = Responded (send_token as env ar ares rw)"
| "next_scope as env rw ar ares (scope # scopes) = Authorizing rw ar ares scope (sv_authorizers as) scopes"

definition authenticated_phase ::
  "('pub, 'prv, 'w) auth_server \<Rightarrow> 'prv token_env \<Rightarrow> http_response \<Rightarrow> auth_request \<Rightarrow> auth_result \<Rightarrow>
   'w request_phase" where
  "authenticated_phase as env rw ar authnRes =
     (if \<not> ar_Authenticated authnRes then Responded (Inr (unauthorized as (TextBody ''Auth failed.'') rw))
      else next_scope as env rw (ar\<lparr>rq_Labels := ar_Labels authnRes, rq_AuthenticatorData := ar_Data authnRes\<rparr>) []
             (rq_Scopes ar))"

text \<open>One step: a call of an authenticator or an authorizer, and what follows it.\<close>

fun request_step ::
  "('pub, 'prv, 'w) auth_server \<Rightarrow> 'prv token_env \<Rightarrow> http_request \<Rightarrow> 'w request_phase \<Rightarrow> 'w \<Rightarrow>
   'w request_phase \<times> 'w" where
  "request_step as env req Received w = (receive as req, w)"
| "request_step as env req (Authenticating rw ar []) w = (authenticated_phase as env rw ar zero_result, w)"
| "request_step as env req (Authenticating rw ar (a # ans)) w =
     (case a (rq_Account ar) (rq_Password ar) w of
        (Inr res, w') \<Rightarrow> (authenticated_phase as env rw ar res, w')
      | (Inl (Panic m), w') \<Rightarrow> (Responded (Inl (Panic m)), w')
      | (Inl (Err e), w') \<Rightarrow>
          (if errors_is e NoMatch then (Authenticating rw ar ans, w')
           else (Responded (Inr (authn_failure as (Errorf ''authn returned error'' [e]) rw)), w')))"
| "request_step as env req (Authorizing rw ar ares scope [] scopes) w =
     (next_scope as env rw ar (ares @ [\<lparr>az_scope = scope, az_actions = None\<rparr>]) scopes, w)"
| "request_step as env req (Authorizing rw ar ares scope (a # azs) scopes) w =
     (case a (scope_info ar scope) w of
        (Inr actions, w') \<Rightarrow>
          (next_scope as env rw ar (ares @ [\<lparr>az_scope = scope, az_actions = actions\<rparr>]) scopes, w')
      | (Inl (Panic m), w') \<Rightarrow> (Responded (Inl (Panic m)), w')
      | (Inl (Err e), w') \<Rightarrow>
          (if errors_is e NoMatch then (Authorizing rw ar ares scope azs scopes, w')
           else (Responded (Inr (http_error rw
                   (ErrorBody ''Authorization failed'' (Some (Errorf ''authz returned error'' [e]))) 500)), w')))"
| "request_step as env req (Responded r) w = (Responded r, w)"

section \<open>One request alone\<close>

text \<open>What the sequential handler does from a phase on.\<close>

definition authz_rest ::
  "('pub, 'prv, 'w) auth_server \<Rightarrow> 'prv token_env \<Rightarrow> http_response \<Rightarrow> auth_request \<Rightarrow> authz_result list \<Rightarrow>
   authz_result list go \<times> 'w \<Rightarrow> http_response go \<times> 'w" where
  "authz_rest as env rw ar done r =
     (case r of
        (Inl (Panic m), w) \<Rightarrow> (Inl (Panic m), w)
      | (Inl (Err e), w) \<Rightarrow> (Inr (http_error rw (ErrorBody ''Authorization failed'' (Some e)) 500), w)
      | (Inr ares, w) \<Rightarrow> (send_token as env ar (done @ ares) rw, w))"

definition authn_rest ::
  "('pub, 'prv, 'w) auth_server \<Rightarrow> 'prv token_env \<Rightarrow> http_response \<Rightarrow> auth_request \<Rightarrow>
   auth_result go \<times> 'w \<Rightarrow> http_response go \<times> 'w" where
  "authn_rest as env rw ar r =
     (case r of
        (Inl (Panic m), w) \<Rightarrow> (Inl (Panic m), w)
      | (Inl (Err e), w) \<Rightarrow> (Inr (authn_failure as e rw), w)
      | (Inr res, w) \<Rightarrow>
          (if \<not> ar_Authenticated res then (Inr (unauthorized as (TextBody ''Auth failed.'') rw), w)
           else let ar1 = ar\<lparr>rq_Labels := ar_Labels res, rq_AuthenticatorData := ar_Data res\<rparr> in
             authz_rest as env rw ar1 [] (authorize_scopes (sv_authorizers as) ar1 (rq_Scopes ar) w)))"

fun phase_result ::
  "('pub, 'prv, 'w) auth_server \<Rightarrow> 'prv token_env \<Rightarrow> http_request \<Rightarrow> 'w request_phase \<Rightarrow> 'w \<Rightarrow>
   http_response go \<times> 'w" where
  "phase_result as env req Received w = ServeHTTP as env req w"
| "phase_result as env req (Authenticating rw ar ans) w = authn_rest as env rw ar (Authenticate ans ar w)"
| "phase_result as env req (Authorizing rw ar ares scope azs scopes) w =
     (case authorizeScope azs (scope_info ar scope) w of
        (Inl st, w') \<Rightarrow> authz_rest as env rw ar ares (Inl st, w')
      | (Inr actions, w') \<Rightarrow>
          authz_rest as env rw ar (ares @ [\<lparr>az_scope = scope, az_actions = actions\<rparr>])
            (authorize_scopes (sv_authorizers as) ar scopes w'))"
| "phase_result as env req (Responded r) w = (r, w)"

lemma next_scope_result:
  "phase_result as env req (next_scope as env rw ar done scopes) w =
   authz_rest as env rw ar done (authorize_scopes (sv_authorizers as) ar scopes w)"
  by (cases scopes) (auto simp: authz_rest_def split: prod.split sum.split go_stop.split)

lemma authenticated_result:
  "phase_result as env req (authenticated_phase as env rw ar res) w = authn_rest as env rw ar (Inr res, w)"
  by (simp add: authenticated_phase_def authn_rest_def next_scope_result Let_def)

lemma doAuth_rest: "doAuth as env req rw w = phase_result as env req (parse_phase as req rw) w"
  by (auto simp: doAuth_def parse_phase_def authn_rest_def authz_rest_def Authorize_def Let_def
      split: prod.split sum.split go_stop.split)

lemma step_result:
  "request_step as env req p w = (p', w') \<Longrightarrow> phase_result as env req p' w' = phase_result as env req p w"
proof (induction as env req p w rule: request_step.induct)
  case (1 as env req w)
  then show ?case by (auto simp: receive_def ServeHTTP_def doAuth_rest Let_def)
next
  case (2 as env req rw ar w)
  then show ?case by (auto simp: authenticated_result Authenticate_def)
next
  case (3 as env req rw ar a ans w)
  then show ?case
    by (auto simp: authenticated_result Authenticate_def authn_rest_def
        split: prod.splits sum.splits go_stop.splits if_splits)
next
  case (4 as env req rw ar ares scope scopes w)
  then show ?case by (auto simp: next_scope_result authorizeScope_def)
next
  case (5 as env req rw ar ares scope a azs scopes w)
  then show ?case
    by (auto simp: next_scope_result authorizeScope_def authz_rest_def
        split: prod.splits sum.splits go_stop.splits if_splits)
qed auto


text \<open>What is left of a request: at most this many further calls.\<close>

fun phase_cost :: "('pub, 'prv, 'w) auth_server \<Rightarrow> http_request \<Rightarrow> 'w request_phase \<Rightarrow> nat" where
  "phase_cost as req Received =
     (case receive as req of
        Authenticating rw ar ans \<Rightarrow>
          2 + length ans + length (rq_Scopes ar) * Suc (length (sv_authorizers as))
      | _ \<Rightarrow> 1)"
| "phase_cost as req (Authenticating rw ar ans) =
     1 + length ans + length (rq_Scopes ar) * Suc (length (sv_authorizers as))"
| "phase_cost as req (Authorizing rw ar ares scope azs scopes) =
     1 + length azs + length scopes * Suc (length (sv_authorizers as))"
| "phase_cost as req (Responded r) = 0"

lemma next_scope_cost:
  "phase_cost as req (next_scope as env rw ar ares scopes) \<le> length scopes * Suc (length (sv_authorizers as))"
  by (cases scopes) auto

lemma authenticated_cost:
  "phase_cost as req (authenticated_phase as env rw ar res) \<le>
   length (rq_Scopes ar) * Suc (length (sv_authorizers as))"
  unfolding authenticated_phase_def using next_scope_cost [of as req env rw _ "[]" "rq_Scopes ar"] by simp

lemma receive_cost: "phase_cost as req (receive as req) < phase_cost as req Received"
  by (auto simp: receive_def parse_phase_def Let_def split: sum.split go_stop.split)

lemma phase_cost_zero [simp]: "phase_cost as req p = 0 \<longleftrightarrow> (\<exists>r. p = Responded r)"
  by (cases p) (auto split: request_phase.split)

text \<open>Every step of an open request brings it closer to its answer, whatever the shared state is.\<close>

lemma step_cost:
  "request_step as env req p w = (p', w') \<Longrightarrow> phase_cost as req p' < phase_cost as req p \<or> (\<exists>r. p = Responded r)"
proof (induction as env req p w rule: request_step.induct)
  case (1 as env req w)
  then show ?case using receive_cost [of as req] by auto
next
  case (2 as env req rw ar w)
  then show ?case using authenticated_cost [of as req env rw ar zero_result] by auto
next
  case (3 as env req rw ar a ans w)
  have "phase_cost as req (authenticated_phase as env rw ar res) < phase_cost as req (Authenticating rw ar (a # ans))" for res
    using authenticated_cost [of as req env rw ar res] by simp
  with 3 show ?case by (auto split: prod.splits sum.splits go_stop.splits if_splits)
next
  case (4 as env req rw ar ares scope scopes w)
  then show ?case
    using next_scope_cost [of as req env rw ar "ares @ [\<lparr>az_scope = scope, az_actions = None\<rparr>]" scopes] by auto
next
  case (5 as env req rw ar ares scope a azs scopes w)
  have "phase_cost as req (next_scope as env rw ar ares' scopes) <
      phase_cost as req (Authorizing rw ar ares scope (a # azs) scopes)" for ares'
    using next_scope_cost [of as req env rw ar ares' scopes] by simp
  with 5 show ?case by (auto split: prod.splits sum.splits go_stop.splits if_splits)
qed auto

section \<open>A request among others\<close>

text \<open>
  The phase of one request after a sequence of its steps, each on the shared state it finds:
  \<^verbatim>\<open>request_after\<close> takes these states, whatever others made of them in between.
\<close>

definition phase_step ::
  "('pub, 'prv, 'w) auth_server \<Rightarrow> 'prv token_env \<Rightarrow> http_request \<Rightarrow> 'w \<Rightarrow> 'w request_phase \<Rightarrow>
   'w request_phase" where
  "phase_step as env req w p = fst (request_step as env req p w)"

definition request_after ::
  "('pub, 'prv, 'w) auth_server \<Rightarrow> 'prv token_env \<Rightarrow> http_request \<Rightarrow> 'w list \<Rightarrow> 'w request_phase" where
  "request_after as env req ws = fold (phase_step as env req) ws Received"

lemma phase_step_responded [simp]: "phase_step as env req w (Responded r) = Responded r"
  by (simp add: phase_step_def)

lemma fold_responded [simp]: "fold (phase_step as env req) ws (Responded r) = Responded r"
  by (induction ws) auto

lemma fold_cost:
  "phase_cost as req p \<le> length ws \<Longrightarrow> \<exists>r. fold (phase_step as env req) ws p = Responded r"
proof (induction ws arbitrary: p)
  case (Cons w ws)
  show ?case
  proof (cases "\<exists>r. p = Responded r")
    case False
    obtain p' w' where s: "request_step as env req p w = (p', w')" by (cases "request_step as env req p w")
    have "phase_cost as req p' \<le> length ws" using step_cost [OF s] Cons.prems False by auto
    then show ?thesis using Cons.IH [of p'] s by (auto simp: phase_step_def)
  qed auto
qed simp

lemma request_after_responded:
  "phase_cost as req Received \<le> length ws \<Longrightarrow> \<exists>r. request_after as env req ws = Responded r"
  unfolding request_after_def by (rule fold_cost)

text \<open>Alone, a request gets the answer of the sequential handler, and leaves its state.\<close>

definition alone_step ::
  "('pub, 'prv, 'w) auth_server \<Rightarrow> 'prv token_env \<Rightarrow> http_request \<Rightarrow> 'w request_phase \<times> 'w \<Rightarrow>
   'w request_phase \<times> 'w" where
  "alone_step as env req pw = request_step as env req (fst pw) (snd pw)"

lemma alone_step_eq: "alone_step as env req (p, w) = request_step as env req p w"
  by (simp add: alone_step_def)

lemma alone_invariant:
  "(alone_step as env req ^^ n) (p, w) = (p', w') \<Longrightarrow>
   phase_result as env req p' w' = phase_result as env req p w"
proof (induction n arbitrary: p' w')
  case (Suc n)
  obtain p1 w1 where m: "(alone_step as env req ^^ n) (p, w) = (p1, w1)" by (meson surj_pair)
  then have "request_step as env req p1 w1 = (p', w')" using Suc.prems by (simp add: alone_step_eq)
  then show ?case using step_result Suc.IH [OF m] by metis
qed simp

lemma alone_ends:
  "phase_cost as req p \<le> n \<Longrightarrow> \<exists>r w'. (alone_step as env req ^^ n) (p, w) = (Responded r, w')"
proof (induction n arbitrary: p w)
  case (Suc n)
  obtain p' w' where s: "request_step as env req p w = (p', w')" by (cases "request_step as env req p w")
  have "phase_cost as req p' \<le> n" using step_cost [OF s] Suc.prems s by auto
  then show ?case using Suc.IH [of p' w'] by (simp add: funpow_Suc_right alone_step_eq s del: funpow.simps)
qed auto

lemma alone_answer:
  "(alone_step as env req ^^ phase_cost as req Received) (Received, w) =
     (Responded (fst (ServeHTTP as env req w)), snd (ServeHTTP as env req w))"
proof -
  obtain r w' where e: "(alone_step as env req ^^ phase_cost as req Received) (Received, w) = (Responded r, w')"
    using alone_ends [of as req Received "phase_cost as req Received" env w] by auto
  have "ServeHTTP as env req w = (r, w')" using alone_invariant [OF e] by simp
  then show ?thesis unfolding e by simp
qed

section \<open>The server's runs\<close>

text \<open>The requests \<^verbatim>\<open>net/http\<close> has handed to the handler, each with the clock and the randomness of its token.\<close>

record ('prv, 'w) open_request =
  op_env :: "'prv token_env"
  op_request :: http_request
  op_phase :: "'w request_phase"

record ('prv, 'w) serving =
  sg_requests :: "('prv, 'w) open_request list"
  sg_world :: 'w

datatype server_event = Arrival | Call nat | Outside

text \<open>A request arrives, one of them takes its next step on the shared state, or the world outside changes.\<close>

inductive server_step ::
  "('pub, 'prv, 'w) auth_server \<Rightarrow> ('w \<Rightarrow> 'w \<Rightarrow> bool) \<Rightarrow> server_event \<Rightarrow> ('prv, 'w) serving \<Rightarrow> ('prv, 'w) serving \<Rightarrow> bool"
  for as :: "('pub, 'prv, 'w) auth_server" and outside :: "'w \<Rightarrow> 'w \<Rightarrow> bool" where
  arrive: "server_step as outside Arrival s
     (s\<lparr>sg_requests := sg_requests s @ [\<lparr>op_env = env, op_request = req, op_phase = Received\<rparr>]\<rparr>)"
| call: "i < length (sg_requests s) \<Longrightarrow> sg_requests s ! i = q \<Longrightarrow>
     request_step as (op_env q) (op_request q) (op_phase q) (sg_world s) = (p', w') \<Longrightarrow>
     server_step as outside (Call i) s \<lparr>sg_requests = (sg_requests s)[i := q\<lparr>op_phase := p'\<rparr>], sg_world = w'\<rparr>"
| outside: "outside (sg_world s) w' \<Longrightarrow> server_step as outside Outside s (s\<lparr>sg_world := w'\<rparr>)"

inductive server_run ::
  "('pub, 'prv, 'w) auth_server \<Rightarrow> ('w \<Rightarrow> 'w \<Rightarrow> bool) \<Rightarrow> ('prv, 'w) serving \<Rightarrow> server_event list \<Rightarrow> ('prv, 'w) serving \<Rightarrow> bool"
  for as :: "('pub, 'prv, 'w) auth_server" and outside :: "'w \<Rightarrow> 'w \<Rightarrow> bool" and s :: "('prv, 'w) serving" where
  run_start: "server_run as outside s [] s"
| run_step: "server_run as outside s es s1 \<Longrightarrow> server_step as outside e s1 s2 \<Longrightarrow>
     server_run as outside s (es @ [e]) s2"

definition idle_server :: "'w \<Rightarrow> ('prv, 'w) serving" where
  "idle_server w = \<lparr>sg_requests = [], sg_world = w\<rparr>"

text \<open>A step leaves a request alone or is its own.\<close>

definition same_request :: "('prv, 'w) open_request \<Rightarrow> ('prv, 'w) open_request \<Rightarrow> bool" where
  "same_request q q' \<longleftrightarrow> op_env q' = op_env q \<and> op_request q' = op_request q"

lemma step_at:
  assumes "server_step as outside e s s'" and "i < length (sg_requests s)"
  shows "i < length (sg_requests s') \<and> same_request (sg_requests s ! i) (sg_requests s' ! i) \<and>
    op_phase (sg_requests s' ! i) =
      (if e = Call i
       then phase_step as (op_env (sg_requests s ! i)) (op_request (sg_requests s ! i)) (sg_world s) (op_phase (sg_requests s ! i))
       else op_phase (sg_requests s ! i))"
  using assms
  by (cases rule: server_step.cases) (auto simp: same_request_def nth_append phase_step_def nth_list_update)

lemma run_at:
  assumes "server_run as outside s es s'" and "i < length (sg_requests s)"
  shows "i < length (sg_requests s') \<and> same_request (sg_requests s ! i) (sg_requests s' ! i) \<and>
    (\<exists>ws. length ws = count_list es (Call i) \<and>
       op_phase (sg_requests s' ! i) =
         fold (phase_step as (op_env (sg_requests s ! i)) (op_request (sg_requests s ! i))) ws (op_phase (sg_requests s ! i)))"
  using assms
proof (induction rule: server_run.induct)
  case run_start
  then show ?case by (auto simp: same_request_def)
next
  case (run_step es s1 e s2)
  then obtain ws where ws: "length ws = count_list es (Call i)"
      "op_phase (sg_requests s1 ! i) =
         fold (phase_step as (op_env (sg_requests s ! i)) (op_request (sg_requests s ! i))) ws (op_phase (sg_requests s ! i))"
    and i: "i < length (sg_requests s1)" and q: "same_request (sg_requests s ! i) (sg_requests s1 ! i)"
    by blast
  note st = step_at [OF run_step.hyps(2) i]
  show ?case
  proof (cases "e = Call i")
    case True
    then show ?thesis using st q ws by (intro conjI exI [of _ "ws @ [sg_world s1]"]) (auto simp: same_request_def)
  next
    case False
    then show ?thesis using st q ws by (intro conjI exI [of _ ws]) (auto simp: same_request_def)
  qed
qed

lemma request_cost_bound:
  assumes "\<And>ar. ParseRequest (sv_Server as) req = Inr ar \<Longrightarrow>
      2 + length (sv_authenticators as) + length (rq_Scopes ar) * (1 + length (sv_authorizers as)) \<le> n"
    and "1 \<le> n"
  shows "phase_cost as req Received \<le> n"
  using assms by (auto simp: receive_def parse_phase_def Let_def split: sum.split go_stop.split)

text \<open>
  C19. A request that has got enough turns has been answered, however its steps interleave with those of the
  other requests and with changes of the world outside: one turn where the request does not
  parse, and otherwise two, one for each authenticator, and for each scope one more than there
  are authorizers.
\<close>

theorem requests_answered:
  assumes "server_run as outside s es s'" and "i < length (sg_requests s)"
    and "op_phase (sg_requests s ! i) = Received" and "1 \<le> count_list es (Call i)"
    and "\<And>ar. ParseRequest (sv_Server as) (op_request (sg_requests s ! i)) = Inr ar \<Longrightarrow>
      2 + length (sv_authenticators as) + length (rq_Scopes ar) * (1 + length (sv_authorizers as)) \<le> count_list es (Call i)"
  shows "\<exists>r. op_phase (sg_requests s' ! i) = Responded r"
proof -
  obtain ws where ws: "length ws = count_list es (Call i)"
      "op_phase (sg_requests s' ! i) = request_after as (op_env (sg_requests s ! i)) (op_request (sg_requests s ! i)) ws"
    using run_at [OF assms(1,2)] assms(3) by (auto simp: request_after_def)
  have "phase_cost as (op_request (sg_requests s ! i)) Received \<le> length ws"
    using request_cost_bound [OF assms(5,4)] by (simp add: ws(1))
  then show ?thesis unfolding ws(2) by (rule request_after_responded)
qed

section \<open>What a request holds on its way\<close>

text \<open>The authenticator that accepted a request was asked in a state of the run.\<close>

definition accepted ::
  "('pub, 'prv, 'w) auth_server \<Rightarrow> ('w \<Rightarrow> bool) \<Rightarrow> auth_request \<Rightarrow> auth_result \<Rightarrow> bool" where
  "accepted as ok ar res \<longleftrightarrow> ar_Authenticated res \<and>
     (\<exists>a \<in> set (sv_authenticators as). \<exists>w w'. ok w \<and> a (rq_Account ar) (rq_Password ar) w = (Inr res, w'))"

text \<open>So was the authorizer that decided a scope, if any did.\<close>

definition decided ::
  "('pub, 'prv, 'w) auth_server \<Rightarrow> ('w \<Rightarrow> bool) \<Rightarrow> auth_request \<Rightarrow> authz_result \<Rightarrow> bool" where
  "decided as ok ar ra \<longleftrightarrow> az_actions ra = None \<or>
     (\<exists>a \<in> set (sv_authorizers as). \<exists>w w'. ok w \<and> a (scope_info ar (az_scope ra)) w = (Inr (az_actions ra), w'))"

definition authenticated_request :: "auth_request \<Rightarrow> auth_result \<Rightarrow> auth_request" where
  "authenticated_request ar res = ar\<lparr>rq_Labels := ar_Labels res, rq_AuthenticatorData := ar_Data res\<rparr>"

definition auth_path :: "('pub, 'prv, 'w) auth_server \<Rightarrow> http_request \<Rightarrow> bool" where
  "auth_path as req \<longleftrightarrow> hr_Path req = sc_PathPrefix (sv_Server as) @ ''/auth'' \<or>
     hr_Path req = sc_PathPrefix (sv_Server as) @ ''/auth/token''"

definition token_response ::
  "('pub, 'prv, 'w) auth_server \<Rightarrow> ('w \<Rightarrow> bool) \<Rightarrow> 'prv token_env \<Rightarrow> http_request \<Rightarrow> http_response \<Rightarrow> bool" where
  "token_response as ok env req resp \<longleftrightarrow>
     (\<exists>ar res ares tok. ParseRequest (sv_Server as) req = Inr ar \<and> accepted as ok ar res \<and>
        map az_scope ares = rq_Scopes ar \<and> (\<forall>ra \<in> set ares. decided as ok (authenticated_request ar res) ra) \<and>
        CreateToken (sv_Token as) env (authenticated_request ar res) ares = Inr tok \<and>
        rs_Body resp = TextBody (token_json tok))"

text \<open>The type of a phase: what has been established when a request is in it.\<close>

fun phase_wf ::
  "('pub, 'prv, 'w) auth_server \<Rightarrow> ('w \<Rightarrow> bool) \<Rightarrow> 'prv token_env \<Rightarrow> http_request \<Rightarrow> 'w request_phase \<Rightarrow> bool" where
  "phase_wf as ok env req Received \<longleftrightarrow> True"
| "phase_wf as ok env req (Authenticating rw ar ans) \<longleftrightarrow>
     auth_path as req \<and> ParseRequest (sv_Server as) req = Inr ar \<and>
     (\<exists>tried. sv_authenticators as = tried @ ans)"
| "phase_wf as ok env req (Authorizing rw ar ares scope azs scopes) \<longleftrightarrow>
     auth_path as req \<and> (\<exists>tried. sv_authorizers as = tried @ azs) \<and>
     (\<exists>ar0 res. ParseRequest (sv_Server as) req = Inr ar0 \<and> accepted as ok ar0 res \<and>
        ar = authenticated_request ar0 res \<and> rq_Scopes ar0 = map az_scope ares @ scope # scopes) \<and>
     (\<forall>ra \<in> set ares. decided as ok ar ra)"
| "phase_wf as ok env req (Responded (Inl st)) \<longleftrightarrow> (\<exists>m. st = Panic m)"
| "phase_wf as ok env req (Responded (Inr resp)) \<longleftrightarrow>
     (auth_path as req \<and> rs_Status resp = 200 \<longrightarrow> token_response as ok env req resp)"

lemma receive_wf: "phase_wf as ok env req (receive as req)"
  by (auto simp: receive_def parse_phase_def auth_path_def Let_def http_error_def split: sum.split go_stop.split)

lemma send_token_wf:
  assumes "ParseRequest (sv_Server as) req = Inr ar" "accepted as ok ar res" "map az_scope ares = rq_Scopes ar"
    and "\<forall>ra \<in> set ares. decided as ok (authenticated_request ar res) ra"
  shows "phase_wf as ok env req (Responded (send_token as env (authenticated_request ar res) ares rw))"
proof (cases "CreateToken (sv_Token as) env (authenticated_request ar res) ares")
  case (Inl st)
  then show ?thesis by (cases st) (simp_all add: send_token_def http_error_def)
next
  case (Inr tok)
  then have "token_response as ok env req
      ((header_set ''Content-Type'' ''application/json'' rw)\<lparr>rs_Body := TextBody (token_json tok)\<rparr>)"
    using assms unfolding token_response_def by (intro exI [of _ ar] exI [of _ res] exI [of _ ares] exI [of _ tok]) simp
  then show ?thesis using Inr by (simp add: send_token_def)
qed

lemma next_scope_wf:
  assumes "auth_path as req" "ParseRequest (sv_Server as) req = Inr ar" "accepted as ok ar res"
    and "rq_Scopes ar = map az_scope ares @ scopes" "\<forall>ra \<in> set ares. decided as ok (authenticated_request ar res) ra"
  shows "phase_wf as ok env req (next_scope as env rw (authenticated_request ar res) ares scopes)"
proof (cases scopes)
  case Nil
  then show ?thesis using send_token_wf [OF assms(2,3) _ assms(5)] assms(4) by simp
next
  case (Cons scope rest)
  have "\<exists>ar0 res0. ParseRequest (sv_Server as) req = Inr ar0 \<and> accepted as ok ar0 res0 \<and>
      authenticated_request ar res = authenticated_request ar0 res0 \<and>
      rq_Scopes ar0 = map az_scope ares @ scope # rest"
    using assms(2-4) Cons by (intro exI [of _ ar] exI [of _ res]) simp
  then show ?thesis using assms(1,5) Cons by simp
qed

lemma authenticated_wf:
  assumes "auth_path as req" "ParseRequest (sv_Server as) req = Inr ar"
    and "ar_Authenticated res \<Longrightarrow> accepted as ok ar res"
  shows "phase_wf as ok env req (authenticated_phase as env rw ar res)"
proof (cases "ar_Authenticated res")
  case True
  then show ?thesis
    using next_scope_wf [OF assms(1,2) assms(3) _, of "[]" "rq_Scopes ar" env rw]
    by (simp add: authenticated_phase_def authenticated_request_def)
qed (simp add: authenticated_phase_def unauthorized_def http_error_def)

lemma step_wf:
  assumes "phase_wf as ok env req p" and "ok w" and "request_step as env req p w = (p', w')"
  shows "phase_wf as ok env req p'"
  using assms
proof (induction as env req p w rule: request_step.induct)
  case (1 as env req w)
  then show ?case using receive_wf by auto
next
  case (2 as env req rw ar w)
  then show ?case using authenticated_wf [of as req ar zero_result ok env rw] by (auto simp: zero_result_def)
next
  case (3 as env req rw ar a ans w)
  have wf: "auth_path as req" "ParseRequest (sv_Server as) req = Inr ar" and a: "a \<in> set (sv_authenticators as)"
    and ans: "\<exists>tried. sv_authenticators as = tried @ ans"
    using 3(1) by auto
  have "accepted as ok ar res" if "a (rq_Account ar) (rq_Password ar) w = (Inr res, w')" "ar_Authenticated res" for res
    using that a 3(2) by (auto simp: accepted_def)
  then have "phase_wf as ok env req (authenticated_phase as env rw ar res)"
    if "a (rq_Account ar) (rq_Password ar) w = (Inr res, w')" for res
    using that authenticated_wf [OF wf] by blast
  then show ?case
    using 3(3) wf ans
    by (auto simp: authn_failure_def unauthorized_def http_error_def
        split: prod.splits sum.splits go_stop.splits if_splits option.splits)
next
  case (4 as env req rw ar ares scope scopes w)
  obtain ar0 res where h: "auth_path as req" "ParseRequest (sv_Server as) req = Inr ar0" "accepted as ok ar0 res"
    "ar = authenticated_request ar0 res" "rq_Scopes ar0 = map az_scope ares @ scope # scopes"
    "\<forall>ra \<in> set ares. decided as ok ar ra"
    using 4(1) by auto
  then show ?case
    using 4(3) next_scope_wf [OF h(1-3), of "ares @ [\<lparr>az_scope = scope, az_actions = None\<rparr>]" scopes env rw]
    by (auto simp: decided_def)
next
  case (5 as env req rw ar ares scope a azs scopes w)
  obtain ar0 res where h: "auth_path as req" "ParseRequest (sv_Server as) req = Inr ar0" "accepted as ok ar0 res"
    "ar = authenticated_request ar0 res" "rq_Scopes ar0 = map az_scope ares @ scope # scopes"
    "\<forall>ra \<in> set ares. decided as ok ar ra"
    using 5(1) by auto
  have a: "a \<in> set (sv_authorizers as)" and azs: "\<exists>tried. sv_authorizers as = tried @ azs"
    using 5(1) by auto
  have new: "decided as ok ar \<lparr>az_scope = scope, az_actions = actions\<rparr>" if "a (scope_info ar scope) w = (Inr actions, w')" for actions
    using that a 5(2) by (auto simp: decided_def)
  have "phase_wf as ok env req (next_scope as env rw ar (ares @ [\<lparr>az_scope = scope, az_actions = actions\<rparr>]) scopes)"
    if "a (scope_info ar scope) w = (Inr actions, w')" for actions
    using next_scope_wf [OF h(1-3), of "ares @ [\<lparr>az_scope = scope, az_actions = actions\<rparr>]" scopes env rw]
      h(4-6) new [OF that] by simp
  moreover have "phase_wf as ok env req (Authorizing rw ar ares scope azs scopes)" using h azs by auto
  ultimately show ?case
    using 5(3) by (auto simp: http_error_def split: prod.splits sum.splits go_stop.splits if_splits)
qed auto

section \<open>The state the requests share\<close>

definition run_ok :: "('pub, 'prv, 'w) auth_server \<Rightarrow> ('w \<Rightarrow> bool) \<Rightarrow> ('prv, 'w) serving \<Rightarrow> bool" where
  "run_ok as ok s \<longleftrightarrow> ok (sg_world s) \<and>
     (\<forall>q \<in> set (sg_requests s). phase_wf as ok (op_env q) (op_request q) (op_phase q))"

text \<open>
  The interface between the server's state and its requests: a condition on the shared state that
  every call of an authenticator or authorizer keeps, and the world outside too.
\<close>

locale shared_state =
  fixes as :: "('pub, 'prv, 'w) auth_server" and outside :: "'w \<Rightarrow> 'w \<Rightarrow> bool" and ok :: "'w \<Rightarrow> bool"
  assumes authn_keeps: "a \<in> set (sv_authenticators as) \<Longrightarrow> ok w \<Longrightarrow> a u p w = (ra, w') \<Longrightarrow> ok w'"
    and authz_keeps: "z \<in> set (sv_authorizers as) \<Longrightarrow> ok w \<Longrightarrow> z ai w = (rz, w') \<Longrightarrow> ok w'"
    and outside_keeps: "ok w \<Longrightarrow> outside w w' \<Longrightarrow> ok w'"
begin

lemma request_keeps:
  assumes "phase_wf as ok env req p" "ok w" "request_step as env req p w = (p', w')"
  shows "ok w'"
proof (cases p)
  case (Authenticating rw ar ans)
  show ?thesis
  proof (cases ans)
    case (Cons a rest)
    then have "a \<in> set (sv_authenticators as)" using assms(1) Authenticating by auto
    from authn_keeps [OF this assms(2)] show ?thesis
      using assms(3) Authenticating Cons by (auto split: prod.splits sum.splits go_stop.splits if_splits)
  qed (use assms Authenticating in auto)
next
  case (Authorizing rw ar ares scope azs scopes)
  show ?thesis
  proof (cases azs)
    case (Cons z rest)
    then have "z \<in> set (sv_authorizers as)" using assms(1) Authorizing by auto
    from authz_keeps [OF this assms(2)] show ?thesis
      using assms(3) Authorizing Cons by (auto split: prod.splits sum.splits go_stop.splits if_splits)
  qed (use assms Authorizing in auto)
qed (use assms in auto)

lemma step_ok:
  assumes "server_step as outside e s s'" and ok: "run_ok as ok s"
  shows "run_ok as ok s'"
  using assms(1)
proof (cases rule: server_step.cases)
  case (arrive env req)
  then show ?thesis using ok by (auto simp: run_ok_def)
next
  case (call i q p' w')
  have wf: "phase_wf as ok (op_env q) (op_request q) (op_phase q)" and w: "ok (sg_world s)"
    using ok call by (auto simp: run_ok_def)
  have "phase_wf as ok (op_env q) (op_request q) p'" "ok w'"
    using step_wf [OF wf w call(5)] request_keeps [OF wf w call(5)] by auto
  moreover have "set ((sg_requests s)[i := q\<lparr>op_phase := p'\<rparr>]) \<subseteq> insert (q\<lparr>op_phase := p'\<rparr>) (set (sg_requests s))"
    by (rule set_update_subset_insert)
  ultimately show ?thesis using ok unfolding run_ok_def call(2) by auto
next
  case (outside w')
  then show ?thesis using ok outside_keeps by (auto simp: run_ok_def)
qed

lemma run_keeps: "server_run as outside s es s' \<Longrightarrow> run_ok as ok s \<Longrightarrow> run_ok as ok s'"
  by (induction rule: server_run.induct) (auto intro: step_ok)

lemma from_idle: "server_run as outside (idle_server w) es s \<Longrightarrow> ok w \<Longrightarrow> run_ok as ok s"
  by (erule run_keeps) (simp add: run_ok_def idle_server_def)

lemma request_wf:
  assumes "server_run as outside (idle_server w) es s" "ok w" "q \<in> set (sg_requests s)"
  shows "phase_wf as ok (op_env q) (op_request q) (op_phase q)"
  using from_idle [OF assms(1,2)] assms(3) by (auto simp: run_ok_def)

end

text \<open>Every server has the condition that asks for nothing.\<close>

interpretation any_state: shared_state as outside "\<lambda>_. True" for as outside
  by unfold_locales auto

text \<open>
  C2. What a request holds in each of its phases has been established, at every moment of every run in which
  requests interleave and the world changes: whoever waits for an authorizer was accepted by an authenticator under the
  account and password of its own request, every result it has collected is an answer of an authorizer for that scope of
  its own request or says that none decided, the scopes collected, in progress and left are the
  requested ones in order, and a response with status 200 on the path of the token endpoint is the token of
  exactly these. No request gets into another one's data.
\<close>

theorem request_phases_wf:
  assumes "server_run as outside (idle_server w) es s" "q \<in> set (sg_requests s)"
  shows "phase_wf as (\<lambda>_. True) (op_env q) (op_request q) (op_phase q)"
  using any_state.request_wf [OF assms(1) TrueI assms(2)] .

section \<open>Tokens under concurrency\<close>

lemma decided_grants:
  assumes "decided as ok ar ra" "\<forall>a \<in> set (sv_authorizers as). authorizer a"
  shows "set (slice_items (az_actions ra)) \<subseteq> set (as_Actions (az_scope ra))"
proof (cases "az_actions ra")
  case (Some acts)
  then obtain a w w' where a: "a \<in> set (sv_authorizers as)" "a (scope_info ar (az_scope ra)) w = (Inr (az_actions ra), w')"
    using assms(1) unfolding decided_def by (elim disjE bexE exE conjE) (simp_all only: Some option.distinct)
  have "authorizer a" using assms(2) a(1) by (rule bspec)
  from authorizer.grants_requested [OF this a(2)] show ?thesis by (simp add: scope_info_def)
qed (simp add: slice_items_def)

lemma token_response_grants:
  assumes "token_response as ok env req resp" "\<forall>a \<in> set (sv_authorizers as). authorizer a"
  shows "\<exists>ar ares tok. ParseRequest (sv_Server as) req = Inr ar \<and>
    (\<exists>a \<in> set (sv_authenticators as). \<exists>w w' res. a (rq_Account ar) (rq_Password ar) w = (Inr res, w') \<and> ar_Authenticated res) \<and>
    CreateToken (sv_Token as) env ar ares = Inr tok \<and> rs_Body resp = TextBody (token_json tok) \<and>
    list_all2 (\<lambda>ra sc. ra_Type ra = as_Type sc \<and> ra_Name ra = as_Name sc \<and>
        set (ra_Actions ra) \<subseteq> set (as_Actions sc) \<and> sorted (ra_Actions ra))
      (cs_Access (token_claims (sv_Token as) env ar ares)) (rq_Scopes ar)"
proof -
  obtain ar res ares tok where t: "ParseRequest (sv_Server as) req = Inr ar" "accepted as ok ar res"
    "map az_scope ares = rq_Scopes ar" "\<forall>ra \<in> set ares. decided as ok (authenticated_request ar res) ra"
    "CreateToken (sv_Token as) env (authenticated_request ar res) ares = Inr tok" "rs_Body resp = TextBody (token_json tok)"
    using assms(1) unfolding token_response_def by blast
  have claims: "token_claims (sv_Token as) env (authenticated_request ar res) ares = token_claims (sv_Token as) env ar ares"
    by (simp add: token_claims_def authenticated_request_def)
  have tok: "CreateToken (sv_Token as) env ar ares = Inr tok" using t(5) unfolding CreateToken_def claims .
  have "\<forall>ra \<in> set ares. set (slice_items (az_actions ra)) \<subseteq> set (as_Actions (az_scope ra))"
    using t(4) decided_grants [OF _ assms(2)] by blast
  then have "list_all2 (\<lambda>ra sc. ra_Type ra = as_Type sc \<and> ra_Name ra = as_Name sc \<and>
        set (ra_Actions ra) \<subseteq> set (as_Actions sc) \<and> sorted (ra_Actions ra))
      (cs_Access (token_claims (sv_Token as) env ar ares)) (rq_Scopes ar)"
    unfolding t(3) [symmetric]
    by (auto simp: token_claims_def list_all2_conv_all_nth token_access_def slice_items_def
        dest!: nth_mem split: option.splits)
  moreover have "\<exists>a \<in> set (sv_authenticators as). \<exists>w w' res. a (rq_Account ar) (rq_Password ar) w = (Inr res, w') \<and> ar_Authenticated res"
    using t(2) unfolding accepted_def by blast
  ultimately show ?thesis using t(1,6) tok by blast
qed

lemma concurrent_token:
  assumes "server_run as outside (idle_server w) es s" "q \<in> set (sg_requests s)"
    and "op_phase q = Responded (Inr resp)" "rs_Status resp = 200" "auth_path as (op_request q)"
  shows "token_response as (\<lambda>_. True) (op_env q) (op_request q) resp"
  using any_state.request_wf [OF assms(1) TrueI assms(2)] assms(3-5) by simp

section \<open>No panics under concurrency\<close>

text \<open>A server whose parts answer without panics where the shared condition holds.\<close>

locale calm_state = shared_state as outside ok
  for as :: "('pub, 'prv, 'w) auth_server" and outside :: "'w \<Rightarrow> 'w \<Rightarrow> bool" and ok :: "'w \<Rightarrow> bool" +
  assumes authn_answers: "a \<in> set (sv_authenticators as) \<Longrightarrow> ok w \<Longrightarrow> a u p w \<noteq> (Inl (Panic m), w')"
    and authz_answers: "z \<in> set (sv_authorizers as) \<Longrightarrow> ok w \<Longrightarrow> z ai w \<noteq> (Inl (Panic m), w')"
    and signing_key: "ok w \<Longrightarrow> tc_privateKey (sv_Token as) \<noteq> None"
    and parses: "ok w \<Longrightarrow> ParseRequest (sv_Server as) req \<noteq> Inl (Panic m)"
begin

lemma receive_answers: "ok w \<Longrightarrow> receive as req \<noteq> Responded (Inl st)"
  using parses [of w req] by (auto simp: receive_def parse_phase_def Let_def split: sum.split go_stop.split)

lemma next_scope_answers: "ok w \<Longrightarrow> next_scope as env rw ar ares scopes \<noteq> Responded (Inl st)"
  using send_token_no_panic [OF signing_key, of w env ar ares rw]
  by (cases scopes; cases st) (auto simp: send_token_def split: sum.splits go_stop.splits)

lemma authenticated_answers: "ok w \<Longrightarrow> authenticated_phase as env rw ar res \<noteq> Responded (Inl st)"
  using next_scope_answers by (simp add: authenticated_phase_def)

lemma step_answers:
  assumes "phase_wf as ok env req p" "ok w" "p \<noteq> Responded (Inl st)" "request_step as env req p w = (p', w')"
  shows "p' \<noteq> Responded (Inl st)"
proof (cases p)
  case Received
  then show ?thesis using assms receive_answers by auto
next
  case (Authenticating rw ar ans)
  show ?thesis
  proof (cases ans)
    case Nil
    then show ?thesis using assms Authenticating authenticated_answers by auto
  next
    case (Cons a rest)
    then have "a \<in> set (sv_authenticators as)" using assms(1) Authenticating by auto
    from authn_answers [OF this assms(2)] show ?thesis
      using assms(2,4) Authenticating Cons authenticated_answers
      by (auto split: prod.splits sum.splits go_stop.splits if_splits)
  qed
next
  case (Authorizing rw ar ares scope azs scopes)
  show ?thesis
  proof (cases azs)
    case Nil
    then show ?thesis using assms Authorizing next_scope_answers by auto
  next
    case (Cons z rest)
    then have "z \<in> set (sv_authorizers as)" using assms(1) Authorizing by auto
    from authz_answers [OF this assms(2)] show ?thesis
      using assms(2,4) Authorizing Cons next_scope_answers
      by (auto split: prod.splits sum.splits go_stop.splits if_splits)
  qed
qed (use assms in auto)

lemma run_answers:
  assumes "server_run as outside (idle_server w) es s" "ok w"
  shows "\<forall>q \<in> set (sg_requests s). op_phase q \<noteq> Responded (Inl st)"
  using assms(1)
proof (induction rule: server_run.induct)
  case (run_step es s1 e s2)
  have ok: "run_ok as ok s1" using from_idle [OF run_step.hyps(1) assms(2)] .
  from run_step.hyps(2) show ?case
  proof (cases rule: server_step.cases)
    case (call i q p' w')
    have "phase_wf as ok (op_env q) (op_request q) (op_phase q)" "ok (sg_world s1)" "op_phase q \<noteq> Responded (Inl st)"
      using ok call run_step.IH by (auto simp: run_ok_def)
    from step_answers [OF this call(5)]
    have "op_phase (q\<lparr>op_phase := p'\<rparr>) \<noteq> Responded (Inl st)" by simp
    moreover have "set ((sg_requests s1)[i := q\<lparr>op_phase := p'\<rparr>]) \<subseteq> insert (q\<lparr>op_phase := p'\<rparr>) (set (sg_requests s1))"
      by (rule set_update_subset_insert)
    ultimately show ?thesis using run_step.IH unfolding call(2) by auto
  qed (use run_step.IH in auto)
qed (simp add: idle_server_def)

end

definition calm_server ::
  "('pub, 'prv, 'w) auth_server \<Rightarrow> ('w \<Rightarrow> 'w \<Rightarrow> bool) \<Rightarrow> ('w \<Rightarrow> bool) \<Rightarrow> 'w \<Rightarrow> bool" where
  "calm_server as outside ok w \<longleftrightarrow> ok w \<and>
     (\<forall>a \<in> set (sv_authenticators as). \<forall>u p. calm ok (a u p)) \<and>
     (\<forall>a \<in> set (sv_authorizers as). \<forall>ai. calm ok (a ai)) \<and>
     (\<forall>w w'. ok w \<longrightarrow> outside w w' \<longrightarrow> ok w') \<and>
     tc_privateKey (sv_Token as) \<noteq> None \<and> (\<forall>req m. ParseRequest (sv_Server as) req \<noteq> Inl (Panic m))"

interpretation calm: calm_state as outside "calm_server as outside ok" for as outside ok
  by unfold_locales (unfold calm_server_def, blast dest: calmD, blast dest: calmD, blast, (blast dest: calmD)+)

text \<open>What happens outside a server: the cluster and its API change, the caches do not.\<close>

definition world_changes :: "'x kube_state \<Rightarrow> 'x kube_state \<Rightarrow> bool" where
  "world_changes s s' \<longleftrightarrow> (\<exists>x. s' = s\<lparr>ks_world := x\<rparr>)"

text \<open>
  C12. A server with a loaded configuration and without plugins answers every request without a
  panic, whatever the clients send, however their requests interleave and the Kubernetes API
  and its answers change meanwhile, if every entry of its access list has a list of actions and
  a client address read from a header is counted from the end or is the first one.
\<close>

theorem concurrent_no_panic:
  assumes "LoadConfig src vl kt file = Inr c" and "NewAuthServer ext c = Inr sv"
    and "cf_PluginAuthn c = None" "cf_PluginAuthz c = None"
    and "\<forall>acl. cf_ACL c = Some acl \<longrightarrow> (\<forall>e \<in> set acl. e_Actions e \<noteq> None)"
    and "sc_RealIPHeader (cf_Server c) = [] \<or> sc_RealIPPos (cf_Server c) \<le> 0"
    and "server_run sv world_changes (idle_server (kube_start x)) es s"
    and "q \<in> set (sg_requests s)" "op_phase q = Responded r"
  shows "\<exists>resp. r = Inr resp"
proof -
  obtain ok where ok: "\<forall>u p. \<forall>a \<in> set (sv_authenticators sv). calm ok (a u p)"
    "\<forall>ai. \<forall>a \<in> set (sv_authorizers sv). calm ok (a ai)" "\<forall>x. ok (kube_start x)"
    "\<forall>s x. ok s \<longrightarrow> ok (s\<lparr>ks_world := x\<rparr>)"
    using server_calm_ex [OF assms(2-5)] by (elim exE conjE, intro that)
  have sv: "sv_Server sv = cf_Server c" "sv_Token sv = cf_Token c" using assms(2) unfolding NewAuthServer_Inr by auto
  have key: "tc_privateKey (sv_Token sv) \<noteq> None" using loaded_key [OF assms(1)] by (simp add: sv)
  have parse: "ParseRequest (sv_Server sv) req \<noteq> Inl (Panic m)" for req m
    using assms(6) by (auto simp: sv parse_panic)
  have "ok w \<Longrightarrow> world_changes w w' \<Longrightarrow> ok w'" for w w' using ok(4) by (auto simp: world_changes_def)
  then have "calm_server sv world_changes ok (kube_start x)"
    using ok(1-3) key parse unfolding calm_server_def by blast
  from calm.run_answers [OF assms(7) this] have "\<forall>st. r \<noteq> Inl st" using assms(8,9) by auto
  then show ?thesis by (cases r) auto
qed

section \<open>Concrete runs\<close>

text \<open>The run of one request, which the sequential handler computes.\<close>

lemma call_step:
  "request_step as env req p w = (p', w') \<Longrightarrow>
   server_step as outside (Call 0) \<lparr>sg_requests = [\<lparr>op_env = env, op_request = req, op_phase = p\<rparr>], sg_world = w\<rparr>
     \<lparr>sg_requests = [\<lparr>op_env = env, op_request = req, op_phase = p'\<rparr>], sg_world = w'\<rparr>"
  using server_step.call [of 0 "\<lparr>sg_requests = [\<lparr>op_env = env, op_request = req, op_phase = p\<rparr>], sg_world = w\<rparr>"
      "\<lparr>op_env = env, op_request = req, op_phase = p\<rparr>" as p' w' outside]
  by simp

lemma calls_run:
  assumes "server_run as outside s es \<lparr>sg_requests = [\<lparr>op_env = env, op_request = req, op_phase = Received\<rparr>], sg_world = w\<rparr>"
  shows "(alone_step as env req ^^ n) (Received, w) = (p, w') \<Longrightarrow>
    server_run as outside s (es @ replicate n (Call 0))
      \<lparr>sg_requests = [\<lparr>op_env = env, op_request = req, op_phase = p\<rparr>], sg_world = w'\<rparr>"
proof (induction n arbitrary: p w')
  case 0
  then show ?case using assms by simp
next
  case (Suc n)
  obtain p1 w1 where m: "(alone_step as env req ^^ n) (Received, w) = (p1, w1)" by (meson surj_pair)
  then have "request_step as env req p1 w1 = (p, w')" using Suc.prems by (simp add: alone_step_eq)
  from run_step [OF Suc.IH [OF m] call_step [OF this]] show ?case by (simp flip: replicate_append_same)
qed

lemma answer_run:
  assumes "server_run as outside s es \<lparr>sg_requests = [\<lparr>op_env = env, op_request = req, op_phase = Received\<rparr>], sg_world = w\<rparr>"
    and "ServeHTTP as env req w = (r, w')"
  shows "server_run as outside s (es @ replicate (phase_cost as req Received) (Call 0))
    \<lparr>sg_requests = [\<lparr>op_env = env, op_request = req, op_phase = Responded r\<rparr>], sg_world = w'\<rparr>"
  by (rule calls_run [OF assms(1)]) (simp add: alone_answer assms(2) del: phase_cost.simps)

lemma lone_run:
  assumes "ServeHTTP as env req w = (r, w')"
  shows "server_run as outside (idle_server w) (Arrival # replicate (phase_cost as req Received) (Call 0))
    \<lparr>sg_requests = [\<lparr>op_env = env, op_request = req, op_phase = Responded r\<rparr>], sg_world = w'\<rparr>"
proof -
  have "server_run as outside (idle_server w) ([] @ [Arrival])
      (idle_server w\<lparr>sg_requests := sg_requests (idle_server w) @ [\<lparr>op_env = env, op_request = req, op_phase = Received\<rparr>]\<rparr>)"
    by (rule run_step [OF run_start arrive])
  then have "server_run as outside (idle_server w) [Arrival]
      \<lparr>sg_requests = [\<lparr>op_env = env, op_request = req, op_phase = Received\<rparr>], sg_world = w\<rparr>"
    by (simp add: idle_server_def)
  from answer_run [OF this assms] show ?thesis by simp
qed

lemma bob_sv_serves:
  "ServeHTTP bob_sv test_env bob_request (kube_start 0) =
     (Inr \<lparr>rs_Status = 200, rs_Header = [(''Content-Type'', [''application/json''])],
           rs_Body = TextBody (token_json bob_token)\<rparr>, kube_start 0)"
proof -
  have "sv_Server bob_sv = test_server" "hr_Path bob_request = ''/auth''"
    by (simp_all add: bob_sv_def bob_request_def)
  then show ?thesis
    unfolding ServeHTTP_def Let_def by (simp add: test_server_def bob_sv_answer)
qed

definition bob_served :: "(unit, int kube_state) serving" where
  "bob_served = \<lparr>sg_requests = [\<lparr>op_env = test_env, op_request = bob_request,
     op_phase = Responded (Inr \<lparr>rs_Status = 200, rs_Header = [(''Content-Type'', [''application/json''])],
       rs_Body = TextBody (token_json bob_token)\<rparr>)\<rparr>], sg_world = kube_start 0\<rparr>"

lemma bob_run:
  "server_run bob_sv world_changes (idle_server (kube_start 0))
     (Arrival # replicate (phase_cost bob_sv bob_request Received) (Call 0)) bob_served"
  unfolding bob_served_def by (rule lone_run [OF bob_sv_serves])

lemma bob_served_request:
  "hd (sg_requests bob_served) \<in> set (sg_requests bob_served)"
  "op_phase (hd (sg_requests bob_served)) =
     Responded (Inr \<lparr>rs_Status = 200, rs_Header = [(''Content-Type'', [''application/json''])],
       rs_Body = TextBody (token_json bob_token)\<rparr>)"
  "op_request (hd (sg_requests bob_served)) = bob_request" "op_env (hd (sg_requests bob_served)) = test_env"
  by (simp_all add: bob_served_def)

lemma request_phases_wf_witness:
  "token_response bob_sv (\<lambda>_. True) test_env bob_request
     \<lparr>rs_Status = 200, rs_Header = [(''Content-Type'', [''application/json''])],
      rs_Body = TextBody (token_json bob_token)\<rparr>"
proof -
  have "auth_path bob_sv bob_request"
    by (simp add: auth_path_def bob_sv_def bob_request_def test_server_def)
  then show ?thesis
    using request_phases_wf [OF bob_run bob_served_request(1)] by (simp add: bob_served_request)
qed

definition bob_source :: "(unit, unit, unit) config_source" where
  "bob_source = \<lparr>cs_ReadFile = (\<lambda>f. Inr f), cs_Unmarshal = (\<lambda>s. Inr bob_config)\<rparr>"

lemma bob_config_loads: "LoadConfig bob_source test_validators test_keys ''auth.yml'' = Inr bob_config"
  by (simp add: LoadConfig_def bob_source_def validate_def validate_server_def validate_token_def bob_config_def
      validate_kubernetes_def has_kubernetes_authz_def bob_tc_def test_server_def test_token_def
      validate_acl_def validate_plugin_def load_pair_def loadCertAndKey_def test_keys_def set_server_keys_def
      set_token_keys_def ApplyDefaults_def)

lemma concurrent_no_panic_witness:
  "\<exists>r resp. op_phase (hd (sg_requests bob_served)) = Responded r \<and> r = Inr resp"
proof -
  have "cf_PluginAuthn bob_config = None" "cf_PluginAuthz bob_config = None"
    "\<forall>acl. cf_ACL bob_config = Some acl \<longrightarrow> (\<forall>e \<in> set acl. e_Actions e \<noteq> None)"
    "sc_RealIPHeader (cf_Server bob_config) = [] \<or> sc_RealIPPos (cf_Server bob_config) \<le> 0"
    by (simp_all add: bob_config_def test_server_def)
  from concurrent_no_panic [OF bob_config_loads bob_sv_starts this bob_run bob_served_request(1,2)]
  show ?thesis using bob_served_request(2) by blast
qed

definition bob_received :: "(unit, int kube_state) serving" where
  "bob_received = \<lparr>sg_requests = [\<lparr>op_env = test_env, op_request = bob_request, op_phase = Received\<rparr>],
     sg_world = kube_start 0\<rparr>"

lemma requests_answered_witness:
  "\<exists>es s r. server_run bob_sv world_changes bob_received es s \<and> op_phase (sg_requests s ! 0) = Responded r"
proof -
  have "server_run bob_sv world_changes bob_received [] \<lparr>sg_requests = [\<lparr>op_env = test_env, op_request = bob_request,
      op_phase = Received\<rparr>], sg_world = kube_start 0\<rparr>"
    using run_start [of bob_sv world_changes bob_received] by (simp add: bob_received_def)
  from calls_run [OF this, of 3] obtain s where
    run: "server_run bob_sv world_changes bob_received (replicate 3 (Call 0)) s"
    by (metis append_Nil surj_pair)
  have "count_list (replicate 3 (Call 0)) (Call 0) = 3" by (simp add: numeral_3_eq_3)
  moreover have "ar = bob_ar" if "ParseRequest test_server bob_request = Inr ar" for ar
    using that bob_parsed by (simp add: bob_ar_def)
  ultimately have "\<exists>r. op_phase (sg_requests s ! 0) = Responded r"
    by (intro requests_answered [OF run]) (auto simp: bob_received_def bob_sv_def bob_ar_def)
  then show ?thesis using run by blast
qed

end
