(* ===== verification/Server_Stable.thy ===== *)
theory Server_Stable
  imports Server_Concurrent
begin

text \<open>
  Concurrent requests while the world is stable: when no authenticator and no authorizer changes
  its answers, interleaving and caches cannot be observed. Every request gets the response it
  would get alone, on a server that has just been started.
\<close>

section \<open>Stable parts\<close>

text \<open>A call whose answer is the same in all states of a condition, which it keeps.\<close>

definition steady :: "('w \<Rightarrow> bool) \<Rightarrow> ('w \<Rightarrow> 'r \<times> 'w) \<Rightarrow> bool" where
  "steady ok f \<longleftrightarrow> (\<forall>v w. ok v \<longrightarrow> ok w \<longrightarrow> fst (f v) = fst (f w) \<and> ok (snd (f v)))"

lemma steadyI: "(\<And>v w. ok v \<Longrightarrow> ok w \<Longrightarrow> fst (f v) = fst (f w) \<and> ok (snd (f v))) \<Longrightarrow> steady ok f"
  unfolding steady_def by blast

lemma steadyE:
  assumes "steady ok f" "ok v" "ok w"
  obtains r v1 w1 where "f v = (r, v1)" "f w = (r, w1)" "ok v1" "ok w1"
proof -
  have same: "fst (f v) = fst (f w)" and v: "ok (snd (f v))" and w: "ok (snd (f w))"
    using assms unfolding steady_def by blast+
  have "f v = (fst (f v), snd (f v))" by simp
  moreover have "f w = (fst (f v), snd (f w))" unfolding same by simp
  ultimately show thesis using v w by (rule that)
qed

lemma steady_try_in_order:
  "\<forall>f \<in> set fs. steady ok f \<Longrightarrow> steady ok (try_in_order stem fs dflt)"
proof (induction fs)
  case (Cons f fs)
  have f: "steady ok f" and fs: "steady ok (try_in_order stem fs dflt)" using Cons by auto
  show ?case
  proof (rule steadyI)
    fix v w assume vw: "ok v" "ok w"
    from f vw obtain r v1 w1 where r: "f v = (r, v1)" "f w = (r, w1)" "ok v1" "ok w1" by (rule steadyE)
    from fs r(3,4) obtain q v2 w2 where q: "try_in_order stem fs dflt v1 = (q, v2)"
      "try_in_order stem fs dflt w1 = (q, w2)" "ok v2" "ok w2" by (rule steadyE)
    show "fst (try_in_order stem (f # fs) dflt v) = fst (try_in_order stem (f # fs) dflt w) \<and>
      ok (snd (try_in_order stem (f # fs) dflt v))"
      using r q by (auto split: sum.split go_stop.split)
  qed
qed (simp add: steady_def)

lemma steady_authorize_scopes:
  assumes "\<And>ai. steady ok (authorizeScope azs ai)"
  shows "steady ok (authorize_scopes azs ar scopes)"
proof (induction scopes)
  case (Cons sc scopes)
  show ?case
  proof (rule steadyI)
    fix v w assume vw: "ok v" "ok w"
    from assms vw obtain r v1 w1 where r: "authorizeScope azs (scope_info ar sc) v = (r, v1)"
      "authorizeScope azs (scope_info ar sc) w = (r, w1)" "ok v1" "ok w1" by (rule steadyE)
    from Cons r(3,4) obtain q v2 w2 where q: "authorize_scopes azs ar scopes v1 = (q, v2)"
      "authorize_scopes azs ar scopes w1 = (q, w2)" "ok v2" "ok w2" by (rule steadyE)
    show "fst (authorize_scopes azs ar (sc # scopes) v) = fst (authorize_scopes azs ar (sc # scopes) w) \<and>
      ok (snd (authorize_scopes azs ar (sc # scopes) v))"
      using r q by (auto split: sum.split)
  qed
qed (simp add: steady_def)

locale stable_state = shared_state as outside ok
  for as :: "('pub, 'prv, 'w) auth_server" and outside :: "'w \<Rightarrow> 'w \<Rightarrow> bool" and ok :: "'w \<Rightarrow> bool" +
  assumes authn_stable: "a \<in> set (sv_authenticators as) \<Longrightarrow> ok v \<Longrightarrow> steady ok (a u p)"
    and authz_stable: "z \<in> set (sv_authorizers as) \<Longrightarrow> ok v \<Longrightarrow> steady ok (z ai)"
begin

lemma Authenticate_stable:
  "set ans \<subseteq> set (sv_authenticators as) \<Longrightarrow> ok v \<Longrightarrow> steady ok (Authenticate ans ar)"
  unfolding Authenticate_def [abs_def] using authn_stable by (intro steady_try_in_order) auto

lemma authorizeScope_stable:
  "set azs \<subseteq> set (sv_authorizers as) \<Longrightarrow> ok v \<Longrightarrow> steady ok (authorizeScope azs ai)"
  unfolding authorizeScope_def [abs_def] using authz_stable by (intro steady_try_in_order) auto

lemma authorize_scopes_stable:
  assumes "ok v" "ok w"
  shows "fst (authorize_scopes (sv_authorizers as) ar scopes v) = fst (authorize_scopes (sv_authorizers as) ar scopes w)"
proof -
  have "steady ok (authorize_scopes (sv_authorizers as) ar scopes)"
    by (rule steady_authorize_scopes) (rule authorizeScope_stable [OF subset_refl assms(1)])
  then show ?thesis using assms unfolding steady_def by blast
qed

lemma authz_rest_fst: "fst r = fst r' \<Longrightarrow> fst (authz_rest as env rw ar done r) = fst (authz_rest as env rw ar done r')"
  by (auto simp: authz_rest_def split: prod.split sum.split go_stop.split)

lemma authn_rest_stable:
  assumes "ok v" "ok w"
  shows "fst (authn_rest as env rw ar (r, v)) = fst (authn_rest as env rw ar (r, w))"
  using authz_rest_fst [OF authorize_scopes_stable [OF assms]]
  by (auto simp: authn_rest_def Let_def split: sum.split go_stop.split)

lemma authenticating_stable:
  assumes "set ans \<subseteq> set (sv_authenticators as)" "ok v" "ok w"
  shows "fst (phase_result as env req (Authenticating rw ar ans) v) = fst (phase_result as env req (Authenticating rw ar ans) w)"
proof -
  from Authenticate_stable [OF assms(1,2)] assms(2,3) obtain r v1 w1 where
    f: "Authenticate ans ar v = (r, v1)" "Authenticate ans ar w = (r, w1)" "ok v1" "ok w1" by (rule steadyE)
  then show ?thesis using authn_rest_stable [OF f(3,4)] by simp
qed

lemma authorizing_stable:
  assumes "set azs \<subseteq> set (sv_authorizers as)" "ok v" "ok w"
  shows "fst (phase_result as env req (Authorizing rw ar ares scope azs scopes) v) =
    fst (phase_result as env req (Authorizing rw ar ares scope azs scopes) w)"
proof -
  from authorizeScope_stable [OF assms(1,2)] assms(2,3) obtain r v1 w1 where
    f: "authorizeScope azs (scope_info ar scope) v = (r, v1)" "authorizeScope azs (scope_info ar scope) w = (r, w1)"
      "ok v1" "ok w1" by (rule steadyE)
  then show ?thesis
    using authz_rest_fst [OF authorize_scopes_stable [OF f(3,4)]] by (cases r) (auto intro: authz_rest_fst)
qed

lemma received_stable:
  assumes "ok v" "ok w"
  shows "fst (ServeHTTP as env req v) = fst (ServeHTTP as env req w)"
proof -
  have "phase_result as env req (receive as req) u = ServeHTTP as env req u" for u
    using step_result [of as env req Received u "receive as req" u] by simp
  moreover have "fst (phase_result as env req (receive as req) v) = fst (phase_result as env req (receive as req) w)"
    using authenticating_stable [OF subset_refl assms]
    by (auto simp: receive_def parse_phase_def Let_def simp del: phase_result.simps(2) split: sum.split go_stop.split)
  ultimately show ?thesis by simp
qed

lemma phase_result_stable:
  assumes "phase_wf as ok env req p" "ok v" "ok w"
  shows "fst (phase_result as env req p v) = fst (phase_result as env req p w)"
proof (cases p)
  case Received
  then show ?thesis using received_stable [OF assms(2,3)] by simp
next
  case (Authenticating rw ar ans)
  then have "set ans \<subseteq> set (sv_authenticators as)" using assms(1) by auto
  then show ?thesis unfolding Authenticating by (rule authenticating_stable [OF _ assms(2,3)])
next
  case (Authorizing rw ar ares scope azs scopes)
  then have "set azs \<subseteq> set (sv_authorizers as)" using assms(1) by auto
  then show ?thesis unfolding Authorizing by (rule authorizing_stable [OF _ assms(2,3)])
qed simp

text \<open>Whatever happens to the others, the response a request is heading for stays the same.\<close>

lemma step_heading:
  assumes "server_step as outside e s s'" "run_ok as ok s" "i < length (sg_requests s)" "ok v"
  shows "fst (phase_result as (op_env (sg_requests s ! i)) (op_request (sg_requests s ! i)) (op_phase (sg_requests s' ! i)) v) =
    fst (phase_result as (op_env (sg_requests s ! i)) (op_request (sg_requests s ! i)) (op_phase (sg_requests s ! i)) v)"
proof (cases "e = Call i")
  case True
  let ?q = "sg_requests s ! i"
  obtain p' w' where st: "request_step as (op_env ?q) (op_request ?q) (op_phase ?q) (sg_world s) = (p', w')"
    by (meson surj_pair)
  have wf: "phase_wf as ok (op_env ?q) (op_request ?q) (op_phase ?q)" and w: "ok (sg_world s)"
    using assms(2,3) by (auto simp: run_ok_def)
  have p': "op_phase (sg_requests s' ! i) = p'"
    using step_at [OF assms(1,3)] True st by (simp add: phase_step_def)
  have "fst (phase_result as (op_env ?q) (op_request ?q) p' v) = fst (phase_result as (op_env ?q) (op_request ?q) p' w')"
    by (rule phase_result_stable [OF step_wf [OF wf w st] assms(4) request_keeps [OF wf w st]])
  also have "\<dots> = fst (phase_result as (op_env ?q) (op_request ?q) (op_phase ?q) (sg_world s))"
    by (simp add: step_result [OF st])
  also have "\<dots> = fst (phase_result as (op_env ?q) (op_request ?q) (op_phase ?q) v)"
    by (rule phase_result_stable [OF wf w assms(4)])
  finally show ?thesis unfolding p' .
next
  case False
  then show ?thesis using step_at [OF assms(1,3)] by simp
qed

lemma step_new:
  "server_step as outside e s s' \<Longrightarrow> i < length (sg_requests s') \<Longrightarrow> \<not> i < length (sg_requests s) \<Longrightarrow>
   op_phase (sg_requests s' ! i) = Received"
  by (erule server_step.cases) (auto simp: nth_append)

lemma run_heading:
  assumes "server_run as outside (idle_server w) es s" "ok w"
  shows "i < length (sg_requests s) \<Longrightarrow>
    fst (phase_result as (op_env (sg_requests s ! i)) (op_request (sg_requests s ! i)) (op_phase (sg_requests s ! i)) w) =
    fst (ServeHTTP as (op_env (sg_requests s ! i)) (op_request (sg_requests s ! i)) w)"
  using assms(1)
proof (induction arbitrary: i rule: server_run.induct)
  case run_start
  then show ?case by (simp add: idle_server_def)
next
  case (run_step es s1 e s2)
  show ?case
  proof (cases "i < length (sg_requests s1)")
    case True
    have same: "op_env (sg_requests s2 ! i) = op_env (sg_requests s1 ! i)" "op_request (sg_requests s2 ! i) = op_request (sg_requests s1 ! i)"
      using step_at [OF run_step.hyps(2) True] by (auto simp: same_request_def)
    show ?thesis
      using step_heading [OF run_step.hyps(2) from_idle [OF run_step.hyps(1) assms(2)] True assms(2)] run_step.IH [OF True]
      unfolding same by simp
  next
    case False
    with run_step.hyps(2) run_step.prems have "op_phase (sg_requests s2 ! i) = Received" by (rule step_new)
    then show ?thesis by simp
  qed
qed

lemma concurrent_answer:
  assumes "server_run as outside (idle_server w) es s" "ok w" "q \<in> set (sg_requests s)" "op_phase q = Responded r" "ok v"
  shows "r = fst (ServeHTTP as (op_env q) (op_request q) v)"
proof -
  obtain i where "i < length (sg_requests s)" "sg_requests s ! i = q" using assms(3) by (auto simp: in_set_conv_nth)
  then have "r = fst (ServeHTTP as (op_env q) (op_request q) w)" using run_heading [OF assms(1,2), of i] assms(4) by simp
  then show ?thesis using received_stable [OF assms(2,5)] by simp
qed

end

definition steady_server ::
  "('pub, 'prv, 'w) auth_server \<Rightarrow> ('w \<Rightarrow> 'w \<Rightarrow> bool) \<Rightarrow> ('w \<Rightarrow> bool) \<Rightarrow> 'w \<Rightarrow> bool" where
  "steady_server as outside ok w \<longleftrightarrow> ok w \<and>
     (\<forall>a \<in> set (sv_authenticators as). \<forall>u p. steady ok (a u p)) \<and>
     (\<forall>z \<in> set (sv_authorizers as). \<forall>ai. steady ok (z ai)) \<and>
     (\<forall>w w'. ok w \<longrightarrow> outside w w' \<longrightarrow> ok w')"

lemma steady_keeps: "steady ok f \<Longrightarrow> ok w \<Longrightarrow> f w = (r, w') \<Longrightarrow> ok w'"
  unfolding steady_def by (metis snd_conv)

lemma steady_server_parts:
  assumes "steady ok f"
  shows "steady (steady_server as outside ok) f"
proof (rule steadyI)
  fix v w assume v: "steady_server as outside ok v" and w: "steady_server as outside ok w"
  then have ok: "ok v" "ok w" unfolding steady_server_def by blast+
  from assms ok obtain r v1 w1 where r: "f v = (r, v1)" "f w = (r, w1)" "ok v1" "ok w1" by (rule steadyE)
  have "steady_server as outside ok v1" using v r(3) unfolding steady_server_def by blast
  then show "fst (f v) = fst (f w) \<and> steady_server as outside ok (snd (f v))" using r by simp
qed

interpretation steady: stable_state as outside "steady_server as outside ok" for as outside ok
proof
  fix a w u p ra w'
  assume "a \<in> set (sv_authenticators as)" "steady_server as outside ok w" "a u p w = (ra, w')"
  then show "steady_server as outside ok w'" unfolding steady_server_def using steady_keeps by metis
next
  fix z w ai rz w'
  assume "z \<in> set (sv_authorizers as)" "steady_server as outside ok w" "z ai w = (rz, w')"
  then show "steady_server as outside ok w'" unfolding steady_server_def using steady_keeps by metis
next
  fix w w' assume "steady_server as outside ok w" "outside w w'"
  then show "steady_server as outside ok w'" unfolding steady_server_def by blast
next
  fix a v u p assume "a \<in> set (sv_authenticators as)" "steady_server as outside ok v"
  then show "steady (steady_server as outside ok) (a u p)"
    by (intro steady_server_parts) (auto simp: steady_server_def)
next
  fix z v ai assume "z \<in> set (sv_authorizers as)" "steady_server as outside ok v"
  then show "steady (steady_server as outside ok) (z ai)"
    by (intro steady_server_parts) (auto simp: steady_server_def)
qed

section \<open>Stable worlds\<close>

text \<open>
  The plugins of a configuration, the reviews of tokens behind their cache, and the Kubernetes API
  give the same answers at all times.
\<close>

definition world_stable :: "('q, 'r, 'cl, 'x) externals \<Rightarrow> ('pub, 'prv, 'q) config \<Rightarrow> bool" where
  "world_stable ext c \<longleftrightarrow>
     (\<forall>p a. cf_PluginAuthn c = Some p \<and> lookupAuthnSymbol (ex_authn ext) p = Inr a \<longrightarrow>
        (\<forall>u q x y. fst (a u q x) = fst (a u q y))) \<and>
     (\<forall>p a. cf_PluginAuthz c = Some p \<and> lookupAuthzSymbol (ex_authz ext) p = Inr a \<longrightarrow>
        (\<forall>ai x y. fst (a ai x) = fst (a ai y))) \<and>
     (\<forall>k a. cf_KubernetesAuth c = Some k \<and>
        NewKubernetesAuth (kb_loader (ex_kube ext)) (ra_new_client (kb_rules (ex_kube ext))) (ex_tokens ext)
          (ex_token_cache ext) (Some k) = Inr a \<longrightarrow>
        (\<forall>u q x y. fst (a u q x) = fst (a u q y))) \<and>
     (\<forall>k ka. cf_KubernetesAuth c = Some k \<and> NewKubernetesAuthz (ex_kube ext) (Some k) = Inr ka \<longrightarrow>
        (\<exists>checker fetcher exists rules_of. ka = cached_authz (ex_kube ext) k checker fetcher \<and>
           api_stable (ex_kube ext) checker fetcher exists rules_of))"

lemma steady_constant: "(\<And>w. f w = (r, w)) \<Longrightarrow> steady ok f"
  by (simp add: steady_def)

lemma steady_world:
  assumes "\<And>x y. fst (f x) = fst (f y)" "\<And>s x. ok s \<Longrightarrow> ok (s\<lparr>ks_world := x\<rparr>)"
  shows "steady ok (on_world f)"
proof (rule steadyI)
  fix v w :: "'a kube_state" assume "ok v" "ok w"
  then show "fst (on_world f v) = fst (on_world f w) \<and> ok (snd (on_world f v))"
    using assms(1) [of "ks_world v" "ks_world w"] assms(2)
    by (cases "f (ks_world v)"; cases "f (ks_world w)") (simp add: on_world_def)
qed

lemma steady_world_authn:
  "(\<And>u q x y. fst (a u q x) = fst (a u q y)) \<Longrightarrow> (\<And>s x. ok s \<Longrightarrow> ok (s\<lparr>ks_world := x\<rparr>)) \<Longrightarrow> steady ok (world_authn a u p)"
  unfolding world_authn_def [abs_def] by (rule steady_world)

lemma steady_world_authz:
  "(\<And>ai x y. fst (a ai x) = fst (a ai y)) \<Longrightarrow> (\<And>s x. ok s \<Longrightarrow> ok (s\<lparr>ks_world := x\<rparr>)) \<Longrightarrow> steady ok (world_authz a ai)"
  unfolding world_authz_def [abs_def] by (rule steady_world)

lemma steady_kube:
  fixes api :: "('q, 'r, 'cl, 'x) kube_api"
  assumes "api_stable api checker fetcher exists rules_of"
  shows "steady (stable_caches exists rules_of) (kube_Authorize glob (cached_authz api config checker fetcher) ai)"
proof (rule steadyI)
  fix v w :: "'x kube_state" assume "stable_caches exists rules_of v" "stable_caches exists rules_of w"
  then show "fst (kube_Authorize glob (cached_authz api config checker fetcher) ai v) =
      fst (kube_Authorize glob (cached_authz api config checker fetcher) ai w) \<and>
    stable_caches exists rules_of (snd (kube_Authorize glob (cached_authz api config checker fetcher) ai v))"
    using kube_stable.authorize_refines [of api checker fetcher exists rules_of v glob config ai]
      kube_stable.authorize_refines [of api checker fetcher exists rules_of w glob config ai] assms by simp
qed

lemma stable_caches_world: "stable_caches exists rules_of s \<Longrightarrow> stable_caches exists rules_of (s\<lparr>ks_world := x\<rparr>)"
  by (simp add: stable_caches_def ns_cache_ok_def)

lemma stable_caches_start: "stable_caches exists rules_of (kube_start x)"
  by (simp add: stable_caches_def kube_start_def ns_cache_ok_def rules_held_def rules_from_def)

text \<open>The authenticators and the static parts are steady under every condition that the world does not matter for.\<close>

lemma stable_authenticators:
  assumes "NewAuthServer ext c = Inr sv" "world_stable ext c" "a \<in> set (sv_authenticators sv)"
    and w: "\<And>s x. ok s \<Longrightarrow> ok (s\<lparr>ks_world := x\<rparr>)"
  shows "steady ok (a u q)"
proof -
  obtain plugin_ans kube_ans kube_azs where p: "plugin_authenticators ext (cf_PluginAuthn c) = Inr plugin_ans"
    "kubernetes_parts ext (cf_KubernetesAuth c) = Inr (kube_ans, kube_azs)"
    and sv: "sv_authenticators sv = static_authenticators ext (cf_Users c) @ plugin_ans @ kube_ans"
    using assms(1) unfolding NewAuthServer_Inr by auto
  have "steady ok (a u q)" if st: "a \<in> set (static_authenticators ext (cf_Users c))"
  proof -
    obtain users where "a = static_Authenticate (ex_bcrypt ext) users"
      using st by (cases "cf_Users c") (auto simp: static_authenticators_def)
    then show ?thesis by (intro steady_constant) (simp add: static_Authenticate_def)
  qed
  moreover have "steady ok (a u q)" if "a \<in> set plugin_ans"
    using that p(1) assms(2) unfolding plugin_authenticators_Inr world_stable_def
    by (auto intro!: steady_world_authn w)
  moreover have "steady ok (a u q)" if "a \<in> set kube_ans"
    using that p(2) assms(2) unfolding kubernetes_parts_Inr world_stable_def
    by (auto intro!: steady_world_authn w)
  ultimately show ?thesis using assms(3) unfolding sv by auto
qed

lemma stable_authorizers:
  assumes "NewAuthServer ext c = Inr sv" "world_stable ext c"
  obtains ok where "\<And>z ai. z \<in> set (sv_authorizers sv) \<Longrightarrow> steady ok (z ai)"
    "\<And>s x. ok s \<Longrightarrow> ok (s\<lparr>ks_world := x\<rparr>)" "\<And>x. ok (kube_start x)"
proof -
  obtain acl_azs plugin_azs kube_ans kube_azs where p: "static_authorizers ext (cf_ACL c) = Inr acl_azs"
    "plugin_authorizers ext (cf_PluginAuthz c) = Inr plugin_azs" "kubernetes_parts ext (cf_KubernetesAuth c) = Inr (kube_ans, kube_azs)"
    and sv: "sv_authorizers sv = acl_azs @ plugin_azs @ kube_azs"
    using assms(1) unfolding NewAuthServer_Inr by auto
  have acl: "steady ok (z ai)" if "z \<in> set acl_azs" for ok z ai
    using p(1) that by (auto simp: static_authorizers_Inr acl_Authorize_def intro: steady_constant)
  have plugin: "steady ok (z ai)" if "z \<in> set plugin_azs" "\<And>s x. ok s \<Longrightarrow> ok (s\<lparr>ks_world := x\<rparr>)" for ok z ai
    using p(2) that assms(2) unfolding plugin_authorizers_Inr world_stable_def by (auto intro!: steady_world_authz)
  from p(3) consider "kube_azs = []" | k ka where "cf_KubernetesAuth c = Some k" "NewKubernetesAuthz (ex_kube ext) (Some k) = Inr ka"
      "kube_azs = [kube_Authorize (ex_glob ext) ka]"
    unfolding kubernetes_parts_Inr kubernetes_authorizers_Inr by blast
  then show ?thesis
  proof cases
    case 1
    show ?thesis
      by (rule that [of "\<lambda>_. True"]) (use 1 sv acl plugin in auto)
  next
    case (2 k ka)
    then obtain checker fetcher exists rules_of where ka: "ka = cached_authz (ex_kube ext) k checker fetcher"
      "api_stable (ex_kube ext) checker fetcher exists rules_of"
      using assms(2) unfolding world_stable_def by blast
    show ?thesis
    proof (rule that [of "stable_caches exists rules_of"])
      fix z ai assume "z \<in> set (sv_authorizers sv)"
      then consider "z \<in> set acl_azs" | "z \<in> set plugin_azs" | "z = kube_Authorize (ex_glob ext) ka"
        using 2(3) sv by auto
      then show "steady (stable_caches exists rules_of) (z ai)"
      proof cases
        case 3
        then show ?thesis unfolding ka(1) using steady_kube [OF ka(2)] by simp
      qed (auto intro: acl plugin stable_caches_world)
    qed (rule stable_caches_world, assumption, rule stable_caches_start)
  qed
qed

text \<open>
  C3. While the world is stable, concurrency and caches cannot be observed: whatever the interleaving of the
  requests of a configured server, its cache hits, expired entries and the passing of time, every
  request that is answered gets exactly the response the sequential handler gives to it on a
  server that has just been started.
\<close>

theorem concurrent_answers_stable:
  fixes ext :: "('q, 'r, 'cl, 'x) externals"
  assumes "NewAuthServer ext c = Inr sv" "world_stable ext c"
    and "server_run sv world_changes (idle_server (kube_start x)) es s"
    and "q \<in> set (sg_requests s)" "op_phase q = Responded r"
  shows "r = fst (ServeHTTP sv (op_env q) (op_request q) (kube_start y))"
  using assms(1,2)
proof (rule stable_authorizers)
  fix ok :: "'x kube_state \<Rightarrow> bool"
  assume z: "\<And>z ai. z \<in> set (sv_authorizers sv) \<Longrightarrow> steady ok (z ai)"
    and w: "\<And>s x. ok s \<Longrightarrow> ok (s\<lparr>ks_world := x\<rparr>)" and start: "\<And>x. ok (kube_start x)"
  have a: "steady ok (a u q)" if "a \<in> set (sv_authenticators sv)" for a u q
    by (rule stable_authenticators [OF assms(1,2) that]) (rule w)
  have "ok w'" if "ok v" "world_changes v w'" for v w' using that w by (auto simp: world_changes_def)
  then have ok: "steady_server sv world_changes ok (kube_start x)" for x
    using z a start unfolding steady_server_def by blast
  show ?thesis by (rule steady.concurrent_answer [OF assms(3) ok assms(4,5) ok])
qed

lemma test_world_stable: "world_stable test_ext test_loaded"
proof -
  have c: "cf_PluginAuthn test_loaded = None" "cf_PluginAuthz test_loaded = None" "cf_KubernetesAuth test_loaded = Some test_config"
    by (simp_all add: test_loaded_def test_config_file_def)
  have "fst (a u q x) = fst (a u q y)"
    if "NewKubernetesAuth (kb_loader (ex_kube test_ext)) (ra_new_client (kb_rules (ex_kube test_ext))) (ex_tokens test_ext)
          (ex_token_cache test_ext) (Some test_config) = Inr a" for a u q x y
    using that
    by (auto simp: NewKubernetesAuth_def NewTokenReviewer_def test_ext_parts k8s_Authenticate_def Let_def
        test_ext_def AuthenticateToken_def review_attempt_def reviewer_Create_def split: if_splits)
  then show ?thesis
    unfolding world_stable_def c
    using test_api_stable test_kube_authz_made by (auto simp: test_ext_parts test_kube_authz_def)
qed

lemma concurrent_answers_stable_witness:
  "\<exists>sv. NewAuthServer test_ext test_loaded = Inr sv \<and>
     fst (ServeHTTP sv test_env bob_request (kube_start 0)) = fst (ServeHTTP sv test_env bob_request (kube_start 9))"
proof -
  obtain sv where sv: "NewAuthServer test_ext test_loaded = Inr sv" using test_server_starts by blast
  obtain r w where r: "ServeHTTP sv test_env bob_request (kube_start 0) = (r, w)" by (meson surj_pair)
  have "r = fst (ServeHTTP sv test_env bob_request (kube_start 9))"
    using concurrent_answers_stable [OF sv test_world_stable lone_run [OF r], where y = 9] by simp
  then show ?thesis using sv r by auto
qed

end
