(* ===== verification/Main_Server.thy ===== *)
theory Main_Server
  imports Server_Start
begin

text \<open>
  \<^verbatim>\<open>main.go\<close>: starting the server from a configuration, and the loop that watches the configuration
  file and restarts it.

  The operating system is a record of arguments on a state \<open>'o\<close>: files, sockets, certificates. A
  fatal log entry (\<^verbatim>\<open>glog.Exitf\<close>, \<^verbatim>\<open>glog.Fatal\<close>) ends the process; it is a panic of the model.
\<close>

section \<open>Numbers of TLS parameters\<close>

text \<open>
  \<^verbatim>\<open>strconv.ParseUint(s, 0, 16)\<close>: the base is read from the prefix, and underscores may separate
  digits. The two kinds of error are not told apart.
\<close>

definition uint_base :: "string \<Rightarrow> nat \<times> string" where
  "uint_base s =
     (if s = [] \<or> hd s \<noteq> CHR ''0'' then (10, s)
      else if length s \<ge> 3 \<and> lower_char (s ! 1) = CHR ''b'' then (2, drop 2 s)
      else if length s \<ge> 3 \<and> lower_char (s ! 1) = CHR ''o'' then (8, drop 2 s)
      else if length s \<ge> 3 \<and> lower_char (s ! 1) = CHR ''x'' then (16, drop 2 s)
      else (8, tl s))"

definition uint_digit :: "char \<Rightarrow> nat option" where
  "uint_digit c =
     (if is_digit c then Some (code c - 48)
      else if is_lower (lower_char c) then Some (code (lower_char c) - 87)
      else None)"

fun uint_value :: "nat \<Rightarrow> nat \<Rightarrow> nat \<Rightarrow> string \<Rightarrow> nat option" where
  "uint_value limit base n [] = Some n"
| "uint_value limit base n (c # cs) =
     (if c = CHR ''_'' then uint_value limit base n cs
      else case uint_digit c of
          None \<Rightarrow> None
        | Some d \<Rightarrow>
            (if d \<ge> base then None
             else if n * base + d > limit then None
             else uint_value limit base (n * base + d) cs))"

text \<open>The automaton of \<^verbatim>\<open>underscoreOK\<close>: the last character seen was none, a digit, an underscore or another.\<close>

fun underscores_ok :: "bool \<Rightarrow> char \<Rightarrow> string \<Rightarrow> bool" where
  "underscores_ok hex saw [] = (saw \<noteq> CHR ''_'')"
| "underscores_ok hex saw (c # cs) =
     (if is_digit c \<or> (hex \<and> CHR ''a'' \<le> lower_char c \<and> lower_char c \<le> CHR ''f'') then underscores_ok hex CHR ''0'' cs
      else if c = CHR ''_'' then saw = CHR ''0'' \<and> underscores_ok hex CHR ''_'' cs
      else saw \<noteq> CHR ''_'' \<and> underscores_ok hex CHR ''!'' cs)"

definition underscoreOK :: "string \<Rightarrow> bool" where
  "underscoreOK s =
     (if length s \<ge> 2 \<and> s ! 0 = CHR ''0'' \<and> lower_char (s ! 1) \<in> {CHR ''b'', CHR ''o'', CHR ''x''}
      then underscores_ok (lower_char (s ! 1) = CHR ''x'') CHR ''0'' (drop 2 s)
      else underscores_ok False CHR ''^'' s)"

definition parse_uint16 :: "string \<Rightarrow> nat option" where
  "parse_uint16 s =
     (if s = [] then None
      else let (base, digits) = uint_base s in
        case uint_value (2 ^ 16 - 1) base 0 digits of
          None \<Rightarrow> None
        | Some n \<Rightarrow> (if CHR ''_'' \<in> set digits \<and> \<not> underscoreOK s then None else Some n))"

definition stringToUint16 :: "string \<Rightarrow> u16 go" where
  "stringToUint16 s =
     (case parse_uint16 s of
        None \<Rightarrow> Inl (Panic ''Failed to convert to uint16'')
      | Some v \<Rightarrow> Inr (of_nat v))"

section \<open>Serving\<close>

record 'cert tls_config =
  tls_MinVersion :: u16
  tls_CurvePreferences :: "u16 list"
  tls_CipherSuites :: "u16 list"
  tls_Certificates :: "'cert list"

record ('cert, 'l, 'o) os_api =
  os_Stat :: "string \<Rightarrow> 'o \<Rightarrow> bool"
  os_Remove :: "string \<Rightarrow> 'o \<Rightarrow> go_error option \<times> 'o"
  os_Listen :: "string \<Rightarrow> string \<Rightarrow> 'o \<Rightarrow> (go_error + 'l) \<times> 'o"
  os_Close :: "'l \<Rightarrow> 'o \<Rightarrow> 'o"
  os_LoadX509 :: "string \<Rightarrow> string \<Rightarrow> 'o \<Rightarrow> go_error + 'cert"
  os_CipherSuites :: "u16 list"

text \<open>A name from the table, or a number.\<close>

definition tls_value :: "(string \<times> u16) list \<Rightarrow> string \<Rightarrow> u16 go" where
  "tls_value table s = (case map_of table s of Some v \<Rightarrow> Inr v | None \<Rightarrow> stringToUint16 s)"

definition tls_settings :: "u16 list \<Rightarrow> ('pub, 'prv) server_config \<Rightarrow> 'cert tls_config go" where
  "tls_settings suites s =
     go_then (if sc_TLSMinVersion s \<noteq> [] then tls_value TLSVersionValues (sc_TLSMinVersion s) else Inr 0) (\<lambda>min.
     go_then (case sc_TLSCurvePreferences s of None \<Rightarrow> Inr [] | Some cs \<Rightarrow> go_map (tls_value TLSCurveIDValues) cs) (\<lambda>curves.
     go_then (case sc_TLSCipherSuites s of None \<Rightarrow> Inr suites | Some cs \<Rightarrow> go_map (tls_value TLSCipherSuitesValues) cs) (\<lambda>ciphers.
     Inr \<lparr>tls_MinVersion = min, tls_CurvePreferences = curves, tls_CipherSuites = ciphers, tls_Certificates = []\<rparr>)))"

text \<open>Without a certificate and a key there is no TLS, whatever was configured for it.\<close>

definition tls_certificate ::
  "('cert, 'l, 'o) os_api \<Rightarrow> ('pub, 'prv) server_config \<Rightarrow> 'o \<Rightarrow> 'cert tls_config \<Rightarrow> 'cert tls_config option go" where
  "tls_certificate os s w tls =
     (if sc_CertFile s \<noteq> [] \<or> sc_KeyFile s \<noteq> [] then
        (if sc_CertFile s = [] \<or> sc_KeyFile s = []
         then Inl (Panic ''Failed to load certificate and key: both were not provided'')
         else case os_LoadX509 os (sc_CertFile s) (sc_KeyFile s) w of
             Inl err \<Rightarrow> Inl (Panic ''Failed to load certificate and key'')
           | Inr cert \<Rightarrow> Inr (Some (tls\<lparr>tls_Certificates := [cert]\<rparr>)))
      else Inr None)"

definition start_listener ::
  "('cert, 'l, 'o) os_api \<Rightarrow> ('pub, 'prv) server_config \<Rightarrow> 'o \<Rightarrow> 'l go \<times> 'o" where
  "start_listener os s w =
     (let (removed, w1) =
            (if sc_Net s = ''unix'' \<and> os_Stat os (sc_ListenAddress s) w then os_Remove os (sc_ListenAddress s) w
             else (None, w))
      in case removed of
          Some err \<Rightarrow> (Inl (Panic ''cannot remove the socket''), w1)
        | None \<Rightarrow>
            (case os_Listen os (if sc_Net s = ''unix'' then ''unix'' else ''tcp'') (sc_ListenAddress s) w1 of
               (Inl err, w2) \<Rightarrow> (Inl (Panic ''cannot listen''), w2)
             | (Inr l, w2) \<Rightarrow> (Inr l, w2)))"

text \<open>A server that serves: its handler, its settings, and whether it serves with TLS.\<close>

record ('pub, 'prv, 'q, 'w, 'cert, 'l) running =
  rn_config :: "('pub, 'prv, 'q) config"
  rn_auth :: "('pub, 'prv, 'w) auth_server"
  rn_TLSConfig :: "'cert tls_config option"
  rn_listener :: 'l
  rn_ServeTLS :: bool

definition ServeOnce ::
  "('q, 'r, 'cl, 'x) externals \<Rightarrow> ('cert, 'l, 'o) os_api \<Rightarrow> ('pub, 'prv, 'q) config \<Rightarrow> 'o \<Rightarrow>
   ('pub, 'prv, 'q, 'x kube_state, 'cert, 'l) running go \<times> 'o" where
  "ServeOnce ext os c w =
     (case NewAuthServer ext c of
        Inl (Panic m) \<Rightarrow> (Inl (Panic m), w)
      | Inl (Err e) \<Rightarrow> (Inl (Panic ''Failed to create auth server''), w)
      | Inr as \<Rightarrow>
          (case go_then (tls_settings (os_CipherSuites os) (cf_Server c)) (tls_certificate os (cf_Server c) w) of
             Inl st \<Rightarrow> (Inl st, w)
           | Inr tlsConfig \<Rightarrow>
               (case start_listener os (cf_Server c) w of
                  (Inl st, w') \<Rightarrow> (Inl st, w')
                | (Inr l, w') \<Rightarrow>
                    (Inr \<lparr>rn_config = c, rn_auth = as, rn_TLSConfig = tlsConfig, rn_listener = l,
                         rn_ServeTLS = (\<not> (sc_CertFile (cf_Server c) = [] \<and> sc_KeyFile (cf_Server c) = []))\<rparr>, w'))))"

section \<open>Watching the configuration file\<close>

text \<open>The operations of \<^verbatim>\<open>fsnotify\<close> are bits of a mask.\<close>

definition Create_op :: "32 word" where "Create_op = 1"
definition Write_op :: "32 word" where "Write_op = 2"
definition Remove_op :: "32 word" where "Remove_op = 4"
definition Rename_op :: "32 word" where "Rename_op = 8"
definition Chmod_op :: "32 word" where "Chmod_op = 16"

text \<open>
  What the loop works with: the watcher of the file, loading a configuration, and starting,
  closing and shutting down a server.
\<close>

record ('c, 's, 'o) watch_env =
  we_Add :: "'o \<Rightarrow> go_error option \<times> 'o"
  we_Remove :: "'o \<Rightarrow> 'o"
  we_Load :: "'o \<Rightarrow> 'c go"
  we_Start :: "'c \<Rightarrow> 'o \<Rightarrow> 's go \<times> 'o"
  we_Close :: "'s \<Rightarrow> 'o \<Rightarrow> 'o"

record ('s, 'o) watcher =
  wt_watching :: bool
  wt_needRestart :: bool
  wt_server :: 's
  wt_world :: 'o

text \<open>A configuration that does not load leaves the server as it is.\<close>

definition MaybeRestart :: "('c, 's, 'o) watch_env \<Rightarrow> 's \<Rightarrow> 'o \<Rightarrow> 's go \<times> 'o" where
  "MaybeRestart env srv w =
     (case we_Load env w of
        Inl (Err err) \<Rightarrow> (Inr srv, w)
      | Inl (Panic m) \<Rightarrow> (Inl (Panic m), w)
      | Inr c \<Rightarrow> we_Start env c (we_Close env srv w))"

text \<open>One second without an event; \<open>None\<close> when the process ends.\<close>

definition on_tick :: "('c, 's, 'o) watch_env \<Rightarrow> ('s, 'o) watcher \<Rightarrow> ('s, 'o) watcher option" where
  "on_tick env st =
     (if \<not> wt_watching st then
        (case we_Add env (wt_world st) of
           (Some err, w) \<Rightarrow> Some (st\<lparr>wt_world := w\<rparr>)
         | (None, w) \<Rightarrow> Some (st\<lparr>wt_watching := True, wt_needRestart := True, wt_world := w\<rparr>))
      else if wt_needRestart st then
        (case MaybeRestart env (wt_server st) (wt_world st) of
           (Inl stop, w) \<Rightarrow> None
         | (Inr srv, w) \<Rightarrow> Some (st\<lparr>wt_server := srv, wt_needRestart := False, wt_world := w\<rparr>))
      else Some st)"

definition on_file_event :: "('c, 's, 'o) watch_env \<Rightarrow> 32 word \<Rightarrow> ('s, 'o) watcher \<Rightarrow> ('s, 'o) watcher" where
  "on_file_event env op st =
     (if op = Remove_op then
        st\<lparr>wt_world := we_Remove env (wt_world st), wt_watching := False, wt_needRestart := False\<rparr>
      else if op = Write_op then st\<lparr>wt_needRestart := True\<rparr>
      else st)"

text \<open>The start of the loop: the watch may fail to be set up.\<close>

definition watch_start :: "('c, 's, 'o) watch_env \<Rightarrow> 's \<Rightarrow> 'o \<Rightarrow> ('s, 'o) watcher" where
  "watch_start env srv w =
     (let (err, w') = we_Add env w in
      \<lparr>wt_watching = (err = None), wt_needRestart = False, wt_server = srv, wt_world = w'\<rparr>)"

text \<open>
  The \<^verbatim>\<open>select\<close> statement takes one of its branches; a signal ends the process. In between the world
  outside may change.
\<close>

inductive watch_step :: "('c, 's, 'o) watch_env \<Rightarrow> ('s, 'o) watcher \<Rightarrow> ('s, 'o) watcher option \<Rightarrow> bool"
  for env where
  tick: "watch_step env st (on_tick env st)"
| file_event: "watch_step env st (Some (on_file_event env op st))"
| signal: "watch_step env st None"
| outside: "watch_step env st (Some (st\<lparr>wt_world := w\<rparr>))"

inductive_cases watch_stepE: "watch_step env st r"

inductive WatchConfig :: "('c, 's, 'o) watch_env \<Rightarrow> 's \<Rightarrow> 'o \<Rightarrow> ('s, 'o) watcher option \<Rightarrow> bool"
  for env srv w where
  started: "WatchConfig env srv w (Some (watch_start env srv w))"
| stepped: "WatchConfig env srv w (Some st) \<Longrightarrow> watch_step env st r \<Longrightarrow> WatchConfig env srv w r"

text \<open>A run of given events, for the ordered behaviours.\<close>

datatype watch_event = Tick | FileEvent "32 word"

fun run_events :: "('c, 's, 'o) watch_env \<Rightarrow> watch_event list \<Rightarrow> ('s, 'o) watcher \<Rightarrow> ('s, 'o) watcher option" where
  "run_events env [] st = Some st"
| "run_events env (Tick # es) st = (case on_tick env st of None \<Rightarrow> None | Some st' \<Rightarrow> run_events env es st')"
| "run_events env (FileEvent op # es) st = run_events env es (on_file_event env op st)"

section \<open>The program\<close>

text \<open>The environment of the loop in the program: the file system decides what is read.\<close>

definition program_env ::
  "('o \<Rightarrow> ('pub, 'prv, 'q) config_source) \<Rightarrow> ('fa, 'fz) validators \<Rightarrow> ('c, 'pub, 'prv) key_tools \<Rightarrow>
   ('q, 'r, 'cl, 'x) externals \<Rightarrow> ('cert, 'l, 'o) os_api \<Rightarrow> (string \<Rightarrow> 'o \<Rightarrow> go_error option \<times> 'o) \<Rightarrow>
   (string \<Rightarrow> 'o \<Rightarrow> 'o) \<Rightarrow> string \<Rightarrow>
   (('pub, 'prv, 'q) config, ('pub, 'prv, 'q, 'x kube_state, 'cert, 'l) running, 'o) watch_env" where
  "program_env src vl kt ext os add rem configFile =
     \<lparr>we_Add = add configFile, we_Remove = rem configFile,
      we_Load = (\<lambda>w. LoadConfig (src w) vl kt configFile),
      we_Start = ServeOnce ext os,
      we_Close = (\<lambda>srv. os_Close os (rn_listener srv))\<rparr>"

text \<open>
  \<^verbatim>\<open>main\<close> up to the loop, given the first argument of the command line and whether the watcher of
  \<^verbatim>\<open>fsnotify\<close> can be made.
\<close>

definition Serve ::
  "(('pub, 'prv, 'q) config, ('pub, 'prv, 'q, 'w, 'cert, 'l) running, 'o) watch_env \<Rightarrow> bool \<Rightarrow> ('pub, 'prv, 'q) config \<Rightarrow> 'o \<Rightarrow>
   (('pub, 'prv, 'q, 'w, 'cert, 'l) running, 'o) watcher go" where
  "Serve env new_watcher config w =
     (case we_Start env config w of
        (Inl st, w') \<Rightarrow> Inl st
      | (Inr srv, w') \<Rightarrow>
          (if \<not> new_watcher then Inl (Panic ''Failed to create watcher'')
           else Inr (watch_start env srv w')))"

definition main_start ::
  "(string \<Rightarrow> (('pub, 'prv, 'q) config, ('pub, 'prv, 'q, 'w, 'cert, 'l) running, 'o) watch_env) \<Rightarrow> bool \<Rightarrow> string \<Rightarrow> 'o \<Rightarrow>
   (('pub, 'prv, 'q, 'w, 'cert, 'l) running, 'o) watcher go" where
  "main_start env new_watcher cf w =
     (if cf = [] then Inl (Panic ''Config file not specified'')
      else case we_Load (env cf) w of
          Inl (Err err) \<Rightarrow> Inl (Panic ''Failed to load config'')
        | Inl (Panic m) \<Rightarrow> Inl (Panic m)
        | Inr config \<Rightarrow> Serve (env cf) new_watcher config w)"

section \<open>What serves was loaded\<close>

locale config_watch =
  fixes env :: "('c, 's, 'o) watch_env" and good :: "'s \<Rightarrow> bool"
  assumes start_good: "we_Load env w = Inr c \<Longrightarrow> we_Start env c w' = (Inr srv, w'') \<Longrightarrow> good srv"
begin

lemma restart_good: "good srv \<Longrightarrow> MaybeRestart env srv w = (Inr srv', w') \<Longrightarrow> good srv'"
  using start_good by (auto simp: MaybeRestart_def split: sum.splits go_stop.splits)

lemma step_good: "watch_step env st (Some st') \<Longrightarrow> good (wt_server st) \<Longrightarrow> good (wt_server st')"
  by (erule watch_stepE)
     (auto simp: on_tick_def on_file_event_def split: if_splits prod.splits option.splits sum.splits dest: restart_good)

lemma always_good: "WatchConfig env srv w (Some st) \<Longrightarrow> good srv \<Longrightarrow> good (wt_server st)"
proof (induction "Some st" arbitrary: st rule: WatchConfig.induct)
  case started
  then show ?case by (simp add: watch_start_def split: prod.split)
next
  case (stepped st0)
  then show ?case using step_good by blast
qed

end

text \<open>A server is good when its configuration was loaded and the server was made from it.\<close>

definition served_config ::
  "('o \<Rightarrow> ('pub, 'prv, 'q) config_source) \<Rightarrow> ('fa, 'fz) validators \<Rightarrow> ('c, 'pub, 'prv) key_tools \<Rightarrow>
   ('q, 'r, 'cl, 'x) externals \<Rightarrow> string \<Rightarrow> ('pub, 'prv, 'q, 'x kube_state, 'cert, 'l) running \<Rightarrow> bool" where
  "served_config src vl kt ext configFile srv \<longleftrightarrow>
     (\<exists>w. LoadConfig (src w) vl kt configFile = Inr (rn_config srv)) \<and>
     NewAuthServer ext (rn_config srv) = Inr (rn_auth srv)"

lemma ServeOnce_Inr:
  "ServeOnce ext os c w = (Inr rn, w') \<Longrightarrow>
   rn_config rn = c \<and> NewAuthServer ext c = Inr (rn_auth rn) \<and>
   (\<exists>tls. tls_settings (os_CipherSuites os) (cf_Server c) = Inr tls \<and>
      tls_certificate os (cf_Server c) w tls = Inr (rn_TLSConfig rn)) \<and>
   rn_ServeTLS rn = (\<not> (sc_CertFile (cf_Server c) = [] \<and> sc_KeyFile (cf_Server c) = []))"
  by (auto simp: ServeOnce_def go_err split: sum.splits go_stop.splits prod.splits)

interpretation program: config_watch "program_env src vl kt ext os add rem configFile"
  "served_config src vl kt ext configFile" for src vl kt ext os add rem configFile
  by unfold_locales (auto simp: program_env_def served_config_def dest: ServeOnce_Inr)

section \<open>Properties of the loop\<close>

lemma watched_config:
  assumes "LoadConfig (src w0) vl kt cf = Inr c" "ServeOnce ext os c w0 = (Inr srv, w)"
    and "WatchConfig (program_env src vl kt ext os add rem cf) srv w (Some st)"
  shows "(\<exists>w1. LoadConfig (src w1) vl kt cf = Inr (rn_config (wt_server st))) \<and>
    NewAuthServer ext (rn_config (wt_server st)) = Inr (rn_auth (wt_server st)) \<and>
    valid_config vl (rn_config (wt_server st)) \<and> tc_privateKey (cf_Token (rn_config (wt_server st))) \<noteq> None"
proof -
  have "served_config src vl kt ext cf srv"
    using assms(1) ServeOnce_Inr [OF assms(2)] by (auto simp: served_config_def)
  then have "served_config src vl kt ext cf (wt_server st)" using program.always_good [OF assms(3)] by blast
  then show ?thesis unfolding served_config_def using LoadConfig_valid loaded_key by blast
qed

text \<open>
  C13. Whatever happens to the configuration file, the server that serves was started from a
  configuration that was read from it, is valid and has a key to sign tokens with; a file that
  does not load never replaces it.
\<close>

theorem watched_server_valid:
  assumes "LoadConfig (src w0) vl kt cf = Inr c" "ServeOnce ext os c w0 = (Inr srv, w)"
    and "WatchConfig (program_env src vl kt ext os add rem cf) srv w (Some st)"
  shows "(\<exists>w1. LoadConfig (src w1) vl kt cf = Inr (rn_config (wt_server st))) \<and>
    NewAuthServer ext (rn_config (wt_server st)) = Inr (rn_auth (wt_server st)) \<and>
    valid_config vl (rn_config (wt_server st)) \<and> tc_privateKey (cf_Token (rn_config (wt_server st))) \<noteq> None"
  by (rule watched_config [OF assms])

lemma writes_then: "run_events env (replicate n (FileEvent Write_op) @ es) st =
    run_events env es (if n = 0 then st else st\<lparr>wt_needRestart := True\<rparr>)"
  by (induction n arbitrary: st) (auto simp: on_file_event_def Write_op_def Remove_op_def)

lemma events_keep_server: "run_events env (map FileEvent ops) st = Some st' \<Longrightarrow> wt_server st' = wt_server st"
  by (induction ops arbitrary: st) (auto simp: on_file_event_def split: if_splits)

text \<open>
  C38. A written configuration file is taken over at the next tick, however many writes there were. When the file loads,
  the old server is closed and the one started from the new configuration serves; when it does not
  load, the old server serves on and is not closed. When the file was removed and comes back, it is taken over
  at the second tick. A tick is a second without an event, since the loop sets its timer
  anew after each event: while events keep coming there is no reload.
\<close>

theorem reload_after_change:
  assumes "wt_watching st"
  shows "(we_Load env (wt_world st) = Inr c \<longrightarrow>
      we_Start env c (we_Close env (wt_server st) (wt_world st)) = (Inr srv, w1) \<longrightarrow>
      run_events env (replicate (Suc n) (FileEvent Write_op) @ [Tick]) st =
        Some (st\<lparr>wt_server := srv, wt_needRestart := False, wt_world := w1\<rparr>)) \<and>
    (we_Load env (wt_world st) = Inl (Err e) \<longrightarrow>
      run_events env (replicate (Suc n) (FileEvent Write_op) @ [Tick]) st = Some (st\<lparr>wt_needRestart := False\<rparr>)) \<and>
    (we_Add env (we_Remove env (wt_world st)) = (None, w2) \<longrightarrow> we_Load env w2 = Inr c \<longrightarrow>
      we_Start env c (we_Close env (wt_server st) w2) = (Inr srv, w3) \<longrightarrow>
      run_events env [FileEvent Remove_op, Tick, Tick] st =
        Some (st\<lparr>wt_server := srv, wt_needRestart := False, wt_world := w3\<rparr>)) \<and>
    (run_events env (map FileEvent ops) st = Some st' \<longrightarrow> wt_server st' = wt_server st)"
proof (intro conjI impI)
  show "run_events env (map FileEvent ops) st = Some st' \<Longrightarrow> wt_server st' = wt_server st"
    by (rule events_keep_server)
qed (use assms in \<open>simp_all add: writes_then on_tick_def on_file_event_def MaybeRestart_def Remove_op_def del: replicate.simps\<close>)

text \<open>
  Only the exact events write and remove are understood. Any other mask, such as a rename, or a write
  that comes with another operation in one event, changes nothing: without further events no
  number of ticks makes the server read the file again.
\<close>

theorem other_events_ignored:
  assumes "wt_watching st" "\<not> wt_needRestart st" "op \<noteq> Write_op" "op \<noteq> Remove_op"
  shows "run_events env (FileEvent op # replicate n Tick) st = Some st \<and>
    Rename_op \<noteq> Write_op \<and> Rename_op \<noteq> Remove_op \<and> or Write_op Chmod_op \<noteq> Write_op \<and> or Write_op Chmod_op \<noteq> Remove_op"
proof -
  have "run_events env (replicate n Tick) st = Some st"
    using assms(1,2) by (induction n) (auto simp: on_tick_def)
  then show ?thesis using assms(3,4)
    by (simp add: on_file_event_def Rename_op_def Write_op_def Remove_op_def Chmod_op_def)
qed

text \<open>
  C39. A configuration that loads can still end the process: the names of TLS versions, curves and cipher
  suites are looked at only when the new server is made, after the old one was closed, and an
  unknown one is fatal there.
\<close>

theorem reload_can_exit:
  assumes "wt_watching st" "wt_needRestart st"
    and "LoadConfig (src (wt_world st)) vl kt cf = Inr c"
    and "tls_settings (os_CipherSuites os) (cf_Server c) = (Inl stop :: 'cert tls_config go)"
  shows "on_tick (program_env src vl kt ext (os :: ('cert, 'l, 'o) os_api) add rem cf) st = None"
proof -
  have "\<exists>stop' w'. ServeOnce ext os c w = (Inl stop', w')" for w
  proof (cases "ServeOnce ext os c w")
    case (Pair r w')
    then show ?thesis using ServeOnce_Inr [of ext os c w] assms(4) by (cases r) auto
  qed
  then obtain stop' w' where
    "ServeOnce ext os c (os_Close os (rn_listener (wt_server st)) (wt_world st)) = (Inl stop', w')" by blast
  then show ?thesis
    using assms(1-3) by (auto simp: on_tick_def MaybeRestart_def program_env_def split: prod.splits sum.splits)
qed

text \<open>
  A running server speaks TLS exactly when a certificate and a key are configured, which come
  together; then it has that certificate, the least version is the named one or the number
  given, and without a choice of cipher suites the library's are offered.
\<close>

theorem ServeOnce_tls:
  assumes "ServeOnce ext os c w = (Inr rn, w')"
  shows "(rn_TLSConfig rn \<noteq> None \<longleftrightarrow> rn_ServeTLS rn) \<and>
    (rn_ServeTLS rn \<longleftrightarrow> sc_CertFile (cf_Server c) \<noteq> []) \<and> (sc_CertFile (cf_Server c) = [] \<longleftrightarrow> sc_KeyFile (cf_Server c) = []) \<and>
    (\<forall>tls. rn_TLSConfig rn = Some tls \<longrightarrow>
       (\<exists>cert. os_LoadX509 os (sc_CertFile (cf_Server c)) (sc_KeyFile (cf_Server c)) w = Inr cert \<and> tls_Certificates tls = [cert]) \<and>
       (sc_TLSMinVersion (cf_Server c) \<noteq> [] \<longrightarrow>
          tls_value TLSVersionValues (sc_TLSMinVersion (cf_Server c)) = Inr (tls_MinVersion tls)) \<and>
       (sc_TLSCipherSuites (cf_Server c) = None \<longrightarrow> tls_CipherSuites tls = os_CipherSuites os))"
proof -
  obtain tls where t: "tls_settings (os_CipherSuites os) (cf_Server c) = Inr tls"
    "tls_certificate os (cf_Server c) w tls = Inr (rn_TLSConfig rn)"
    and s: "rn_ServeTLS rn = (\<not> (sc_CertFile (cf_Server c) = [] \<and> sc_KeyFile (cf_Server c) = []))"
    using ServeOnce_Inr [OF assms] by blast
  have "(sc_TLSMinVersion (cf_Server c) \<noteq> [] \<longrightarrow>
          tls_value TLSVersionValues (sc_TLSMinVersion (cf_Server c)) = Inr (tls_MinVersion tls)) \<and>
       (sc_TLSCipherSuites (cf_Server c) = None \<longrightarrow> tls_CipherSuites tls = os_CipherSuites os)"
    using t(1) by (auto simp: tls_settings_def go_err split: if_splits option.splits)
  then show ?thesis
    using t(2) s by (cases "rn_TLSConfig rn") (auto simp: tls_certificate_def split: if_splits sum.splits)
qed

section \<open>Numbers\<close>

lemma digits_of_rec: "n < 10 \<Longrightarrow> digits_of n = [char_of (48 + n)]"
  "\<not> n < 10 \<Longrightarrow> digits_of n = digits_of (n div 10) @ [char_of (48 + n mod 10)]"
  by (simp_all add: digits_of.simps [of n])

lemma uint_value_append:
  "uint_value limit base n (s @ t) =
     (case uint_value limit base n s of None \<Rightarrow> None | Some m \<Rightarrow> uint_value limit base m t)"
  by (induction limit base n s rule: uint_value.induct) (auto split: option.split)

lemma uint_digit_dec: "d < 10 \<Longrightarrow> uint_digit (char_of (48 + d)) = Some d"
  by (simp add: uint_digit_def is_digit_def)

lemma dec_digit_no_underscore: "d < 10 \<Longrightarrow> char_of (48 + d) \<noteq> CHR ''_''" for d :: nat
proof
  assume d: "d < 10" and "char_of (48 + d) = CHR ''_''"
  then have "code (char_of (48 + d)) = code CHR ''_''" by simp
  then show False using d by simp
qed

lemma uint_value_digits:
  "uint_value limit 10 0 (digits_of n) = (if n \<le> limit then Some n else None)"
proof (induction n rule: less_induct)
  case (less n)
  show ?case
  proof (cases "n < 10")
    case True
    then show ?thesis by (simp add: digits_of_rec uint_digit_dec dec_digit_no_underscore)
  next
    case False
    then have "uint_value limit 10 0 (digits_of (n div 10)) = (if n div 10 \<le> limit then Some (n div 10) else None)"
      by (intro less) simp
    moreover have "n div 10 \<le> n" by simp
    ultimately show ?thesis
      using False by (auto simp: digits_of_rec uint_value_append uint_digit_dec dec_digit_no_underscore)
  qed
qed

lemma digits_of_head: "digits_of n \<noteq> [] \<and> (0 < n \<longrightarrow> hd (digits_of n) \<noteq> CHR ''0'')"
proof (induction n rule: less_induct)
  case (less n)
  show ?case
  proof (cases "n < 10")
    case True
    have "char_of (48 + n) \<noteq> CHR ''0''" if "0 < n"
    proof
      assume "char_of (48 + n) = CHR ''0''"
      then have "code (char_of (48 + n)) = code CHR ''0''" by simp
      then show False using True that by simp
    qed
    then show ?thesis using True by (simp add: digits_of_rec)
  next
    case False
    then have "digits_of (n div 10) \<noteq> [] \<and> hd (digits_of (n div 10)) \<noteq> CHR ''0''" using less [of "n div 10"] by simp
    then show ?thesis using False by (simp add: digits_of_rec)
  qed
qed

text \<open>
  A decimal number is read back as itself when it fits in 16 bits, and is refused when it does not,
  so no configured TLS number is ever cut off.
\<close>

theorem uint16_round_trip:
  "stringToUint16 (dec_string (int n)) =
     (if n < 2 ^ 16 then Inr (of_nat n) else Inl (Panic ''Failed to convert to uint16''))"
proof -
  have u: "CHR ''_'' \<notin> set (digits_of n)"
  proof
    assume "CHR ''_'' \<in> set (digits_of n)"
    then show False using digits_of_digit [of "CHR ''_''" n] by (simp add: is_digit_def)
  qed
  have s: "dec_string (int n) = digits_of n" by (simp add: dec_string_def)
  have "parse_uint16 (digits_of n) = (if n < 2 ^ 16 then Some n else None)"
  proof (cases "n = 0")
    case True
    have "char_of (48 :: nat) = CHR ''0''" by code_simp
    then have "digits_of 0 = ''0''" by (simp add: digits_of_rec)
    then show ?thesis by (simp add: True parse_uint16_def uint_base_def)
  next
    case False
    then have "uint_base (digits_of n) = (10, digits_of n)" "digits_of n \<noteq> []"
      using digits_of_head [of n] by (auto simp: uint_base_def)
    then show ?thesis using u by (simp add: parse_uint16_def uint_value_digits)
  qed
  then show ?thesis unfolding stringToUint16_def s by simp
qed

section \<open>A watched server\<close>

definition test_os :: "(unit, nat, nat) os_api" where
  "test_os = \<lparr>os_Stat = (\<lambda>p w. False), os_Remove = (\<lambda>p w. (None, w)), os_Listen = (\<lambda>net addr w. (Inr w, w + 1)),
     os_Close = (\<lambda>l w. w), os_LoadX509 = (\<lambda>c k w. Inr ()), os_CipherSuites = [0x1301]\<rparr>"

lemma test_tls: "tls_settings [0x1301] (cf_Server test_loaded) =
    Inr \<lparr>tls_MinVersion = 0, tls_CurvePreferences = [], tls_CipherSuites = [0x1301], tls_Certificates = []\<rparr>"
  by (simp add: tls_settings_def test_loaded_def test_config_file_def)

lemma test_serves:
  "\<exists>srv. ServeOnce test_ext test_os test_loaded 7 = (Inr srv, 8) \<and> rn_ServeTLS srv"
proof -
  obtain sv where sv: "NewAuthServer test_ext test_loaded = Inr sv" using test_server_starts by blast
  have f: "sc_CertFile (cf_Server test_loaded) = ''cert.pem''" "sc_KeyFile (cf_Server test_loaded) = ''key.pem''"
    "sc_Net (cf_Server test_loaded) = ''tcp''" "os_CipherSuites test_os = [0x1301]"
    "os_LoadX509 test_os c k w = Inr ()" "os_Listen test_os net addr w = (Inr w, w + 1)" for c k w net addr
    by (simp_all add: test_loaded_def test_config_file_def test_os_def)
  show ?thesis
    by (simp add: ServeOnce_def sv f test_tls tls_certificate_def start_listener_def)
qed

definition test_watch_env ::
  "((unit, unit, unit) config, (unit, unit, unit, int kube_state, unit, nat) running, nat) watch_env" where
  "test_watch_env = program_env (\<lambda>w. test_source) test_validators test_keys test_ext test_os
     (\<lambda>f w. (None, w)) (\<lambda>f w. w) ''auth.yml''"

lemma watched_server_valid_witness:
  "\<exists>srv st. ServeOnce test_ext test_os test_loaded 7 = (Inr srv, 8) \<and>
     WatchConfig test_watch_env srv 8 (Some st) \<and> valid_config test_validators (rn_config (wt_server st))"
proof -
  obtain srv where srv: "ServeOnce test_ext test_os test_loaded 7 = (Inr srv, 8)" using test_serves by blast
  have "WatchConfig test_watch_env srv 8 (Some (watch_start test_watch_env srv 8))" by (rule WatchConfig.started)
  with watched_server_valid [where src = "\<lambda>w. test_source", OF test_config_loads srv, folded test_watch_env_def]
  show ?thesis using srv unfolding test_watch_env_def by blast
qed

lemma ServeOnce_tls_witness:
  "\<exists>rn tls. ServeOnce test_ext test_os test_loaded 7 = (Inr rn, 8) \<and> rn_TLSConfig rn = Some tls \<and> tls_Certificates tls = [()]"
proof -
  obtain srv where srv: "ServeOnce test_ext test_os test_loaded 7 = (Inr srv, 8)" "rn_ServeTLS srv" using test_serves by blast
  from ServeOnce_tls [OF srv(1)] show ?thesis using srv by auto
qed

definition test_watcher :: "(nat, nat) watcher" where
  "test_watcher = \<lparr>wt_watching = True, wt_needRestart = False, wt_server = 1, wt_world = 5\<rparr>"

definition counting_env :: "(nat, nat, nat) watch_env" where
  "counting_env = \<lparr>we_Add = (\<lambda>w. (None, w)), we_Remove = (\<lambda>w. w), we_Load = (\<lambda>w. Inr w),
     we_Start = (\<lambda>c w. (Inr c, w)), we_Close = (\<lambda>s w. w + 1)\<rparr>"

lemma reload_after_change_witness:
  "run_events counting_env [FileEvent Write_op, Tick] test_watcher =
     Some (test_watcher\<lparr>wt_server := 5, wt_world := 6\<rparr>) \<and>
   run_events counting_env [FileEvent Remove_op, Tick, Tick] test_watcher =
     Some (test_watcher\<lparr>wt_server := 5, wt_world := 6\<rparr>)"
proof -
  have w: "wt_watching test_watcher" "we_Add counting_env (we_Remove counting_env (wt_world test_watcher)) = (None, 5)"
    by (simp_all add: test_watcher_def counting_env_def)
  from reload_after_change [OF w(1), of counting_env 5 5 6 0 _ 5 6] w(2) show ?thesis
    by (simp add: test_watcher_def counting_env_def)
qed

lemma other_events_ignored_witness:
  "run_events counting_env (FileEvent Rename_op # replicate 3 Tick) test_watcher = Some test_watcher"
proof -
  have "wt_watching test_watcher" "\<not> wt_needRestart test_watcher" by (simp_all add: test_watcher_def)
  moreover have "Rename_op \<noteq> Write_op" "Rename_op \<noteq> Remove_op"
    by (simp_all add: Rename_op_def Write_op_def Remove_op_def)
  ultimately show ?thesis using other_events_ignored [of test_watcher Rename_op counting_env 3] by blast
qed

text \<open>The loaded configuration with a TLS version that does not exist.\<close>

definition odd_file :: "(unit, unit, unit) config" where
  "odd_file = test_config_file\<lparr>cf_Server := (cf_Server test_config_file)\<lparr>sc_TLSMinVersion := ''TLS14''\<rparr>\<rparr>"

definition odd_loaded :: "(unit, unit, unit) config" where
  "odd_loaded = test_loaded\<lparr>cf_Server := (cf_Server test_loaded)\<lparr>sc_TLSMinVersion := ''TLS14''\<rparr>\<rparr>"

definition odd_source :: "(unit, unit, unit) config_source" where
  "odd_source = \<lparr>cs_ReadFile = (\<lambda>f. Inr f), cs_Unmarshal = (\<lambda>s. Inr odd_file)\<rparr>"

lemma odd_config_loads: "LoadConfig odd_source test_validators test_keys ''auth.yml'' = Inr odd_loaded"
  by (simp add: LoadConfig_def odd_source_def validate_def validate_server_def validate_token_def test_config_file_def
      validate_kubernetes_def ApplyDefaults_def auth_Validate_def authz_Validate_def has_kubernetes_authz_def
      validate_acl_def validate_plugin_def load_pair_def loadCertAndKey_def test_keys_def set_server_keys_def odd_file_def
      odd_loaded_def set_token_keys_def test_loaded_def test_config_def test_validators_def defaultUserName_def
      minute_def second_def)

lemma TLS14_unknown: "tls_value TLSVersionValues ''TLS14'' = Inl (Panic ''Failed to convert to uint16'')"
  by (simp add: tls_value_def TLSVersionValues_def stringToUint16_def parse_uint16_def uint_base_def uint_digit_def
      is_digit_def is_lower_def lower_char_def is_upper_def)

lemma odd_tls: "tls_settings [0x1301] (cf_Server odd_loaded) = (Inl (Panic ''Failed to convert to uint16'') :: unit tls_config go)"
proof -
  have "sc_TLSMinVersion (cf_Server odd_loaded) = ''TLS14''" by (simp add: odd_loaded_def)
  then show ?thesis by (simp add: tls_settings_def TLS14_unknown)
qed

lemma reload_can_exit_witness:
  "LoadConfig odd_source test_validators test_keys ''auth.yml'' = Inr odd_loaded \<and>
   (\<exists>srv. on_tick (program_env (\<lambda>w. odd_source) test_validators test_keys test_ext test_os
      (\<lambda>f w. (None, w)) (\<lambda>f w. w) ''auth.yml'')
     \<lparr>wt_watching = True, wt_needRestart = True, wt_server = srv, wt_world = 8\<rparr> = None)"
proof -
  obtain srv where "ServeOnce test_ext test_os test_loaded 7 = (Inr srv, 8)" using test_serves by blast
  let ?st = "\<lparr>wt_watching = True, wt_needRestart = True, wt_server = srv, wt_world = 8\<rparr>"
  have "LoadConfig ((\<lambda>w. odd_source) (wt_world ?st)) test_validators test_keys ''auth.yml'' = Inr odd_loaded"
    using odd_config_loads by simp
  moreover have "tls_settings (os_CipherSuites test_os) (cf_Server odd_loaded) =
      (Inl (Panic ''Failed to convert to uint16'') :: unit tls_config go)"
    using odd_tls by (simp add: test_os_def)
  ultimately have "on_tick (program_env (\<lambda>w. odd_source) test_validators test_keys test_ext test_os
      (\<lambda>f w. (None, w)) (\<lambda>f w. w) ''auth.yml'') ?st = None"
    by (intro reload_can_exit) simp_all
  then show ?thesis using odd_config_loads by blast
qed

end
