(* ===== verification/Version_Gen.thy ===== *)
theory Version_Gen
  imports Go_Encoding
begin

text \<open>
  \<^verbatim>\<open>.build/genversion/main.go\<close>: the version and the build id of the server, from the git checkout
  it is built in. What \<^verbatim>\<open>go-git\<close> reads from the checkout is an argument: the head, how many files
  differ, and the references that the iterator over the tags visits, each with the kind of
  reference and the text its method \<^verbatim>\<open>String\<close> gives. A fatal log entry is an error of the model.
\<close>

record git_repo =
  gr_head :: "go_error + string \<times> string"
  gr_status :: "go_error + nat"
  gr_tags :: "(bool \<times> string) list option"

record clock_time =
  ct_Year :: nat
  ct_Month :: nat
  ct_Day :: nat
  ct_Hour :: nat
  ct_Minute :: nat
  ct_Second :: nat

text \<open>Numbers with leading zeros, as \<^verbatim>\<open>Time.Format\<close> writes them.\<close>

definition padded :: "nat \<Rightarrow> nat \<Rightarrow> string" where
  "padded w n = replicate (w - length (digits_of n)) CHR ''0'' @ digits_of n"

definition format_date :: "clock_time \<Rightarrow> string" where
  "format_date t = padded 4 (ct_Year t) @ padded 2 (ct_Month t) @ padded 2 (ct_Day t)"

definition trim_prefix :: "string \<Rightarrow> string \<Rightarrow> string" where
  "trim_prefix p s = (if prefix p s then drop (length p) s else s)"

definition trimRef :: "string \<Rightarrow> string" where
  "trimRef ref = trim_prefix ''refs/tags/'' (trim_prefix ''refs/heads/'' ref)"

text \<open>The loop over the tags; a text without a blank has no second field.\<close>

fun tag_loop :: "string \<Rightarrow> (bool \<times> string) list \<Rightarrow> string \<Rightarrow> string go" where
  "tag_loop short [] branch_or_tag = Inr branch_or_tag"
| "tag_loop short ((is_hash, tag) # tags) branch_or_tag =
     (if \<not> is_hash then tag_loop short tags branch_or_tag
      else if prefix short tag
      then (case split_on CHR '' '' tag of
              _ # name # _ \<Rightarrow> tag_loop short tags (trimRef name)
            | _ \<Rightarrow> Inl (Panic ''index out of range''))
      else tag_loop short tags branch_or_tag)"

definition genversion :: "git_repo \<Rightarrow> clock_time \<Rightarrow> (string \<times> string) go" where
  "genversion r t =
     (let ts = format_date t @ ''-'' @ padded 2 (ct_Hour t) @ padded 2 (ct_Minute t) @ padded 2 (ct_Second t) in
      case gr_head r of
        Inl err \<Rightarrow> Inl (Err err)
      | Inr (hash, name) \<Rightarrow>
          (if length hash < 8 then Inl (Panic ''slice bounds out of range'')
           else let short = take 8 hash in
             case gr_status r of
               Inl err \<Rightarrow> Inl (Err err)
             | Inr changes \<Rightarrow>
                 (let is_dirty = (if changes > 0 then ''+'' else []);
                      branch = (if name = ''HEAD'' then ''?'' else name) in
                  case gr_tags r of
                    None \<Rightarrow> Inl (Panic nil_deref)
                  | Some tags \<Rightarrow>
                      go_then (tag_loop short tags branch) (\<lambda>branch_or_tag.
                        let buildId = ts @ ''/'' @ branch_or_tag @ ''@'' @ short @ is_dirty;
                            version = (if is_dirty \<noteq> [] \<or> branch_or_tag = ''?'' then branch_or_tag
                                       else format_date t @ padded 2 (ct_Hour t))
                        in Inr (version, buildId)))))"

section \<open>Laws\<close>

lemma padded_chars: "c \<in> set (padded w n) \<Longrightarrow> is_digit c"
  by (auto simp: padded_def is_digit_def dest: digits_of_digit split: if_splits)

lemma trimRef_tag [simp]: "trimRef (''refs/tags/'' @ name) = name"
  by (simp add: trimRef_def trim_prefix_def)

text \<open>A tag reference prints its hash, a blank and its name.\<close>

definition tag_text :: "string \<times> string \<Rightarrow> bool \<times> string" where
  "tag_text tag = (True, fst tag @ '' refs/tags/'' @ snd tag)"

definition tag_wf :: "string \<times> string \<Rightarrow> bool" where
  "tag_wf tag = (length (fst tag) = 40 \<and> CHR '' '' \<notin> set (fst tag) \<and> CHR '' '' \<notin> set (snd tag))"

lemma tag_loop_last:
  assumes "length short = 8" "list_all tag_wf tags"
  shows "tag_loop short (map tag_text tags) b =
    Inr (last (b # map snd (filter (\<lambda>tag. prefix short (fst tag)) tags)))"
  using assms(2)
proof (induction tags arbitrary: b)
  case (Cons tag tags)
  have wf: "length (fst tag) = 40" "CHR '' '' \<notin> set (fst tag)" "CHR '' '' \<notin> set (snd tag)"
    using Cons.prems by (simp_all add: tag_wf_def)
  have "prefix short (fst tag @ '' refs/tags/'' @ snd tag) \<longleftrightarrow> prefix short (fst tag)"
    using wf(1) assms(1) by (auto simp: prefix_append)
  moreover have "split_on CHR '' '' (fst tag @ '' refs/tags/'' @ snd tag) = [fst tag, ''refs/tags/'' @ snd tag]"
    using split_on_append_sep [OF wf(2), of "''refs/tags/'' @ snd tag"] wf(3) by simp
  ultimately show ?case using Cons trimRef_tag [of "snd tag"] by (simp add: tag_text_def)
qed simp

lemma prefix_take: "length p = n \<Longrightarrow> prefix p s \<longleftrightarrow> take n s = p"
  by (auto simp: prefix_def) (metis append_take_drop_id)

lemma format_date_chars: "c \<in> set (format_date t) \<Longrightarrow> is_digit c"
  by (auto simp: format_date_def dest: padded_chars)

lemma cut_at_first: "c \<notin> set a \<Longrightarrow> cut_at c (a @ c # b) = Some (a, b)"
  by (induction a) auto

text \<open>
  C40. In a checkout that can be read, the build id is the time of the build, a slash, a reference, an at sign,
  and eight digits of the commit with a plus sign when files differ from it; the time can be
  read back up to the first slash. The reference is the last visited tag whose own hash starts with
  those eight digits, and without such a tag the branch, or a question mark when the head is
  detached. An annotated tag has a hash of its own, so it is not found at the head. The version is
  date and hour when no file differs and the reference is not the question mark; in every other case it is
  the reference, so the question mark for a clean detached checkout without such a tag.
\<close>

theorem genversion_ids:
  assumes "gr_head r = Inr (hash, name)" "length hash = 40" "gr_status r = Inr changes"
    "gr_tags r = Some (map tag_text tags)" "list_all tag_wf tags"
  shows "\<exists>version buildId rest. genversion r t = Inr (version, buildId) \<and>
    (let ref = last ((if name = ''HEAD'' then ''?'' else name) #
                     map snd (filter (\<lambda>tag. take 8 (fst tag) = take 8 hash) tags)) in
     cut_at CHR ''/'' buildId =
       Some (format_date t @ ''-'' @ padded 2 (ct_Hour t) @ padded 2 (ct_Minute t) @ padded 2 (ct_Second t), rest) \<and>
     rest = ref @ ''@'' @ take 8 hash @ (if changes = 0 then [] else ''+'') \<and>
     version = (if changes = 0 \<and> ref \<noteq> ''?'' then format_date t @ padded 2 (ct_Hour t) else ref))"
proof -
  let ?ts = "format_date t @ ''-'' @ padded 2 (ct_Hour t) @ padded 2 (ct_Minute t) @ padded 2 (ct_Second t)"
  let ?b = "if name = ''HEAD'' then ''?'' else name"
  have same: "filter (\<lambda>tag. prefix (take 8 hash) (fst tag)) tags = filter (\<lambda>tag. take 8 (fst tag) = take 8 hash) tags"
    using assms(2,5) by (intro filter_cong) (simp_all add: prefix_take)
  have loop: "tag_loop (take 8 hash) (map tag_text tags) ?b =
      Inr (last (?b # map snd (filter (\<lambda>tag. take 8 (fst tag) = take 8 hash) tags)))"
    using tag_loop_last [OF _ assms(5), of "take 8 hash" ?b] assms(2) by (simp add: same)
  have "CHR ''/'' \<notin> set ?ts"
    by (auto simp: is_digit_def dest!: padded_chars format_date_chars)
  then have cut: "cut_at CHR ''/'' (?ts @ ''/'' @ u) = Some (?ts, u)" for u
    using cut_at_first [of "CHR ''/''" ?ts u] by simp
  show ?thesis
    using assms(1-4) cut by (simp add: genversion_def loop Let_def del: append_assoc)
qed

definition test_repo :: git_repo where
  "test_repo = \<lparr>gr_head = Inr (replicate 40 CHR ''a'', ''main''), gr_status = Inr 1,
     gr_tags = Some (map tag_text [(replicate 40 CHR ''b'', ''v1.0''), (replicate 40 CHR ''a'', ''v1.1'')])\<rparr>"

lemma genversion_ids_witness:
  "\<exists>buildId. genversion test_repo \<lparr>ct_Year = 2024, ct_Month = 3, ct_Day = 9, ct_Hour = 7, ct_Minute = 5, ct_Second = 0\<rparr> =
    Inr (''v1.1'', buildId)"
  using genversion_ids [of test_repo "replicate 40 CHR ''a''" "''main''" 1
      "[(replicate 40 CHR ''b'', ''v1.0''), (replicate 40 CHR ''a'', ''v1.1'')]"
      "\<lparr>ct_Year = 2024, ct_Month = 3, ct_Day = 9, ct_Hour = 7, ct_Minute = 5, ct_Second = 0\<rparr>"]
  by (auto simp: test_repo_def tag_wf_def numeral_eq_Suc)

end
