(* ===== verification/Spec2Isabelle.thy ===== *)
theory Spec2Isabelle
  imports Prelude Go_Regexp Go_Path Go_Net Go_Encoding Go_Http Authz_ACL Authz_Iter Server_Auth
    Authn_Static K8s_Hash K8s_Namespace K8s_Rules K8s_Token K8s_Inflight Authz_Kubernetes Server_Config Server_Start
    Server_Concurrent Server_Stable Main_Server Version_Gen
begin

text \<open>
  A verification development of \<^verbatim>\<open>docker_auth\<close>, the token server of a container registry
  (\<^verbatim>\<open>src/auth_server\<close>): a client asks for scopes (actions on repositories), the server
  authenticates it, decides what it may do, and answers with a signed JSON web token.

  \<^bold>\<open>The parts and how they interact.\<close> \<^verbatim>\<open>main.go\<close> loads the configuration, starts a server and
  restarts it when the configuration file changes. \<^verbatim>\<open>server/config.go\<close> reads, validates and
  completes the configuration and loads the keys. \<^verbatim>\<open>server/server.go\<close> builds the lists of
  authenticators and authorizers, parses requests, runs them through the two lists and makes the
  token. Authenticators are the static users, a plugin, and the token reviewer of Kubernetes
  (\<^verbatim>\<open>authn/\<close>, \<^verbatim>\<open>k8s/token_reviewer.go\<close>). Authorizers are the access list, a plugin, and the
  Kubernetes authorizer, which asks for the rules of the user and for the existence of the
  namespace through two caches (\<^verbatim>\<open>authz/\<close>, \<^verbatim>\<open>k8s/\<close>). \<^verbatim>\<open>.build/genversion\<close> names the build.

  \<^bold>\<open>Theories and sources.\<close> Functions keep the names of the code; a record has the fields of the
  struct behind a prefix.
  \<^item> \<^verbatim>\<open>Prelude\<close>: Go errors (\<open>go_error\<close>, with wrapping), results (\<open>go\<close>: a value, an error or a panic)
    and the functions of \<^verbatim>\<open>strings\<close> and \<^verbatim>\<open>strconv\<close> the program calls.
  \<^item> \<^verbatim>\<open>Go_Regexp\<close>, \<^verbatim>\<open>Go_Path\<close>, \<^verbatim>\<open>Go_Net\<close>, \<^verbatim>\<open>Go_Encoding\<close>, \<^verbatim>\<open>Go_Http\<close>: what the program uses of
    Go's \<^verbatim>\<open>regexp\<close>, \<^verbatim>\<open>path\<close>, \<^verbatim>\<open>net\<close>, \<^verbatim>\<open>encoding/*\<close>, \<^verbatim>\<open>net/url\<close> and \<^verbatim>\<open>net/http\<close>.
  \<^item> \<^verbatim>\<open>Api\<close>: \<^verbatim>\<open>api/authn.go\<close>, \<^verbatim>\<open>api/authz.go\<close>, \<^verbatim>\<open>k8s/user_info.go\<close>, with the locale \<open>authorizer\<close>.
  \<^item> \<^verbatim>\<open>Authz_Set\<close>, \<^verbatim>\<open>Authz_ACL\<close>: \<^verbatim>\<open>authz/set.go\<close> and \<^verbatim>\<open>authz/acl.go\<close>. \<^verbatim>\<open>Authz_Iter\<close>: the goroutine of
    \<^verbatim>\<open>IterWithContext\<close> and its consumer in \<^verbatim>\<open>acl.go\<close>, as a step relation on a store of arrays.
  \<^item> \<^verbatim>\<open>Server_Types\<close>, \<^verbatim>\<open>Server_Request\<close>, \<^verbatim>\<open>Server_Auth\<close>, \<^verbatim>\<open>Server_Start\<close>: \<^verbatim>\<open>server/server.go\<close> from
    the records and \<^verbatim>\<open>ParseRequest\<close> over the two chains, \<^verbatim>\<open>CreateToken\<close> and the handlers to
    \<^verbatim>\<open>NewAuthServer\<close>. \<^verbatim>\<open>Server_Concurrent\<close>: the handlers with any number of requests at a time, and
    \<^verbatim>\<open>Server_Stable\<close> while the world outside gives the same answers. \<^verbatim>\<open>Server_Config\<close>: \<^verbatim>\<open>server/config.go\<close>.
  \<^item> \<^verbatim>\<open>Authn_Static\<close>: \<^verbatim>\<open>authn/static_auth.go\<close> and the two plugin files.
  \<^item> \<^verbatim>\<open>K8s_Config\<close> (\<^verbatim>\<open>const.go\<close>, \<^verbatim>\<open>helpers.go\<close>, \<^verbatim>\<open>rules.go\<close>, \<^verbatim>\<open>config.go\<close>), \<^verbatim>\<open>K8s_Hash\<close> (\<^verbatim>\<open>hash.go\<close>),
    \<^verbatim>\<open>K8s_Namespace\<close>, \<^verbatim>\<open>K8s_Rules\<close>, \<^verbatim>\<open>K8s_Token\<close> (with \<^verbatim>\<open>authn/kubernetes_auth.go\<close>) and
    \<^verbatim>\<open>Authz_Kubernetes\<close> (\<^verbatim>\<open>authz/kubernetes_authz.go\<close>). \<^verbatim>\<open>K8s_Inflight\<close>: the interleavings of
    concurrent callers of the two caches.
  \<^item> \<^verbatim>\<open>Main_Server\<close>: \<^verbatim>\<open>main.go\<close>. \<^verbatim>\<open>Version_Gen\<close>: \<^verbatim>\<open>.build/genversion/main.go\<close>.

  \<^bold>\<open>State and operations.\<close> Authenticators and authorizers are functions on a state that they return
  changed; a configured server has the state \<open>kube_state\<close>, its two caches and the world outside. The
  handlers are functions for a request alone; for requests at the same time \<open>server_step\<close> lets one
  arrive, one take its next call of an authenticator or authorizer on the shared state (\<open>request_step\<close> on
  its \<open>request_phase\<close>), or the world outside change. The watch loop of \<^verbatim>\<open>main.go\<close>
  is the step relation \<open>watch_step\<close> (a tick of a second, a file event, a signal, a change of the world)
  with its runs \<open>WatchConfig\<close>. A fatal log entry and a run-time panic are the result
  \<open>Panic\<close>.

  \<^bold>\<open>Interfaces.\<close> \<open>authorizer\<close> (grants only what was requested), with
  \<open>authorizer_list\<close> for the chain, holds for the access list, the Kubernetes authorizer and the lists of
  \<^verbatim>\<open>NewAuthServer\<close>; \<open>ns_checker\<close> and \<open>rules_source\<close> (which answers
  may be given) hold for the API calls and, through \<open>cached_checker\<close> and \<open>cached_rules\<close>, for
  the caches in front of them; \<open>kubernetes_authorizer\<close> joins the two; \<open>flight_group\<close> covers
  concurrent callers; \<open>kubernetes_refinement\<close> relates the caches to oracles; \<open>shared_state\<close>
  and \<open>calm_state\<close> say what every call of a server keeps of the state its requests share, and hold for
  every server and for those without plugins, \<open>stable_state\<close> that their answers do not change;
  \<open>config_watch\<close> says that what serves was started from what was loaded.

  \<^bold>\<open>What is shown.\<close> (1) Tokens: \<open>program_tokens\<close> below; what holds of a request in each
  of its phases, however it interleaves with others; that a request with enough turns is answered, and in a
  stable world like the sequential handler answers it; that grants are among the requested actions; which paths
  reach the authenticators. (2) The access
  list: first match, variables, labels, addresses, validation, independence of map order. (3) The iteration over label
  values: every interleaving gives the answer of the functional model, ends, and leaves no goroutine behind. (4)
  Kubernetes: exactly when access is granted, that every grant goes back to an answer of the API to
  a client with the token of a user who asked for the same key, also for concurrent callers, that
  the caches make no difference while the API is stable, and what their keys tell apart. (5) Configuration and life cycle: what validation guarantees, that valid configurations
  start and their servers do not panic under concurrent requests, and what restarts do. (6) Round trips of encodings,
  scopes and tokens; bounds of token times.

  \<^bold>\<open>Bounds.\<close> Byte strings are lists of 8-bit characters, times of tokens 64-bit words, cipher suites
  16-bit words, SHA-256 on 32-bit words. The only fuel is the number of iterations of a starred
  expression in \<open>Go_Regexp\<close>: the length of the text, which is enough because each iteration
  moves forward (\<open>loop_iter_enough\<close>). All functions are total; the runs of the iterator are
  bounded by \<open>level_cost\<close>, the steps of a request by \<open>phase_cost\<close>.

  \<^bold>\<open>Parameters.\<close> Code outside the repository is an argument: the Kubernetes clients with the
  retries of \<^verbatim>\<open>apiserver\<close>, which entries the LRU cache keeps, the token cache of \<^verbatim>\<open>apiserver\<close>,
  \<^verbatim>\<open>bcrypt\<close>, \<^verbatim>\<open>doublestar\<close>, \<^verbatim>\<open>ozzo-validation\<close>, \<^verbatim>\<open>cases.Title\<close>, the order of \<^verbatim>\<open>golang-set\<close>,
  \<^verbatim>\<open>libtrust\<close> and X.509, YAML, Go plugins, \<^verbatim>\<open>go-git\<close>, \<^verbatim>\<open>fsnotify\<close> and the operating system.

  \<^bold>\<open>Not modelled.\<close> Log messages (of the \<^verbatim>\<open>String\<close> methods, that of an access
  list entry, which is its JSON form); the methods \<^verbatim>\<open>Stop\<close>, which are empty; the transport of
  HTTP and the metrics handler of Prometheus beyond the call. Concurrent requests interleave at the calls of
  authenticators and authorizers; within a call the Kubernetes authorizer is one step (only its
  grants are also traced when others come in between its two requests), and the interleavings inside its caches and
  inside the label iterator are modelled on their own, with \<^verbatim>\<open>singleflight\<close> as it is documented. Text outside ASCII: Go's functions on code points (case, spaces, regular expressions) are exact on
  ASCII only; strings in JSON are exact for all bytes (\<open>utf8_units\<close>). Multipart bodies and media types are parsed outside the model.
\<close>

section \<open>The whole program\<close>

text \<open>
  C1. Every token the program ever sends is accounted for. Whenever a request to a token path is answered with status
  200, however often the configuration was changed and the server restarted before, and however
  the request interleaved with others on the same server and with changes of the world, the server
  that answers was made from a configuration that was read from the file and is valid; the
  request parses under that configuration, one of its authenticators accepted the account and
  the password of the request, and the body is a signed token of its issuer for that account, which
  grants for each requested scope only actions requested for it. Plugins have to keep the
  contract of their interface.
\<close>

theorem program_tokens:
  assumes "LoadConfig (src w0) vl kt cf = Inr c" "ServeOnce ext os c w0 = (Inr srv, w)"
    and "WatchConfig (program_env src vl kt ext os add rem cf) srv w (Some st)"
    and "\<forall>p a. lookupAuthzSymbol (ex_authz ext) p = Inr a \<longrightarrow> authorizer a"
    and "server_run (rn_auth (wt_server st)) outside (idle_server k) es s"
    and "q \<in> set (sg_requests s)" "auth_path (rn_auth (wt_server st)) (op_request q)"
    and "op_phase q = Responded (Inr resp)" "rs_Status resp = 200"
  shows "\<exists>config w1 ar ares tok. LoadConfig (src w1) vl kt cf = Inr config \<and> valid_config vl config \<and>
    ParseRequest (cf_Server config) (op_request q) = Inr ar \<and>
    (\<exists>a \<in> set (sv_authenticators (rn_auth (wt_server st))). \<exists>k0 k1 res.
       a (rq_Account ar) (rq_Password ar) k0 = (Inr res, k1) \<and> ar_Authenticated res) \<and>
    CreateToken (cf_Token config) (op_env q) ar ares = Inr tok \<and> rs_Body resp = TextBody (token_json tok) \<and>
    (let claims = token_claims (cf_Token config) (op_env q) ar ares in
     cs_Issuer claims = tc_Issuer (cf_Token config) \<and> cs_Subject claims = rq_Account ar \<and>
     cs_Audience claims = rq_Service ar \<and>
     list_all2 (\<lambda>ra sc. ra_Type ra = as_Type sc \<and> ra_Name ra = as_Name sc \<and>
         set (ra_Actions ra) \<subseteq> set (as_Actions sc) \<and> sorted (ra_Actions ra))
       (cs_Access claims) (rq_Scopes ar))"
proof -
  let ?config = "rn_config (wt_server st)" and ?sv = "rn_auth (wt_server st)"
  obtain w1 where config: "LoadConfig (src w1) vl kt cf = Inr ?config"
    "NewAuthServer ext ?config = Inr ?sv" "valid_config vl ?config"
    using watched_config [OF assms(1-3)] by blast
  have sv: "sv_Server ?sv = cf_Server ?config" "sv_Token ?sv = cf_Token ?config"
    using config(2) unfolding NewAuthServer_Inr by auto
  have claims: "cs_Issuer (token_claims t env ar ares) = tc_Issuer t" "cs_Audience (token_claims t env ar ares) = rq_Service ar"
    "cs_Subject (token_claims t env ar ares) = rq_Account ar"
    for t :: "('a, 'b) token_config" and env :: "'b token_env" and ar ares
    by (simp_all add: token_claims_def)
  from token_response_grants [OF concurrent_token [OF assms(5,6,8,9,7)] server_authorizers_keep [OF config(2) assms(4)]]
    config(1,3) show ?thesis
    unfolding Let_def claims sv by blast
qed

lemma bob_serves:
  "ServeOnce test_ext test_os bob_config 7 =
     (Inr \<lparr>rn_config = bob_config, rn_auth = bob_sv, rn_TLSConfig = None, rn_listener = 7, rn_ServeTLS = False\<rparr>, 8)"
proof -
  have s: "cf_Server bob_config = test_server" by (simp add: bob_config_def)
  show ?thesis
    unfolding ServeOnce_def bob_sv_starts s
    by (simp add: tls_settings_def tls_certificate_def start_listener_def test_server_def test_os_def)
qed

lemma watch_start_server: "wt_server (watch_start env srv w) = srv"
  by (simp add: watch_start_def split: prod.split)

lemma program_tokens_witness:
  "\<exists>ar ares tok. ParseRequest test_server bob_request = Inr ar \<and>
     CreateToken bob_tc test_env ar ares = Inr tok \<and> token_json bob_token = token_json tok"
proof -
  have plugins: "\<forall>p a. lookupAuthzSymbol (ex_authz test_ext) p = Inr a \<longrightarrow> authorizer a"
    by (simp add: lookupAuthzSymbol_def test_ext_def)
  have path: "auth_path bob_sv (op_request (hd (sg_requests bob_served)))"
    by (simp add: bob_served_request auth_path_def bob_sv_def bob_request_def test_server_def)
  from program_tokens [where src = "\<lambda>w :: nat. bob_source", OF bob_config_loads bob_serves WatchConfig.started plugins,
      unfolded watch_start_server running.select_convs, OF bob_run bob_served_request(1) path bob_served_request(2)]
  obtain config ar ares tok where t: "LoadConfig bob_source test_validators test_keys ''auth.yml'' = Inr config"
    "ParseRequest (cf_Server config) bob_request = Inr ar" "CreateToken (cf_Token config) test_env ar ares = Inr tok"
    "TextBody (token_json bob_token) = TextBody (token_json tok)"
    by (simp only: http_response.select_convs simp_thms bob_served_request) blast
  have "cf_Server config = test_server" "cf_Token config = bob_tc"
    using t(1) by (auto simp: bob_config_loads bob_config_def)
  then show ?thesis using t(2-4) by (intro exI [of _ ar] exI [of _ ares] exI [of _ tok]) simp
qed

end
